(* ===== verification/Prelude.thy ===== *)
theory Prelude
  imports Main "HOL-Library.Word"
begin

text \<open>
  The prelude of the development: the machine types of the Rust sources, the
  standard-library operations they use (slices, endianness, saturating and checked
  arithmetic), and the generic lemmas on bytes, words and lists that the component
  theories share.

  Conventions. \<open>u8\<close> \<dots> \<open>u128\<close> are words of the Rust width, so
  \<open>wrapping_add\<close> and \<open>wrapping_mul\<close> are plain \<open>+\<close> and \<open>*\<close>. A byte array
  \<open>[u8; N]\<close> and a byte slice \<open>&[u8]\<close> are both byte lists; a mutable output slice is
  passed in and returned. \<open>usize\<close> values are natural numbers, and
  \<open>usize_max\<close> is the bound that \<open>checked_add\<close> and \<open>saturating_add\<close>
  respect (a 64-bit target).
\<close>

unbundle bit_operations_syntax

type_synonym u8 = "8 word"
type_synonym u16 = "16 word"
type_synonym u32 = "32 word"
type_synonym u64 = "64 word"
type_synonym u128 = "128 word"
type_synonym bytes = "u8 list"

named_theorems byte_simps \<open>endianness conversions and their lengths\<close>
named_theorems len_simps \<open>lengths of the byte strings the components produce\<close>

subsection \<open>Slices\<close>

text \<open>\<open>s.get(..n)\<close>, \<open>s.get(n..)\<close> and \<open>s.split_at_checked(n)\<close>.\<close>

definition get_to :: "nat \<Rightarrow> 'a list \<Rightarrow> 'a list option" where
  "get_to n xs = (if n \<le> length xs then Some (take n xs) else None)"

definition get_from :: "nat \<Rightarrow> 'a list \<Rightarrow> 'a list option" where
  "get_from n xs = (if n \<le> length xs then Some (drop n xs) else None)"

definition split_at_checked :: "nat \<Rightarrow> 'a list \<Rightarrow> ('a list \<times> 'a list) option" where
  "split_at_checked n xs = (if n \<le> length xs then Some (take n xs, drop n xs) else None)"

text \<open>Writing \<open>src\<close> over the bytes of \<open>buf\<close> that start at \<open>off\<close>
  (\<open>copy_from_slice\<close> into a sub-slice).\<close>

definition put :: "nat \<Rightarrow> 'a list \<Rightarrow> 'a list \<Rightarrow> 'a list" where
  "put off src buf = take off buf @ src @ drop (off + length src) buf"

text \<open>\<open>for (d, s) in dst.iter_mut().zip(src.iter()) { *d = *s }\<close>: the common prefix of
  \<open>dst\<close> is overwritten, the rest stays.\<close>

definition zip_copy :: "'a list \<Rightarrow> 'a list \<Rightarrow> 'a list" where
  "zip_copy dst src = take (length dst) src @ drop (length src) dst"

text \<open>\<open>chunks(n)\<close>: consecutive chunks of \<open>n\<close> elements, the last one may be shorter.\<close>

function chunks :: "nat \<Rightarrow> 'a list \<Rightarrow> 'a list list" where
  "chunks n xs = (if n = 0 \<or> xs = [] then [] else take n xs # chunks n (drop n xs))"
  by pat_completeness auto
termination
  by (relation "measure (\<lambda>(n, xs). length xs)") auto

declare chunks.simps [simp del]

text \<open>\<open>chunks_exact(n)\<close> and its \<open>remainder()\<close>.\<close>

definition chunks_exact :: "nat \<Rightarrow> 'a list \<Rightarrow> 'a list list" where
  "chunks_exact n xs = filter (\<lambda>c. length c = n) (chunks n xs)"

definition chunks_remainder :: "nat \<Rightarrow> 'a list \<Rightarrow> 'a list" where
  "chunks_remainder n xs = drop (length xs div n * n) xs"

subsection \<open>Integers\<close>

definition usize_max :: nat where
  "usize_max = 2 ^ 64 - 1"

definition checked_add_usize :: "nat \<Rightarrow> nat \<Rightarrow> nat option" where
  "checked_add_usize a b = (if a + b \<le> usize_max then Some (a + b) else None)"

definition saturating_add_usize :: "nat \<Rightarrow> nat \<Rightarrow> nat" where
  "saturating_add_usize a b = min usize_max (a + b)"

definition checked_sub_usize :: "nat \<Rightarrow> nat \<Rightarrow> nat option" where
  "checked_sub_usize a b = (if b \<le> a then Some (a - b) else None)"

definition saturating_add :: "u64 \<Rightarrow> u64 \<Rightarrow> u64" where
  "saturating_add a b = (if unat a + unat b < 2 ^ 64 then a + b else - 1)"

definition saturating_sub :: "u64 \<Rightarrow> u64 \<Rightarrow> u64" where
  "saturating_sub a b = (if b \<le> a then a - b else 0)"

definition saturating_mul :: "u64 \<Rightarrow> u64 \<Rightarrow> u64" where
  "saturating_mul a b = (if unat a * unat b < 2 ^ 64 then a * b else - 1)"

definition checked_add :: "u64 \<Rightarrow> u64 \<Rightarrow> u64 option" where
  "checked_add a b = (if unat a + unat b < 2 ^ 64 then Some (a + b) else None)"

text \<open>\<open>overflowing_add\<close>: the wrapped sum and the carry.\<close>

definition overflowing_add :: "'a::len word \<Rightarrow> 'a word \<Rightarrow> 'a word \<times> bool" where
  "overflowing_add a b = (a + b, unat a + unat b \<ge> 2 ^ LENGTH('a))"

text \<open>Code equations over \<open>int\<close>, so that evaluation never builds \<open>2^64\<close> in unary.\<close>

lemma usize_code [code]:
  "checked_add_usize a b = (if int a + int b \<le> 18446744073709551615 then Some (a + b) else None)"
  "saturating_add_usize a b =
     (if int a + int b \<le> 18446744073709551615 then a + b else nat 18446744073709551615)"
  by (auto simp: checked_add_usize_def saturating_add_usize_def usize_max_def)

lemma saturating_code [code]:
  "saturating_add a b = (if uint a + uint b < 18446744073709551616 then a + b else - 1)"
  "saturating_mul a b = (if uint a * uint b < 18446744073709551616 then a * b else - 1)"
  "checked_add a b = (if uint a + uint b < 18446744073709551616 then Some (a + b) else None)"
proof -
  have n: "n < 2 ^ 64 \<longleftrightarrow> int n < 18446744073709551616" for n by simp
  have "unat a + unat b < 2 ^ 64 \<longleftrightarrow> uint a + uint b < 18446744073709551616"
    unfolding n uint_nat of_nat_add ..
  moreover have "unat a * unat b < 2 ^ 64 \<longleftrightarrow> uint a * uint b < 18446744073709551616"
    unfolding n uint_nat of_nat_mult ..
  ultimately show
    "saturating_add a b = (if uint a + uint b < 18446744073709551616 then a + b else - 1)"
    "saturating_mul a b = (if uint a * uint b < 18446744073709551616 then a * b else - 1)"
    "checked_add a b = (if uint a + uint b < 18446744073709551616 then Some (a + b) else None)"
    by (simp_all add: saturating_add_def saturating_mul_def checked_add_def)
qed

lemma overflowing_code [code]:
  "overflowing_add a b = (a + b :: 'a::len word, uint a + uint b \<ge> 2 ^ LENGTH('a))"
proof -
  have "unat a + unat b \<ge> 2 ^ LENGTH('a) \<longleftrightarrow> uint a + uint b \<ge> 2 ^ LENGTH('a)"
    unfolding uint_nat by (metis of_nat_add of_nat_le_iff of_nat_numeral of_nat_power)
  then show ?thesis by (simp add: overflowing_add_def)
qed

subsection \<open>Endianness\<close>

text \<open>\<open>to_le_bytes\<close> of an integer of \<open>n\<close> bytes, and \<open>from_le_bytes\<close>.\<close>

fun le_bytes :: "nat \<Rightarrow> 'a::len word \<Rightarrow> bytes" where
  "le_bytes 0 w = []"
| "le_bytes (Suc n) w = ucast w # le_bytes n (drop_bit 8 w)"

fun from_le :: "bytes \<Rightarrow> 'a::len word" where
  "from_le [] = 0"
| "from_le (b # bs) = ucast b OR push_bit 8 (from_le bs)"

definition be_bytes :: "nat \<Rightarrow> 'a::len word \<Rightarrow> bytes" where
  "be_bytes n w = rev (le_bytes n w)"

definition from_be :: "bytes \<Rightarrow> 'a::len word" where
  "from_be bs = from_le (rev bs)"

text \<open>The number a little-endian byte string denotes.\<close>

fun le_nat :: "bytes \<Rightarrow> nat" where
  "le_nat [] = 0"
| "le_nat (b # bs) = unat b + 256 * le_nat bs"

subsection \<open>Generic lemmas\<close>

lemma unat_less_exp: "unat (w :: 'a::len word) < 2 ^ LENGTH('a)"
  by (rule unsigned_less)

lemma xor_eq_0_iff: "x XOR y = 0 \<longleftrightarrow> x = (y :: 'a::len word)"
  by (auto simp: bit_eq_iff bit_xor_iff)

lemma length_le_bytes [simp, byte_simps]: "length (le_bytes n w) = n"
  by (induction n arbitrary: w) auto

lemma nth_le_bytes: "k < n \<Longrightarrow> le_bytes n w ! k = ucast (drop_bit (8 * k) w)"
proof (induction n arbitrary: k w)
  case (Suc n)
  then show ?case by (cases k) (auto simp: algebra_simps)
qed simp

lemma bit_from_le:
  "bit (from_le bs :: 'a::len word) i \<longleftrightarrow>
     i < LENGTH('a) \<and> i div 8 < length bs \<and> bit (bs ! (i div 8)) (i mod 8)"
proof (induction bs arbitrary: i)
  case (Cons b bs)
  show ?case
  proof (cases "i < 8")
    case True
    then show ?thesis by (auto simp: bit_or_iff bit_push_bit_iff bit_ucast_iff)
  next
    case False
    then obtain j where j: "i = j + 8" by (metis add.commute le_Suc_ex not_less)
    have "\<not> bit (ucast b :: 'a word) i" using False by (auto simp: bit_ucast_iff dest: bit_imp_le_length)
    moreover have "(j + 8) div 8 = Suc (j div 8)" by simp
    ultimately show ?thesis
      using j by (auto simp: bit_or_iff bit_push_bit_iff Cons.IH)
  qed
qed (simp)

lemma from_le_le_bytes [simp, byte_simps]:
  "LENGTH('a) \<le> 8 * n \<Longrightarrow> from_le (le_bytes n w) = (w :: 'a::len word)"
  by (rule bit_word_eqI)
     (auto simp: bit_from_le nth_le_bytes bit_ucast_iff bit_drop_bit_eq less_mult_imp_div_less mult.commute)

lemma le_bytes_from_le [byte_simps]:
  assumes "length bs = n" and "8 * n \<le> LENGTH('a)"
  shows "le_bytes n (from_le bs :: 'a::len word) = bs"
proof (rule nth_equalityI)
  fix k assume "k < length (le_bytes n (from_le bs :: 'a word))"
  then have k: "k < n" by simp
  show "le_bytes n (from_le bs :: 'a word) ! k = bs ! k"
  proof (rule bit_word_eqI)
    fix i assume "i < LENGTH(8)"
    then show "bit (le_bytes n (from_le bs :: 'a word) ! k) i = bit (bs ! k) i"
      using k assms by (auto simp: nth_le_bytes bit_ucast_iff bit_drop_bit_eq bit_from_le)
  qed
qed (use assms in simp)

lemma le_nat_less: "le_nat bs < 256 ^ length bs"
proof (induction bs)
  case (Cons b bs)
  have "unat b < 256" using unat_less_exp [of b] by simp
  with Cons show ?case by simp
qed simp

lemma le_nat_append: "le_nat (xs @ ys) = le_nat xs + 256 ^ length xs * le_nat ys"
  by (induction xs) (auto simp: algebra_simps)

lemma unat_from_le: "unat (from_le bs :: 'a::len word) = le_nat bs mod 2 ^ LENGTH('a)"
proof (induction bs)
  case (Cons b bs)
  have "(ucast b :: 'a word) AND push_bit 8 (from_le bs) = 0"
    by (rule bit_word_eqI) (auto simp: bit_and_iff bit_push_bit_iff bit_ucast_iff dest: bit_imp_le_length)
  then have "ucast b OR push_bit 8 (from_le bs) = (ucast b + push_bit 8 (from_le bs) :: 'a word)"
    by (simp add: disjunctive_add_eq_or)
  moreover have "(ucast b + push_bit 8 (from_le bs) :: 'a word) = of_nat (unat b + 256 * unat (from_le bs :: 'a word))"
    by (simp add: push_bit_eq_mult)
  ultimately have "unat (from_le (b # bs) :: 'a word) = (unat b + 256 * unat (from_le bs :: 'a word)) mod 2 ^ LENGTH('a)"
    by (simp only: from_le.simps unat_of_nat)
  then show ?case
    by (metis Cons.IH le_nat.simps(2) mod_add_right_eq mod_mult_right_eq)
qed simp

lemma unat_from_le_exact:
  "8 * length bs \<le> LENGTH('a) \<Longrightarrow> unat (from_le bs :: 'a::len word) = le_nat bs"
proof -
  assume a: "8 * length bs \<le> LENGTH('a)"
  have "le_nat bs < 2 ^ (8 * length bs)"
    using le_nat_less [of bs] by (simp add: power_mult)
  also have "\<dots> \<le> 2 ^ LENGTH('a)" using a by simp
  finally show ?thesis by (simp add: unat_from_le)
qed

lemma le_nat_le_bytes: "le_nat (le_bytes n w) = unat w mod 256 ^ n"
proof (induction n arbitrary: w)
  case (Suc n)
  have "unat (ucast w :: u8) = unat w mod 256" by (simp add: unsigned_ucast_eq take_bit_eq_mod)
  moreover have "unat (drop_bit 8 w) = unat w div 256"
    unfolding unat_drop_bit_eq by (simp add: drop_bit_eq_div)
  ultimately show ?case by (simp add: Suc.IH mod_mult2_eq)
qed simp

lemma digits_eq: "a < k \<Longrightarrow> b < k \<Longrightarrow> a + k * m = b + k * n \<longleftrightarrow> a = b \<and> m = (n :: nat)"
proof
  assume a: "a < k" "b < k" and eq: "a + k * m = b + k * n"
  have "(a + k * m) mod k = (b + k * n) mod k" "(a + k * m) div k = (b + k * n) div k"
    using eq by simp_all
  with a show "a = b \<and> m = n" by simp
qed simp

lemma digits_less:
  assumes "a < k" "b < k"
  shows "a + k * m < b + k * n \<longleftrightarrow> m < n \<or> (m = n \<and> a < (b :: nat))"
proof -
  have "a + k * m < b + k * n" if "m < n"
  proof -
    have "k * m + k \<le> k * n" using that by (metis Suc_leI mult_Suc_right mult_le_mono2 add.commute)
    with assms show ?thesis by linarith
  qed
  moreover have "\<not> a + k * m < b + k * n" if "n < m"
  proof -
    have "k * n + k \<le> k * m" using that by (metis Suc_leI mult_Suc_right mult_le_mono2 add.commute)
    with assms show ?thesis by linarith
  qed
  ultimately show ?thesis by (metis add_less_cancel_right linorder_neqE_nat)
qed

lemma le_nat_inject: "length xs = length ys \<Longrightarrow> le_nat xs = le_nat ys \<longleftrightarrow> xs = ys"
proof (induction xs ys rule: list_induct2)
  case (Cons x xs y ys)
  have "unat x < 256" "unat y < 256" using unat_less_exp [of x] unat_less_exp [of y] by simp_all
  then have "unat x + 256 * le_nat xs = unat y + 256 * le_nat ys \<longleftrightarrow> unat x = unat y \<and> le_nat xs = le_nat ys"
    by (rule digits_eq)
  with Cons show ?case by (simp add: word_unat_eq_iff)
qed simp

lemma length_be_bytes [simp]: "length (be_bytes n w) = n"
  by (simp add: be_bytes_def)

lemma from_be_be_bytes [simp]: "LENGTH('a) \<le> 8 * n \<Longrightarrow> from_be (be_bytes n w) = (w :: 'a::len word)"
  by (simp add: be_bytes_def from_be_def)

lemma saturating_add_nat: "unat (saturating_add a b) = min (2 ^ 64 - 1) (unat a + unat b)"
proof -
  have "unat (-1 :: u64) = 2 ^ 64 - 1" by (simp add: unsigned_minus_1_eq_mask mask_eq_exp_minus_1)
  then show ?thesis by (auto simp: saturating_add_def unat_word_ariths)
qed

lemma saturating_sub_nat: "unat (saturating_sub a b) = unat a - unat b"
  by (auto simp: saturating_sub_def unat_sub word_le_nat_alt)

lemma length_put [simp]: "off + length src \<le> length buf \<Longrightarrow> length (put off src buf) = length buf"
  by (simp add: put_def)

lemma length_zip_copy [simp]: "length (zip_copy dst src) = length dst"
  by (simp add: zip_copy_def)

lemma zip_copy_same [simp]: "length dst = length src \<Longrightarrow> zip_copy dst src = src"
  by (simp add: zip_copy_def)

lemma chunks_Nil [simp]: "chunks n [] = []"
  by (simp add: chunks.simps)

lemma chunks_step: "0 < n \<Longrightarrow> xs \<noteq> [] \<Longrightarrow> chunks n xs = take n xs # chunks n (drop n xs)"
  by (subst chunks.simps) simp

lemma concat_chunks: "0 < n \<Longrightarrow> concat (chunks n xs) = xs"
proof (induction n xs rule: chunks.induct)
  case (1 n xs)
  then show ?case by (cases "xs = []") (simp_all add: chunks_step)
qed

lemma chunks_append: "0 < n \<Longrightarrow> n dvd length xs \<Longrightarrow> chunks n (xs @ ys) = chunks n xs @ chunks n ys"
proof (induction n xs rule: chunks.induct)
  case (1 n xs)
  show ?case
  proof (cases "xs = []")
    case False
    with 1(3) have "n \<le> length xs" by (auto intro: dvd_imp_le)
    moreover have "n dvd length (drop n xs)" using 1(3) by simp
    ultimately show ?thesis using 1 False by (simp add: chunks_step)
  qed simp
qed

subsection \<open>Modular counters\<close>

lemma mod_digits: "(x :: nat) < m \<Longrightarrow> (x + m * y) mod (m * n) = x + m * (y mod n)"
  by (simp add: mod_mult2_eq)

lemma mod_shift: "((a :: nat) mod m + 1 + i) mod m = (a + Suc i) mod m"
  using mod_add_left_eq [of a m "Suc i"] by simp

lemma distinct_mod_shift:
  assumes "k \<le> M"
  shows "distinct (map (\<lambda>i. (N + i) mod M) [0..<k :: nat])"
proof -
  have le: "i = j" if "i \<le> j" "j < k" "(N + j) mod M = (N + i) mod M" for i j
  proof -
    have "M dvd j - i" using that mod_eq_dvd_iff_nat [of "N + i" "N + j" M] by simp
    moreover have "j - i < M" using that assms by simp
    ultimately show ?thesis using that(1) by (auto dest: dvd_imp_le)
  qed
  have "i = j" if "i < k" "j < k" "(N + i) mod M = (N + j) mod M" for i j
    using le [of i j] le [of j i] that by (cases "i \<le> j") auto
  then show ?thesis by (auto simp: distinct_map inj_on_def)
qed

end
