(* ===== verification/Wg_Error.thy ===== *)
theory Wg_Error
  imports Prelude
begin

text \<open>
  \<open>src/src/error.rs\<close>: the error enumeration, its \<open>Display\<close> texts, and the result
  type of every fallible operation (\<open>Inl\<close> an error, \<open>Inr\<close> a value).
\<close>

datatype error =
    BufferTooSmall
  | NotEstablished
  | InvalidPacket
  | InvalidMac1
  | AuthFailure
  | UnknownPeer
  | ReplayedTimestamp
  | UnknownReceiverIndex
  | Replay
  | Expired
  | NoPendingHandshake
  | InvalidCookie
  | HandshakeRateLimited
  | EntropyFailure
  | InvalidPublicKey
  | Internal

type_synonym 'a result = "error + 'a"

fun error_fmt :: "error \<Rightarrow> string" where
  "error_fmt BufferTooSmall = ''output buffer too small''"
| "error_fmt NotEstablished = ''no established session yet''"
| "error_fmt InvalidPacket = ''not a structurally valid WireGuard message''"
| "error_fmt InvalidMac1 = ''handshake message has invalid mac1''"
| "error_fmt AuthFailure = ''authentication failed''"
| "error_fmt UnknownPeer = ''authenticated initiation from a different static key''"
| "error_fmt ReplayedTimestamp = ''handshake initiation timestamp not newer than last''"
| "error_fmt UnknownReceiverIndex = ''receiver index does not match any session''"
| "error_fmt Replay = ''transport counter outside replay window''"
| "error_fmt Expired = ''session exceeded reject-after limits''"
| "error_fmt NoPendingHandshake = ''no matching in-flight handshake''"
| "error_fmt InvalidCookie = ''cookie reply failed authentication''"
| "error_fmt HandshakeRateLimited = ''initiation rate limited to one per REKEY_TIMEOUT''"
| "error_fmt EntropyFailure = ''entropy source failed''"
| "error_fmt InvalidPublicKey = ''Diffie-Hellman result was the all-zero point''"
| "error_fmt Internal = ''internal invariant violated (bug in wireguard-sans-io)''"

text \<open>\<open>ok_or(e)\<close> and the \<open>?\<close> operator on results.\<close>

definition ok_or :: "error \<Rightarrow> 'a option \<Rightarrow> 'a result" where
  "ok_or e x = (case x of None \<Rightarrow> Inl e | Some v \<Rightarrow> Inr v)"

definition and_then :: "'a result \<Rightarrow> ('a \<Rightarrow> 'b result) \<Rightarrow> 'b result" where
  "and_then r f = (case r of Inl e \<Rightarrow> Inl e | Inr v \<Rightarrow> f v)"

lemma ok_or_simps [simp]: "ok_or e None = Inl e" "ok_or e (Some v) = Inr v"
  by (simp_all add: ok_or_def)

lemma and_then_simps [simp]: "and_then (Inl e) f = Inl e" "and_then (Inr v) f = f v"
  by (simp_all add: and_then_def)

lemma and_then_eq_Inr: "and_then r f = Inr y \<longleftrightarrow> (\<exists>v. r = Inr v \<and> f v = Inr y)"
  by (cases r) auto

lemma and_then_eq_Inl: "and_then r f = Inl e \<longleftrightarrow> r = Inl e \<or> (\<exists>v. r = Inr v \<and> f v = Inl e)"
  by (cases r) auto

end
