(* ===== verification/Wg_Consts.thy ===== *)
theory Wg_Consts
  imports Prelude
begin

text \<open>
  \<open>src/src/consts.rs\<close>: the protocol constants. Durations are nanoseconds, counters
  and durations are \<open>u64\<close>, wire lengths are \<open>usize\<close>.
\<close>

named_theorems const_defs \<open>unfolding of the protocol constants\<close>

definition ascii :: "string \<Rightarrow> bytes" where
  "ascii s = map of_char s"

definition CONSTRUCTION :: bytes where
  "CONSTRUCTION = ascii ''Noise_IKpsk2_25519_ChaChaPoly_BLAKE2s''"
definition IDENTIFIER :: bytes where
  "IDENTIFIER = ascii ''WireGuard v1 zx2c4 Jason@zx2c4.com''"
definition LABEL_MAC1 :: bytes where
  "LABEL_MAC1 = ascii ''mac1----''"
definition LABEL_COOKIE :: bytes where
  "LABEL_COOKIE = ascii ''cookie--''"

definition REKEY_AFTER_MESSAGES :: u64 where [const_defs]:
  "REKEY_AFTER_MESSAGES = push_bit 60 1"
definition REJECT_AFTER_MESSAGES :: u64 where [const_defs]:
  "REJECT_AFTER_MESSAGES = - 1 - push_bit 13 1"
definition SECOND :: u64 where [const_defs]:
  "SECOND = 1000000000"
definition REKEY_AFTER_TIME :: u64 where [const_defs]:
  "REKEY_AFTER_TIME = 120 * SECOND"
definition REJECT_AFTER_TIME :: u64 where [const_defs]:
  "REJECT_AFTER_TIME = 180 * SECOND"
definition REKEY_ATTEMPT_TIME :: u64 where [const_defs]:
  "REKEY_ATTEMPT_TIME = 90 * SECOND"
definition REKEY_TIMEOUT :: u64 where [const_defs]:
  "REKEY_TIMEOUT = 5 * SECOND"
definition KEEPALIVE_TIMEOUT :: u64 where [const_defs]:
  "KEEPALIVE_TIMEOUT = 10 * SECOND"
definition REKEY_TIMEOUT_JITTER_MAX :: u64 where [const_defs]:
  "REKEY_TIMEOUT_JITTER_MAX = 333000000"
definition COOKIE_LIFETIME :: u64 where [const_defs]:
  "COOKIE_LIFETIME = 120 * SECOND"
definition SESSION_DISCARD_TIME :: u64 where [const_defs]:
  "SESSION_DISCARD_TIME = REJECT_AFTER_TIME * 3"
definition REKEY_AFTER_TIME_RECV :: u64 where [const_defs]:
  "REKEY_AFTER_TIME_RECV = REJECT_AFTER_TIME - KEEPALIVE_TIMEOUT - REKEY_TIMEOUT"
definition DEAD_PEER_TIMEOUT :: u64 where [const_defs]:
  "DEAD_PEER_TIMEOUT = KEEPALIVE_TIMEOUT + REKEY_TIMEOUT"

definition HANDSHAKE_INITIATION_LEN :: nat where [const_defs]:
  "HANDSHAKE_INITIATION_LEN = 148"
definition HANDSHAKE_RESPONSE_LEN :: nat where [const_defs]:
  "HANDSHAKE_RESPONSE_LEN = 92"
definition COOKIE_REPLY_LEN :: nat where [const_defs]:
  "COOKIE_REPLY_LEN = 64"
definition TRANSPORT_OVERHEAD :: nat where [const_defs]:
  "TRANSPORT_OVERHEAD = 32"
definition KEEPALIVE_LEN :: nat where [const_defs]:
  "KEEPALIVE_LEN = TRANSPORT_OVERHEAD"
definition PADDING_MULTIPLE :: nat where [const_defs]:
  "PADDING_MULTIPLE = 16"

end
