(* ===== verification/Message.thy ===== *)
theory Message
  imports Wg_Error Wg_Consts
begin

text \<open>
  \<open>src/src/message.rs\<close>: the wire formats of the four messages, strict parsing, building,
  the mac slots, and the length of an inner IP packet.
\<close>

definition TYPE_HANDSHAKE_INITIATION :: u8 where [const_defs]: "TYPE_HANDSHAKE_INITIATION = 1"
definition TYPE_HANDSHAKE_RESPONSE :: u8 where [const_defs]: "TYPE_HANDSHAKE_RESPONSE = 2"
definition TYPE_COOKIE_REPLY :: u8 where [const_defs]: "TYPE_COOKIE_REPLY = 3"
definition TYPE_TRANSPORT_DATA :: u8 where [const_defs]: "TYPE_TRANSPORT_DATA = 4"
definition INIT_ALPHA_LEN :: nat where [const_defs]: "INIT_ALPHA_LEN = HANDSHAKE_INITIATION_LEN - 32"
definition RESP_ALPHA_LEN :: nat where [const_defs]: "RESP_ALPHA_LEN = HANDSHAKE_RESPONSE_LEN - 32"

record handshake_initiation =
  hi_sender_index :: u32
  hi_ephemeral :: bytes
  hi_encrypted_static :: bytes
  hi_encrypted_timestamp :: bytes
  hi_mac1 :: bytes
  hi_mac2 :: bytes
  hi_alpha :: bytes
  hi_beta :: bytes

record handshake_response =
  hr_sender_index :: u32
  hr_receiver_index :: u32
  hr_ephemeral :: bytes
  hr_encrypted_nothing :: bytes
  hr_mac1 :: bytes
  hr_mac2 :: bytes
  hr_alpha :: bytes
  hr_beta :: bytes

record cookie_reply =
  cr_receiver_index :: u32
  cr_nonce :: bytes
  cr_encrypted_cookie :: bytes

record transport_data =
  td_receiver_index :: u32
  td_counter :: u64
  td_ciphertext :: bytes

datatype packet =
    HandshakeInitiation handshake_initiation
  | HandshakeResponse handshake_response
  | CookieReply cookie_reply
  | TransportData transport_data

definition take_chunk :: "nat \<Rightarrow> bytes \<Rightarrow> (bytes \<times> bytes) result" where
  "take_chunk n bs = ok_or InvalidPacket (split_at_checked n bs)"

definition le_u32 :: "bytes \<Rightarrow> u32" where
  "le_u32 bs = from_le bs"

definition parse_initiation :: "bytes \<Rightarrow> packet result" where
  "parse_initiation datagram =
     (if length datagram \<noteq> HANDSHAKE_INITIATION_LEN then Inl InvalidPacket
      else and_then (ok_or InvalidPacket (get_to INIT_ALPHA_LEN datagram)) (\<lambda>alpha.
           and_then (ok_or InvalidPacket (get_to (INIT_ALPHA_LEN + 16) datagram)) (\<lambda>beta.
           and_then (ok_or InvalidPacket (get_from 4 datagram)) (\<lambda>rest.
           and_then (take_chunk 4 rest) (\<lambda>(sender, rest).
           and_then (take_chunk 32 rest) (\<lambda>(ephemeral, rest).
           and_then (take_chunk 48 rest) (\<lambda>(encrypted_static, rest).
           and_then (take_chunk 28 rest) (\<lambda>(encrypted_timestamp, rest).
           and_then (take_chunk 16 rest) (\<lambda>(mac1, rest).
           and_then (take_chunk 16 rest) (\<lambda>(mac2, rest).
             if rest \<noteq> [] then Inl Internal
             else Inr (HandshakeInitiation
               \<lparr> hi_sender_index = le_u32 sender, hi_ephemeral = ephemeral,
                 hi_encrypted_static = encrypted_static,
                 hi_encrypted_timestamp = encrypted_timestamp,
                 hi_mac1 = mac1, hi_mac2 = mac2, hi_alpha = alpha, hi_beta = beta \<rparr>)))))))))))"

definition parse_response :: "bytes \<Rightarrow> packet result" where
  "parse_response datagram =
     (if length datagram \<noteq> HANDSHAKE_RESPONSE_LEN then Inl InvalidPacket
      else and_then (ok_or InvalidPacket (get_to RESP_ALPHA_LEN datagram)) (\<lambda>alpha.
           and_then (ok_or InvalidPacket (get_to (RESP_ALPHA_LEN + 16) datagram)) (\<lambda>beta.
           and_then (ok_or InvalidPacket (get_from 4 datagram)) (\<lambda>rest.
           and_then (take_chunk 4 rest) (\<lambda>(sender, rest).
           and_then (take_chunk 4 rest) (\<lambda>(receiver, rest).
           and_then (take_chunk 32 rest) (\<lambda>(ephemeral, rest).
           and_then (take_chunk 16 rest) (\<lambda>(encrypted_nothing, rest).
           and_then (take_chunk 16 rest) (\<lambda>(mac1, rest).
           and_then (take_chunk 16 rest) (\<lambda>(mac2, rest).
             if rest \<noteq> [] then Inl Internal
             else Inr (HandshakeResponse
               \<lparr> hr_sender_index = le_u32 sender, hr_receiver_index = le_u32 receiver,
                 hr_ephemeral = ephemeral, hr_encrypted_nothing = encrypted_nothing,
                 hr_mac1 = mac1, hr_mac2 = mac2, hr_alpha = alpha, hr_beta = beta \<rparr>)))))))))))"

definition parse_cookie_reply :: "bytes \<Rightarrow> packet result" where
  "parse_cookie_reply datagram =
     (if length datagram \<noteq> COOKIE_REPLY_LEN then Inl InvalidPacket
      else and_then (ok_or InvalidPacket (get_from 4 datagram)) (\<lambda>rest.
           and_then (take_chunk 4 rest) (\<lambda>(receiver, rest).
           and_then (take_chunk 24 rest) (\<lambda>(nonce, rest).
           and_then (take_chunk 32 rest) (\<lambda>(encrypted_cookie, rest).
             if rest \<noteq> [] then Inl Internal
             else Inr (CookieReply
               \<lparr> cr_receiver_index = le_u32 receiver, cr_nonce = nonce,
                 cr_encrypted_cookie = encrypted_cookie \<rparr>))))))"

definition parse_transport :: "bytes \<Rightarrow> packet result" where
  "parse_transport datagram =
     (if length datagram < TRANSPORT_OVERHEAD then Inl InvalidPacket
      else and_then (ok_or InvalidPacket (get_from 4 datagram)) (\<lambda>rest.
           and_then (take_chunk 4 rest) (\<lambda>(receiver, rest).
           and_then (take_chunk 8 rest) (\<lambda>(counter, ciphertext).
             Inr (TransportData
               \<lparr> td_receiver_index = le_u32 receiver, td_counter = from_le counter,
                 td_ciphertext = ciphertext \<rparr>)))))"

definition parse :: "bytes \<Rightarrow> packet result" where
  "parse datagram =
     and_then (take_chunk 4 datagram) (\<lambda>(type_word, _).
       let t = le_u32 type_word
       in if t = ucast TYPE_HANDSHAKE_INITIATION then parse_initiation datagram
          else if t = ucast TYPE_HANDSHAKE_RESPONSE then parse_response datagram
          else if t = ucast TYPE_COOKIE_REPLY then parse_cookie_reply datagram
          else if t = ucast TYPE_TRANSPORT_DATA then parse_transport datagram
          else Inl InvalidPacket)"

datatype packet_kind =
    KindInitiation u32
  | KindResponse u32 u32
  | KindCookieReply u32
  | KindTransport u32 u64

definition peek :: "bytes \<Rightarrow> packet_kind result" where
  "peek datagram =
     and_then (parse datagram) (\<lambda>p. Inr (case p of
         HandshakeInitiation m \<Rightarrow> KindInitiation (hi_sender_index m)
       | HandshakeResponse m \<Rightarrow> KindResponse (hr_sender_index m) (hr_receiver_index m)
       | CookieReply m \<Rightarrow> KindCookieReply (cr_receiver_index m)
       | TransportData m \<Rightarrow> KindTransport (td_receiver_index m) (td_counter m)))"

text \<open>Writing fixed-size fields one after the other into a slice
  (\<open>split_first_chunk_mut\<close> and assignment).\<close>

fun write_fields :: "bytes list \<Rightarrow> bytes \<Rightarrow> bytes result" where
  "write_fields [] rest = Inr rest"
| "write_fields (f # fs) rest =
     and_then (ok_or Internal (get_from (length f) rest)) (\<lambda>rest'.
     and_then (write_fields fs rest') (\<lambda>tail. Inr (f @ tail)))"

definition write_header :: "bytes \<Rightarrow> u8 \<Rightarrow> bytes result" where
  "write_header out msg_type = write_fields [ [msg_type, 0, 0, 0] ] out"

text \<open>The message builders: take the message-sized prefix of \<open>out\<close>, zero it, write the header
  and the fields. The result carries the buffer as the builder leaves it.\<close>

definition build_message :: "nat \<Rightarrow> u8 \<Rightarrow> bytes list \<Rightarrow> bytes \<Rightarrow> unit result \<times> bytes" where
  "build_message len msg_type flds out =
     (case get_to len out of
        None \<Rightarrow> (Inl BufferTooSmall, out)
      | Some msg \<Rightarrow>
        let msg = replicate (length msg) 0
        in (case and_then (write_header msg msg_type) (\<lambda>msg.
                 and_then (ok_or Internal (get_from 4 msg)) (\<lambda>rest.
                 and_then (write_fields flds rest) (\<lambda>tail. Inr (take 4 msg @ tail)))) of
              Inl e \<Rightarrow> (Inl e, put 0 msg out)
            | Inr msg \<Rightarrow> (Inr (), put 0 msg out)))"

definition build_initiation :: "bytes \<Rightarrow> u32 \<Rightarrow> bytes \<Rightarrow> bytes \<Rightarrow> bytes \<Rightarrow> unit result \<times> bytes" where
  "build_initiation out sender_index ephemeral encrypted_static encrypted_timestamp =
     build_message HANDSHAKE_INITIATION_LEN TYPE_HANDSHAKE_INITIATION
       [le_bytes 4 sender_index, ephemeral, encrypted_static, encrypted_timestamp] out"

definition build_response :: "bytes \<Rightarrow> u32 \<Rightarrow> u32 \<Rightarrow> bytes \<Rightarrow> bytes \<Rightarrow> unit result \<times> bytes" where
  "build_response out sender_index receiver_index ephemeral encrypted_nothing =
     build_message HANDSHAKE_RESPONSE_LEN TYPE_HANDSHAKE_RESPONSE
       [le_bytes 4 sender_index, le_bytes 4 receiver_index, ephemeral, encrypted_nothing] out"

definition build_cookie_message :: "bytes \<Rightarrow> u32 \<Rightarrow> bytes \<Rightarrow> bytes \<Rightarrow> unit result \<times> bytes" where
  "build_cookie_message out receiver_index nonce encrypted_cookie =
     build_message COOKIE_REPLY_LEN TYPE_COOKIE_REPLY
       [le_bytes 4 receiver_index, nonce, encrypted_cookie] out"

definition write_transport_header :: "bytes \<Rightarrow> u32 \<Rightarrow> u64 \<Rightarrow> unit result \<times> bytes" where
  "write_transport_header out receiver_index counter =
     (if length out < TRANSPORT_OVERHEAD then (Inl BufferTooSmall, out)
      else case and_then (write_header out TYPE_TRANSPORT_DATA) (\<lambda>msg.
                and_then (ok_or Internal (get_from 4 msg)) (\<lambda>rest.
                and_then (write_fields [le_bytes 4 receiver_index, le_bytes 8 counter] rest) (\<lambda>tail.
                  Inr (take 4 msg @ tail)))) of
             Inl e \<Rightarrow> (Inl e, out)
           | Inr msg \<Rightarrow> (Inr (), msg))"

text \<open>\<open>mac_slots\<close>: the message without its macs, and the two mac fields.\<close>

definition mac_slots :: "bytes \<Rightarrow> (bytes \<times> bytes \<times> bytes) result" where
  "mac_slots msg =
     (let len = length msg
      in if len \<noteq> HANDSHAKE_INITIATION_LEN \<and> len \<noteq> HANDSHAKE_RESPONSE_LEN then Inl InvalidPacket
         else and_then (ok_or Internal (checked_sub_usize len 16)) (\<lambda>beta_len.
              and_then (ok_or Internal (checked_sub_usize len 32)) (\<lambda>alpha_len.
              and_then (ok_or Internal (split_at_checked beta_len msg)) (\<lambda>(body, mac2).
              and_then (ok_or Internal (split_at_checked alpha_len body)) (\<lambda>(alpha, mac1).
                if length mac1 \<noteq> 16 then Inl Internal
                else if length mac2 \<noteq> 16 then Inl Internal
                else Inr (alpha, mac1, mac2))))))"

definition ip_packet_len :: "bytes \<Rightarrow> nat option" where
  "ip_packet_len payload =
     (case payload of
        [] \<Rightarrow> None
      | b # _ \<Rightarrow>
        let claimed =
          (if drop_bit 4 b = 4 then
             let ihl_bytes = unat (b AND 0x0f) * 4
             in (case get_from 2 payload of
                   None \<Rightarrow> None
                 | Some rest \<Rightarrow>
                   (case get_to 2 rest of
                      None \<Rightarrow> None
                    | Some len_bytes \<Rightarrow>
                      let tot = unat (from_be len_bytes :: u16)
                      in if ihl_bytes \<ge> 20 \<and> tot \<ge> ihl_bytes then Some tot else None))
           else if drop_bit 4 b = 6 then
             (case get_to 40 payload of
                None \<Rightarrow> None
              | Some header \<Rightarrow>
                (case get_from 4 header of
                   None \<Rightarrow> None
                 | Some rest \<Rightarrow>
                   (case get_to 2 rest of
                      None \<Rightarrow> None
                    | Some len_bytes \<Rightarrow>
                      checked_add_usize (unat (from_be len_bytes :: u16)) 40)))
           else None)
        in (case claimed of
              None \<Rightarrow> None
            | Some n \<Rightarrow> if n \<le> length payload then Some n else None))"

subsection \<open>The wire format as a specification\<close>

text \<open>The bytes a packet stands for, and the shape a parsed packet has.\<close>

fun packet_bytes :: "packet \<Rightarrow> bytes" where
  "packet_bytes (HandshakeInitiation m) =
     [1, 0, 0, 0] @ le_bytes 4 (hi_sender_index m) @ hi_ephemeral m @ hi_encrypted_static m
       @ hi_encrypted_timestamp m @ hi_mac1 m @ hi_mac2 m"
| "packet_bytes (HandshakeResponse m) =
     [2, 0, 0, 0] @ le_bytes 4 (hr_sender_index m) @ le_bytes 4 (hr_receiver_index m)
       @ hr_ephemeral m @ hr_encrypted_nothing m @ hr_mac1 m @ hr_mac2 m"
| "packet_bytes (CookieReply m) =
     [3, 0, 0, 0] @ le_bytes 4 (cr_receiver_index m) @ cr_nonce m @ cr_encrypted_cookie m"
| "packet_bytes (TransportData m) =
     [4, 0, 0, 0] @ le_bytes 4 (td_receiver_index m) @ le_bytes 8 (td_counter m) @ td_ciphertext m"

fun packet_wf :: "packet \<Rightarrow> bool" where
  "packet_wf (HandshakeInitiation m) \<longleftrightarrow>
     length (hi_ephemeral m) = 32 \<and> length (hi_encrypted_static m) = 48
     \<and> length (hi_encrypted_timestamp m) = 28 \<and> length (hi_mac1 m) = 16 \<and> length (hi_mac2 m) = 16
     \<and> hi_alpha m = take 116 (packet_bytes (HandshakeInitiation m))
     \<and> hi_beta m = hi_alpha m @ hi_mac1 m"
| "packet_wf (HandshakeResponse m) \<longleftrightarrow>
     length (hr_ephemeral m) = 32 \<and> length (hr_encrypted_nothing m) = 16
     \<and> length (hr_mac1 m) = 16 \<and> length (hr_mac2 m) = 16
     \<and> hr_alpha m = take 60 (packet_bytes (HandshakeResponse m))
     \<and> hr_beta m = hr_alpha m @ hr_mac1 m"
| "packet_wf (CookieReply m) \<longleftrightarrow> length (cr_nonce m) = 24 \<and> length (cr_encrypted_cookie m) = 32"
| "packet_wf (TransportData m) \<longleftrightarrow> 16 \<le> length (td_ciphertext m)"

lemma take_chunk_eq: "take_chunk n bs = (if n \<le> length bs then Inr (take n bs, drop n bs) else Inl InvalidPacket)"
  by (simp add: take_chunk_def split_at_checked_def)

lemma take_chunk_append [simp]: "length xs = n \<Longrightarrow> take_chunk n (xs @ ys) = Inr (xs, ys)"
  by (simp add: take_chunk_eq)

lemma take_chunk_all [simp]: "length xs = n \<Longrightarrow> take_chunk n xs = Inr (xs, [])"
  by (simp add: take_chunk_eq)

lemma from_le_eq_iff: "length bs = 4 \<Longrightarrow> from_le bs = (w :: u32) \<longleftrightarrow> bs = le_bytes 4 w"
  using le_bytes_from_le [of bs 4, where 'a = 32] by auto

lemma le_u32_le_bytes [simp]: "le_u32 (le_bytes 4 w) = w"
  by (simp add: le_u32_def)

text \<open>A byte string of the right length is the concatenation of fields of given sizes.\<close>

lemma split_sizes: "sum_list ns = length xs \<Longrightarrow> \<exists>yss. concat yss = xs \<and> map length yss = ns"
proof (induction ns arbitrary: xs)
  case (Cons n ns)
  then have "sum_list ns = length (drop n xs)" by simp
  then obtain yss where "concat yss = drop n xs" "map length yss = ns"
    using Cons.IH by blast
  with Cons.prems show ?case by (intro exI [of _ "take n xs # yss"]) auto
qed simp

lemma parse_initiation_bytes:
  assumes "packet_wf (HandshakeInitiation m)"
  shows "parse_initiation (packet_bytes (HandshakeInitiation m)) = Inr (HandshakeInitiation m)"
  using assms
  by (auto simp: parse_initiation_def const_defs get_to_def get_from_def)

lemma parse_response_bytes:
  assumes "packet_wf (HandshakeResponse m)"
  shows "parse_response (packet_bytes (HandshakeResponse m)) = Inr (HandshakeResponse m)"
  using assms
  by (auto simp: parse_response_def const_defs get_to_def get_from_def)

lemma parse_cookie_reply_bytes:
  assumes "packet_wf (CookieReply m)"
  shows "parse_cookie_reply (packet_bytes (CookieReply m)) = Inr (CookieReply m)"
  using assms
  by (auto simp: parse_cookie_reply_def const_defs get_from_def)

lemma parse_transport_bytes:
  assumes "packet_wf (TransportData m)"
  shows "parse_transport (packet_bytes (TransportData m)) = Inr (TransportData m)"
  using assms
  by (auto simp: parse_transport_def const_defs get_from_def)

lemma initiation_fields:
  assumes "length d = 148" and "take 4 d = [1, 0, 0, 0]"
  shows "\<exists>m. d = packet_bytes (HandshakeInitiation m) \<and> packet_wf (HandshakeInitiation m)"
proof -
  obtain t s e st ts m1 m2 where d: "d = t @ s @ e @ st @ ts @ m1 @ m2"
    and l: "length t = 4" "length s = 4" "length e = 32" "length st = 48" "length ts = 28"
      "length m1 = 16" "length m2 = 16"
    using split_sizes [of "[4, 4, 32, 48, 28, 16, 16]" d] assms(1) by auto
  let ?m = "\<lparr> hi_sender_index = from_le s, hi_ephemeral = e, hi_encrypted_static = st,
    hi_encrypted_timestamp = ts, hi_mac1 = m1, hi_mac2 = m2,
    hi_alpha = t @ s @ e @ st @ ts, hi_beta = t @ s @ e @ st @ ts @ m1 \<rparr>"
  have "le_bytes 4 (from_le s :: u32) = s" using l by (simp add: le_bytes_from_le)
  with assms(2) d l show ?thesis by (intro exI [of _ ?m]) auto
qed

lemma response_fields:
  assumes "length d = 92" and "take 4 d = [2, 0, 0, 0]"
  shows "\<exists>m. d = packet_bytes (HandshakeResponse m) \<and> packet_wf (HandshakeResponse m)"
proof -
  obtain t s r e n m1 m2 where d: "d = t @ s @ r @ e @ n @ m1 @ m2"
    and l: "length t = 4" "length s = 4" "length r = 4" "length e = 32" "length n = 16"
      "length m1 = 16" "length m2 = 16"
    using split_sizes [of "[4, 4, 4, 32, 16, 16, 16]" d] assms(1) by auto
  let ?m = "\<lparr> hr_sender_index = from_le s, hr_receiver_index = from_le r, hr_ephemeral = e,
    hr_encrypted_nothing = n, hr_mac1 = m1, hr_mac2 = m2,
    hr_alpha = t @ s @ r @ e @ n, hr_beta = t @ s @ r @ e @ n @ m1 \<rparr>"
  have "le_bytes 4 (from_le s :: u32) = s" "le_bytes 4 (from_le r :: u32) = r"
    using l by (simp_all add: le_bytes_from_le)
  with assms(2) d l show ?thesis by (intro exI [of _ ?m]) auto
qed

lemma cookie_fields:
  assumes "length d = 64" and "take 4 d = [3, 0, 0, 0]"
  shows "\<exists>m. d = packet_bytes (CookieReply m) \<and> packet_wf (CookieReply m)"
proof -
  obtain t r n c where d: "d = t @ r @ n @ c"
    and l: "length t = 4" "length r = 4" "length n = 24" "length c = 32"
    using split_sizes [of "[4, 4, 24, 32]" d] assms(1) by auto
  let ?m = "\<lparr> cr_receiver_index = from_le r, cr_nonce = n, cr_encrypted_cookie = c \<rparr>"
  have "le_bytes 4 (from_le r :: u32) = r" using l by (simp add: le_bytes_from_le)
  with assms(2) d l show ?thesis by (intro exI [of _ ?m]) auto
qed

lemma transport_fields:
  assumes "32 \<le> length d" and "take 4 d = [4, 0, 0, 0]"
  shows "\<exists>m. d = packet_bytes (TransportData m) \<and> packet_wf (TransportData m)"
proof -
  obtain k where k: "length d = k + 16" "16 \<le> k" using assms(1) by (intro that [of "length d - 16"]) auto
  obtain t r n c where d: "d = t @ r @ n @ c"
    and l: "length t = 4" "length r = 4" "length n = 8" "length c = k"
    using split_sizes [of "[4, 4, 8, k]" d] k(1) by auto
  let ?m = "\<lparr> td_receiver_index = from_le r, td_counter = from_le n, td_ciphertext = c \<rparr>"
  have "le_bytes 4 (from_le r :: u32) = r" "le_bytes 8 (from_le n :: u64) = n"
    using l by (simp_all add: le_bytes_from_le)
  with assms(2) d l k(2) show ?thesis by (intro exI [of _ ?m]) auto
qed


lemma type_words:
  "le_bytes 4 (1 :: u32) = [1, 0, 0, 0]" "le_bytes 4 (2 :: u32) = [2, 0, 0, 0]"
  "le_bytes 4 (3 :: u32) = [3, 0, 0, 0]" "le_bytes 4 (4 :: u32) = [4, 0, 0, 0]"
  by code_simp+

lemma type_word_iff:
  assumes "length t = 4"
  shows "le_u32 t = ucast TYPE_HANDSHAKE_INITIATION \<longleftrightarrow> t = [1, 0, 0, 0]"
    and "le_u32 t = ucast TYPE_HANDSHAKE_RESPONSE \<longleftrightarrow> t = [2, 0, 0, 0]"
    and "le_u32 t = ucast TYPE_COOKIE_REPLY \<longleftrightarrow> t = [3, 0, 0, 0]"
    and "le_u32 t = ucast TYPE_TRANSPORT_DATA \<longleftrightarrow> t = [4, 0, 0, 0]"
  using assms by (simp_all add: le_u32_def from_le_eq_iff const_defs type_words)

lemma parse_eq:
  "parse d =
     (if length d < 4 then Inl InvalidPacket
      else if take 4 d = [1, 0, 0, 0] then parse_initiation d
      else if take 4 d = [2, 0, 0, 0] then parse_response d
      else if take 4 d = [3, 0, 0, 0] then parse_cookie_reply d
      else if take 4 d = [4, 0, 0, 0] then parse_transport d
      else Inl InvalidPacket)"
  using type_word_iff [of "take 4 d"] by (simp add: parse_def take_chunk_eq Let_def)

lemma parse_packet_bytes: "packet_wf p \<Longrightarrow> parse (packet_bytes p) = Inr p"
proof (cases p)
  case (HandshakeInitiation m)
  then show "packet_wf p \<Longrightarrow> ?thesis"
    using parse_initiation_bytes [of m] by (simp add: parse_eq del: packet_wf.simps)
next
  case (HandshakeResponse m)
  then show "packet_wf p \<Longrightarrow> ?thesis"
    using parse_response_bytes [of m] by (simp add: parse_eq del: packet_wf.simps)
next
  case (CookieReply m)
  then show "packet_wf p \<Longrightarrow> ?thesis"
    using parse_cookie_reply_bytes [of m] by (simp add: parse_eq del: packet_wf.simps)
next
  case (TransportData m)
  then show "packet_wf p \<Longrightarrow> ?thesis"
    using parse_transport_bytes [of m] by (simp add: parse_eq del: packet_wf.simps)
qed

text \<open>Every datagram is either a packet or \<open>InvalidPacket\<close>; the code's \<open>Internal\<close> branches are dead.\<close>

lemma parse_total: "parse d = Inl InvalidPacket \<or> (\<exists>p. packet_wf p \<and> d = packet_bytes p)"
proof -
  have i: "parse_initiation d = Inl InvalidPacket" if "length d \<noteq> 148"
    using that by (simp add: parse_initiation_def const_defs)
  have r: "parse_response d = Inl InvalidPacket" if "length d \<noteq> 92"
    using that by (simp add: parse_response_def const_defs)
  have c: "parse_cookie_reply d = Inl InvalidPacket" if "length d \<noteq> 64"
    using that by (simp add: parse_cookie_reply_def const_defs)
  have t: "parse_transport d = Inl InvalidPacket" if "\<not> 32 \<le> length d"
    using that by (simp add: parse_transport_def const_defs)
  consider "take 4 d = [1, 0, 0, 0]" | "take 4 d = [2, 0, 0, 0]" | "take 4 d = [3, 0, 0, 0]"
    | "take 4 d = [4, 0, 0, 0]" | "parse d = Inl InvalidPacket"
    unfolding parse_eq by presburger
  then show ?thesis
  proof cases
    case 1
    then show ?thesis using initiation_fields [of d] i
      by (cases "length d = 148") (auto simp: parse_eq simp del: packet_wf.simps packet_bytes.simps)
  next
    case 2
    then show ?thesis using response_fields [of d] r
      by (cases "length d = 92") (auto simp: parse_eq simp del: packet_wf.simps packet_bytes.simps)
  next
    case 3
    then show ?thesis using cookie_fields [of d] c
      by (cases "length d = 64") (auto simp: parse_eq simp del: packet_wf.simps packet_bytes.simps)
  next
    case 4
    then show ?thesis using transport_fields [of d] t
      by (cases "32 \<le> length d") (auto simp: parse_eq simp del: packet_wf.simps packet_bytes.simps)
  qed simp
qed

lemma parse_iff: "parse d = Inr p \<longleftrightarrow> packet_wf p \<and> d = packet_bytes p"
  using parse_total [of d] parse_packet_bytes by auto

lemma parse_error: "parse d = Inl e \<Longrightarrow> e = InvalidPacket"
  using parse_total [of d] parse_packet_bytes by auto

subsection \<open>Builders\<close>

lemma write_fields_eq:
  "length (concat fs) \<le> length rest \<Longrightarrow>
     write_fields fs rest = Inr (concat fs @ drop (length (concat fs)) rest)"
  by (induction fs arbitrary: rest) (auto simp: get_from_def add.commute)

lemma build_message_eq:
  assumes "4 + length (concat fs) \<le> len"
  shows "build_message len ty fs out =
    (if length out < len then (Inl BufferTooSmall, out)
     else (Inr (), [ty, 0, 0, 0] @ concat fs @ replicate (len - 4 - length (concat fs)) 0 @ drop len out))"
proof -
  have "Suc (Suc (Suc (Suc (len - 4)))) = len"
    "len - Suc (Suc (Suc (Suc (length (concat fs))))) = len - 4 - length (concat fs)"
    using assms by auto
  then show ?thesis
    using assms
    by (simp add: build_message_def get_to_def get_from_def write_header_def write_fields_eq put_def)
qed

lemma build_initiation_eq:
  assumes "length e = 32" "length st = 48" "length ts = 28"
  shows "build_initiation out si e st ts =
    (if length out < 148 then (Inl BufferTooSmall, out)
     else (Inr (), ([1, 0, 0, 0] @ le_bytes 4 si @ e @ st @ ts) @ replicate 32 0 @ drop 148 out))"
  using assms by (simp add: build_initiation_def build_message_eq const_defs)

lemma build_response_eq:
  assumes "length e = 32" "length n = 16"
  shows "build_response out si ri e n =
    (if length out < 92 then (Inl BufferTooSmall, out)
     else (Inr (), ([2, 0, 0, 0] @ le_bytes 4 si @ le_bytes 4 ri @ e @ n) @ replicate 32 0 @ drop 92 out))"
  using assms by (simp add: build_response_def build_message_eq const_defs)

lemma build_cookie_message_eq:
  assumes "length n = 24" "length c = 32"
  shows "build_cookie_message out ri n c =
    (if length out < 64 then (Inl BufferTooSmall, out)
     else (Inr (), ([3, 0, 0, 0] @ le_bytes 4 ri @ n @ c) @ drop 64 out))"
  using assms by (simp add: build_cookie_message_def build_message_eq const_defs)

lemma write_transport_header_eq:
  "write_transport_header out ri c =
    (if length out < 32 then (Inl BufferTooSmall, out)
     else (Inr (), [4, 0, 0, 0] @ le_bytes 4 ri @ le_bytes 8 c @ drop 16 out))"
  by (auto simp: write_transport_header_def const_defs write_header_def write_fields_eq get_from_def)

lemma mac_slots_eq:
  "mac_slots msg =
    (if length msg = 148 \<or> length msg = 92
     then Inr (take (length msg - 32) msg, take 16 (drop (length msg - 32) msg), drop (length msg - 16) msg)
     else Inl InvalidPacket)"
  by (auto simp: mac_slots_def const_defs checked_sub_usize_def split_at_checked_def Let_def drop_take)

lemma mac_slots_append:
  assumes "length a = 116 \<or> length a = 60" "length m1 = 16" "length m2 = 16"
  shows "mac_slots (a @ m1 @ m2) = Inr (a, m1, m2)"
  using assms by (auto simp: mac_slots_eq)

lemma replicate_32: "replicate 32 (0 :: u8) = replicate 16 0 @ replicate 16 0"
  by (simp add: replicate_add [symmetric])

lemma parse_built_initiation:
  assumes "length e = 32" "length st = 48" "length ts = 28"
    and "a = ([1, 0, 0, 0] @ le_bytes 4 si @ e @ st @ ts) @ replicate 32 0"
  shows "parse a = Inr (HandshakeInitiation \<lparr> hi_sender_index = si, hi_ephemeral = e,
         hi_encrypted_static = st, hi_encrypted_timestamp = ts, hi_mac1 = replicate 16 0,
         hi_mac2 = replicate 16 0, hi_alpha = take 116 a, hi_beta = take 132 a \<rparr>)"
  using assms unfolding parse_iff by (simp add: replicate_32)

lemma parse_built_response:
  assumes "length e = 32" "length n = 16"
    and "b = ([2, 0, 0, 0] @ le_bytes 4 si @ le_bytes 4 ri @ e @ n) @ replicate 32 0"
  shows "parse b = Inr (HandshakeResponse \<lparr> hr_sender_index = si, hr_receiver_index = ri,
         hr_ephemeral = e, hr_encrypted_nothing = n, hr_mac1 = replicate 16 0,
         hr_mac2 = replicate 16 0, hr_alpha = take 60 b, hr_beta = take 76 b \<rparr>)"
  using assms unfolding parse_iff by (simp add: replicate_32)

subsection \<open>Properties\<close>

text \<open>C25: parsing is strict, total and canonical. A datagram parses to a packet exactly when it is
  the wire encoding of that packet (with every field of its fixed size, the reserved bytes zero
  and, for the handshake messages, the mac inputs the right prefixes), and otherwise the result
  is \<open>InvalidPacket\<close>; the \<open>Internal\<close> branches of the parser are unreachable.\<close>

theorem parse_canonical:
  "(parse d = Inr p \<longleftrightarrow> packet_wf p \<and> d = packet_bytes p)
   \<and> ((\<exists>p. packet_wf p \<and> d = packet_bytes p) \<or> parse d = Inl InvalidPacket)"
  using parse_iff parse_total by blast

text \<open>C31: the handshake and cookie builders and the transport header writer produce messages that
  parse back to the fields they were given, with the mac fields zero, for every output buffer of
  sufficient size, and leave the bytes after the message alone.\<close>

theorem build_parse_round_trip:
  assumes "length e = 32" "length st = 48" "length ts = 28" "length n = 16" "length nonce = 24"
    "length ck = 32" "148 \<le> length out" "16 \<le> length ct"
  shows "\<exists>a b c h.
    build_initiation out si e st ts = (Inr (), a @ drop 148 out)
    \<and> parse a = Inr (HandshakeInitiation \<lparr> hi_sender_index = si, hi_ephemeral = e,
         hi_encrypted_static = st, hi_encrypted_timestamp = ts, hi_mac1 = replicate 16 0,
         hi_mac2 = replicate 16 0, hi_alpha = take 116 a, hi_beta = take 132 a \<rparr>)
    \<and> build_response out si ri e n = (Inr (), b @ drop 92 out)
    \<and> parse b = Inr (HandshakeResponse \<lparr> hr_sender_index = si, hr_receiver_index = ri,
         hr_ephemeral = e, hr_encrypted_nothing = n, hr_mac1 = replicate 16 0,
         hr_mac2 = replicate 16 0, hr_alpha = take 60 b, hr_beta = take 76 b \<rparr>)
    \<and> build_cookie_message out ri nonce ck = (Inr (), c @ drop 64 out)
    \<and> parse c = Inr (CookieReply \<lparr> cr_receiver_index = ri, cr_nonce = nonce, cr_encrypted_cookie = ck \<rparr>)
    \<and> write_transport_header out ri ctr = (Inr (), h @ drop 16 out)
    \<and> parse (h @ ct) = Inr (TransportData \<lparr> td_receiver_index = ri, td_counter = ctr, td_ciphertext = ct \<rparr>)"
proof -
  let ?a = "([1, 0, 0, 0] @ le_bytes 4 si @ e @ st @ ts) @ replicate 32 0"
  let ?b = "([2, 0, 0, 0] @ le_bytes 4 si @ le_bytes 4 ri @ e @ n) @ replicate 32 0"
  let ?c = "[3, 0, 0, 0] @ le_bytes 4 ri @ nonce @ ck"
  let ?h = "[4, 0, 0, 0] @ le_bytes 4 ri @ le_bytes 8 ctr"
  have "parse ?c = Inr (CookieReply \<lparr> cr_receiver_index = ri, cr_nonce = nonce, cr_encrypted_cookie = ck \<rparr>)"
    "parse (?h @ ct) = Inr (TransportData \<lparr> td_receiver_index = ri, td_counter = ctr, td_ciphertext = ct \<rparr>)"
    using assms unfolding parse_iff by simp_all
  moreover have "build_initiation out si e st ts = (Inr (), ?a @ drop 148 out)"
    "build_response out si ri e n = (Inr (), ?b @ drop 92 out)"
    "build_cookie_message out ri nonce ck = (Inr (), ?c @ drop 64 out)"
    "write_transport_header out ri ctr = (Inr (), ?h @ drop 16 out)"
    using assms
    by (simp_all add: build_initiation_eq build_response_eq build_cookie_message_eq write_transport_header_eq)
  ultimately show ?thesis
    using parse_built_initiation [OF assms(1-3) refl] parse_built_response [OF assms(1,4) refl] by blast
qed

theorem build_parse_round_trip_witness:
  "\<exists>c h. build_cookie_message (replicate 148 7) 5 (replicate 24 1) (replicate 32 2) = (Inr (), c @ replicate 84 7)
     \<and> parse c = Inr (CookieReply \<lparr> cr_receiver_index = 5, cr_nonce = replicate 24 1, cr_encrypted_cookie = replicate 32 2 \<rparr>)
     \<and> write_transport_header (replicate 148 7) 5 9 = (Inr (), h @ replicate 132 7)
     \<and> parse (h @ replicate 16 3) =
          Inr (TransportData \<lparr> td_receiver_index = 5, td_counter = 9, td_ciphertext = replicate 16 3 \<rparr>)"
proof -
  have "length (replicate 32 (0 :: u8)) = 32" "length (replicate 48 (0 :: u8)) = 48"
    "length (replicate 28 (0 :: u8)) = 28" "length (replicate 16 (0 :: u8)) = 16"
    "length (replicate 24 (1 :: u8)) = 24" "length (replicate 32 (2 :: u8)) = 32"
    "148 \<le> length (replicate 148 (7 :: u8))" "16 \<le> length (replicate 16 (3 :: u8))"
    by simp_all
  note build_parse_round_trip [OF this, of 0 5 9]
  then show ?thesis by simp blast
qed


text \<open>A packet whose IP header announces exactly its own length.\<close>

definition ip_self_sized :: "bytes \<Rightarrow> bool" where
  "ip_self_sized p \<longleftrightarrow>
     (case p of
        b # _ # x # y # u # v # _ \<Rightarrow>
          (drop_bit 4 b = 4 \<and> 20 \<le> unat (b AND 0x0f) * 4 \<and> unat (b AND 0x0f) * 4 \<le> length p
             \<and> unat (from_be [x, y] :: u16) = length p)
          \<or> (drop_bit 4 b = 6 \<and> 40 \<le> length p \<and> unat (from_be [u, v] :: u16) + 40 = length p)
      | _ \<Rightarrow> False)"

lemma ip_packet_len_bound: "ip_packet_len p = Some n \<Longrightarrow> n \<le> length p"
  by (simp add: ip_packet_len_def Let_def split: list.splits option.splits if_splits)

lemma ip_packet_len_pad:
  assumes "ip_self_sized p"
  shows "ip_packet_len (p @ pad) = Some (length p)"
proof -
  obtain b a x y u v r where p: "p = b # a # x # y # u # v # r"
    using assms by (auto simp: ip_self_sized_def split: list.splits)
  have small: "unat (from_be [u, v] :: u16) + 40 < 2 ^ 64"
    using unat_less_exp [of "from_be [u, v] :: u16"] by simp
  show ?thesis
    using assms small unfolding p
    by (auto simp: ip_self_sized_def ip_packet_len_def Let_def get_to_def get_from_def
        checked_add_usize_def usize_max_def)
qed

text \<open>C32: padding is undone. For a payload that is an IPv4 or IPv6 packet whose header announces
  its own length, the receiver's length recovery returns exactly that length whatever padding
  follows the packet; and on any payload at all, what it returns never exceeds the payload.\<close>

theorem padding_stripped:
  assumes "ip_self_sized p"
  shows "ip_packet_len (p @ pad) = Some (length p)
    \<and> (\<forall>q n. ip_packet_len q = Some n \<longrightarrow> n \<le> length q)"
  using assms ip_packet_len_pad ip_packet_len_bound by blast

theorem padding_stripped_witness:
  "ip_packet_len ((0x45 # 0 # 0 # 21 # replicate 17 0) @ replicate 11 0) = Some 21"
proof -
  have "ip_self_sized (0x45 # 0 # 0 # 21 # replicate 17 0)" by code_simp
  from padding_stripped [OF this, of "replicate 11 0"] show ?thesis by simp
qed

end
