(* ===== verification/Ct.thy ===== *)
theory Ct
  imports Prelude
begin

text \<open>
  \<open>src/src/crypto/ct.rs\<close>: comparison and zero test without early exit, and wiping.
  \<open>black_box\<close> is the identity; that the compiled code runs in constant time is outside
  the model.
\<close>

definition ct_eq :: "bytes \<Rightarrow> bytes \<Rightarrow> bool" where
  "ct_eq a b =
     (if length a \<noteq> length b then False
      else fold (\<lambda>(x, y) diff. diff OR (x XOR y)) (zip a b) 0 = 0)"

definition ct_is_zero :: "bytes \<Rightarrow> bool" where
  "ct_is_zero a = (fold (\<lambda>x acc. acc OR x) a 0 = 0)"

definition wipe :: "bytes \<Rightarrow> bytes" where
  "wipe bs = map (\<lambda>b. 0) bs"

lemma fold_or_eq_0: "fold (\<lambda>x acc. acc OR f x) xs a = 0 \<longleftrightarrow> a = 0 \<and> (\<forall>x\<in>set xs. f x = (0 :: u8))"
  by (induction xs arbitrary: a) (auto simp: or_eq_0_iff)

lemma ct_eq_iff [simp]: "ct_eq a b \<longleftrightarrow> a = b"
proof (cases "length a = length b")
  case True
  have "ct_eq a b \<longleftrightarrow> (\<forall>(x, y)\<in>set (zip a b). x XOR y = 0)"
    using True fold_or_eq_0 [of "\<lambda>(x, y). x XOR y" "zip a b" 0]
    by (simp add: ct_eq_def case_prod_unfold)
  also have "\<dots> \<longleftrightarrow> a = b"
    using True by (induction a b rule: list_induct2) (auto simp: xor_eq_0_iff)
  finally show ?thesis .
qed (auto simp: ct_eq_def)

lemma ct_is_zero_iff: "ct_is_zero a \<longleftrightarrow> a = replicate (length a) 0"
proof -
  have "ct_is_zero a \<longleftrightarrow> (\<forall>x\<in>set a. x = 0)"
    using fold_or_eq_0 [of "\<lambda>x. x" a 0] by (simp add: ct_is_zero_def)
  then show ?thesis by (metis in_set_replicate replicate_length_same)
qed

lemma wipe_zero: "wipe bs = replicate (length bs) 0"
  by (simp add: wipe_def map_replicate_const)

end
