(* ===== verification/ChaCha20.thy ===== *)
theory ChaCha20
  imports Prelude
begin

text \<open>
  \<open>src/src/crypto/chacha20.rs\<close>: the ChaCha20 block function, the keystream XOR,
  HChaCha20, and the \<open>ChaChaImpl\<close> seam with its scalar instance. The sixteen state
  words \<open>x0 \<dots> x15\<close> are the elements of a list; \<open>qr a b c d\<close> is the quarter round
  on the words with these indices.
\<close>

definition C0 :: u32 where "C0 = 0x61707865"
definition C1 :: u32 where "C1 = 0x3320646e"
definition C2 :: u32 where "C2 = 0x79622d32"
definition C3 :: u32 where "C3 = 0x6b206574"

text \<open>\<open>for (wi, chunk) in w.iter_mut().zip(bytes.chunks_exact(4))\<close> over \<open>n\<close> words.\<close>

definition load_words :: "nat \<Rightarrow> bytes \<Rightarrow> u32 list" where
  "load_words n bs = zip_copy (replicate n 0) (map from_le (chunks_exact 4 bs))"

definition key_words :: "bytes \<Rightarrow> u32 list" where
  "key_words key = load_words 8 key"

definition quarter_round :: "u32 \<Rightarrow> u32 \<Rightarrow> u32 \<Rightarrow> u32 \<Rightarrow> u32 \<times> u32 \<times> u32 \<times> u32" where
  "quarter_round a b c d =
     (let a = a + b; d = word_rotl 16 (d XOR a);
          c = c + d; b = word_rotl 12 (b XOR c);
          a = a + b; d = word_rotl 8 (d XOR a);
          c = c + d; b = word_rotl 7 (b XOR c)
      in (a, b, c, d))"

definition qr :: "nat \<Rightarrow> nat \<Rightarrow> nat \<Rightarrow> nat \<Rightarrow> u32 list \<Rightarrow> u32 list" where
  "qr a b c d x =
     (let (xa, xb, xc, xd) = quarter_round (x ! a) (x ! b) (x ! c) (x ! d)
      in x[a := xa, b := xb, c := xc, d := xd])"

definition double_round :: "u32 list \<Rightarrow> u32 list" where
  "double_round x =
     (let x = qr 0 4 8 12 x; x = qr 1 5 9 13 x; x = qr 2 6 10 14 x; x = qr 3 7 11 15 x;
          x = qr 0 5 10 15 x; x = qr 1 6 11 12 x; x = qr 2 7 8 13 x
      in qr 3 4 9 14 x)"

definition permute :: "u32 list \<Rightarrow> u32 list" where
  "permute state = (double_round ^^ 10) state"

definition chacha_state :: "bytes \<Rightarrow> u32 \<Rightarrow> bytes \<Rightarrow> u32 list" where
  "chacha_state key counter nonce =
     [C0, C1, C2, C3] @ key_words key @ [counter] @ load_words 3 nonce"

definition chacha_block :: "bytes \<Rightarrow> u32 \<Rightarrow> bytes \<Rightarrow> bytes" where
  "chacha_block key counter nonce =
     (let state = chacha_state key counter nonce; worked = permute state
      in concat (map2 (\<lambda>w s. le_bytes 4 (w + s)) worked state))"

definition xor_zip :: "bytes \<Rightarrow> bytes \<Rightarrow> bytes" where
  "xor_zip chunk ks = map2 (\<lambda>b k. b XOR k) chunk ks @ drop (length ks) chunk"

fun xor_loop :: "bytes \<Rightarrow> u32 \<Rightarrow> bytes \<Rightarrow> bytes list \<Rightarrow> bytes" where
  "xor_loop key ctr nonce [] = []"
| "xor_loop key ctr nonce (chunk # rest) =
     xor_zip chunk (chacha_block key ctr nonce) @ xor_loop key (ctr + 1) nonce rest"

definition xor_in_place :: "bytes \<Rightarrow> u32 \<Rightarrow> bytes \<Rightarrow> bytes \<Rightarrow> bytes" where
  "xor_in_place key counter nonce data = xor_loop key counter nonce (chunks 64 data)"

text \<open>A backend is its \<open>apply_keystream\<close> function.\<close>

type_synonym chacha_backend = "bytes \<Rightarrow> bytes \<Rightarrow> u32 \<Rightarrow> bytes \<Rightarrow> bytes"

definition scalar_apply_keystream :: chacha_backend where
  "scalar_apply_keystream key nonce counter buf = xor_in_place key counter nonce buf"

definition hchacha20 :: "bytes \<Rightarrow> bytes \<Rightarrow> bytes" where
  "hchacha20 key input =
     (let state = [C0, C1, C2, C3] @ key_words key @ load_words 4 input;
          worked = permute state
      in concat (map (le_bytes 4) (take 4 worked @ take 4 (drop 12 worked))))"

subsection \<open>Lengths\<close>

lemma length_load_words [simp]: "length (load_words n bs) = n"
  by (simp add: load_words_def)

lemma length_key_words [simp]: "length (key_words key) = 8"
  by (simp add: key_words_def)

lemma length_qr [simp]: "length (qr a b c d x) = length x"
  by (simp add: qr_def Let_def case_prod_beta)

lemma length_double_round [simp]: "length (double_round x) = length x"
  by (simp add: double_round_def Let_def)

lemma length_double_rounds [simp]: "length ((double_round ^^ n) x) = length x"
  by (induction n) simp_all

lemma length_permute [simp]: "length (permute x) = length x"
  by (simp add: permute_def)

lemma length_chacha_state [simp]: "length (chacha_state key counter nonce) = 16"
  by (simp add: chacha_state_def)

lemma length_concat_words: "length (concat (map (le_bytes n) ws)) = n * length ws"
  by (induction ws) simp_all

lemma length_chacha_block [simp]: "length (chacha_block key counter nonce) = 64"
  by (simp add: chacha_block_def Let_def length_concat comp_def case_prod_beta sum_list_triv)

lemma length_hchacha20 [simp]: "length (hchacha20 key input) = 32"
  by (simp add: hchacha20_def Let_def length_concat_words)

lemma length_xor_zip [simp]: "length (xor_zip chunk ks) = length chunk"
  by (simp add: xor_zip_def)

lemma length_xor_loop: "length (xor_loop key ctr nonce cs) = length (concat cs)"
  by (induction cs arbitrary: ctr) simp_all

lemma length_xor_in_place [simp, len_simps]: "length (xor_in_place key ctr nonce data) = length data"
  by (simp add: xor_in_place_def length_xor_loop concat_chunks)

subsection \<open>The keystream\<close>

lemma xor_zip_nth: "i < length c \<Longrightarrow> length c \<le> length ks \<Longrightarrow> xor_zip c ks ! i = c ! i XOR ks ! i"
  by (simp add: xor_zip_def nth_append)

lemma xor_in_place_step:
  "data \<noteq> [] \<Longrightarrow> xor_in_place key ctr nonce data =
     xor_zip (take 64 data) (chacha_block key ctr nonce) @ xor_in_place key (ctr + 1) nonce (drop 64 data)"
  by (simp add: xor_in_place_def chunks_step)

lemma xor_in_place_Nil [simp]: "xor_in_place key ctr nonce [] = []"
  by (simp add: xor_in_place_def)

text \<open>Byte \<open>i\<close> of the output is byte \<open>i\<close> of the input XOR byte \<open>i mod 64\<close> of the
  keystream block number \<open>counter + i div 64\<close>.\<close>

lemma xor_in_place_nth:
  "i < length data \<Longrightarrow> xor_in_place key ctr nonce data ! i =
     data ! i XOR chacha_block key (ctr + of_nat (i div 64)) nonce ! (i mod 64)"
proof (induction "length data" arbitrary: data i ctr rule: less_induct)
  case less
  then have ne: "data \<noteq> []" by auto
  show ?case
  proof (cases "i < 64")
    case True
    with less.prems ne show ?thesis
      by (simp add: xor_in_place_step nth_append xor_zip_nth)
  next
    case False
    then obtain j where j: "i = j + 64" by (metis add.commute le_Suc_ex not_less)
    have "xor_in_place key ctr nonce data ! i = xor_in_place key (ctr + 1) nonce (drop 64 data) ! j"
      using less.prems ne j by (simp add: xor_in_place_step nth_append)
    moreover have "xor_in_place key (ctr + 1) nonce (drop 64 data) ! j = drop 64 data ! j XOR chacha_block key (ctr + 1 + of_nat (j div 64)) nonce ! (j mod 64)"
      using less.prems j by (intro less.hyps) auto
    moreover have "(j + 64) div 64 = Suc (j div 64)" by simp
    ultimately show ?thesis
      using less.prems j by (simp add: add.assoc add.commute [of 64 j])
  qed
qed

lemma xor_in_place_involution [simp]:
  "xor_in_place key ctr nonce (xor_in_place key ctr nonce data) = data"
  by (rule nth_equalityI) (simp_all add: xor_in_place_nth xor.assoc)

lemma xor_in_place_append:
  assumes "64 dvd length xs"
  shows "xor_in_place key ctr nonce (xs @ ys) =
    xor_in_place key ctr nonce xs @ xor_in_place key (ctr + of_nat (length xs div 64)) nonce ys"
proof (rule nth_equalityI)
  fix i assume "i < length (xor_in_place key ctr nonce (xs @ ys))"
  then have i: "i < length xs + length ys" by simp
  obtain m where m: "length xs = 64 * m" using assms by (rule dvdE)
  show "xor_in_place key ctr nonce (xs @ ys) ! i =
    (xor_in_place key ctr nonce xs @ xor_in_place key (ctr + of_nat (length xs div 64)) nonce ys) ! i"
  proof (cases "i < length xs")
    case False
    then obtain j where "i = 64 * m + j" using m by (metis le_Suc_ex not_less)
    with i m show ?thesis by (simp add: xor_in_place_nth nth_append add.assoc)
  qed (use i in \<open>simp add: xor_in_place_nth nth_append\<close>)
qed simp

subsection \<open>The backend interface\<close>

text \<open>The contract of \<open>ChaChaImpl\<close>: a backend is byte-identical to \<open>xor_in_place\<close>.\<close>

locale chacha_impl =
  fixes apply_keystream :: chacha_backend
  assumes contract: "apply_keystream key nonce counter buf = xor_in_place key counter nonce buf"
begin

lemma keystream_length: "length (apply_keystream key nonce counter buf) = length buf"
  by (simp add: contract)

lemma keystream_involution:
  "apply_keystream key nonce counter (apply_keystream key nonce counter buf) = buf"
  by (simp add: contract)

end

interpretation scalar: chacha_impl scalar_apply_keystream
  by unfold_locales (simp add: scalar_apply_keystream_def)

end
