(* ===== verification/Poly1305.thy ===== *)
theory Poly1305
  imports Prelude
begin

text \<open>
  \<open>src/src/crypto/poly1305.rs\<close>: the streaming one-time authenticator in radix
  \<open>2^26\<close>. The arrays of limbs are tuples, destructured as in the code; the code's
  \<open>u64\<close> products and carries are the word operations.
\<close>

definition M26 :: u64 where
  "M26 = 0x03ffffff"

definition le64_at :: "bytes \<Rightarrow> nat \<Rightarrow> u64" where
  "le64_at bs offset =
     (let src = (case get_from offset bs of Some s \<Rightarrow> s | None \<Rightarrow> [])
      in from_le (zip_copy (replicate 8 0) src))"

definition le32_at :: "bytes \<Rightarrow> nat \<Rightarrow> u32" where
  "le32_at bs offset =
     (let src = (case get_from offset bs of Some s \<Rightarrow> s | None \<Rightarrow> [])
      in from_le (zip_copy (replicate 4 0) src))"

type_synonym limbs26 = "u32 \<times> u32 \<times> u32 \<times> u32 \<times> u32"

record poly1305_state =
  poly_r :: limbs26
  poly_h :: limbs26
  poly_pad :: "u32 \<times> u32 \<times> u32 \<times> u32"
  poly_buf :: bytes
  poly_buf_len :: nat

definition poly1305_new :: "bytes \<Rightarrow> poly1305_state" where
  "poly1305_new key =
     (let t0 = le64_at key 0 AND 0x0ffffffc0fffffff;
          t1 = le64_at key 8 AND 0x0ffffffc0ffffffc
      in \<lparr> poly_r =
             (ucast (t0 AND M26),
              ucast (drop_bit 26 t0 AND M26),
              ucast ((drop_bit 52 t0 OR push_bit 12 t1) AND M26),
              ucast (drop_bit 14 t1 AND M26),
              ucast (drop_bit 40 t1 AND M26)),
           poly_h = (0, 0, 0, 0, 0),
           poly_pad = (le32_at key 16, le32_at key 20, le32_at key 24, le32_at key 28),
           poly_buf = replicate 16 0,
           poly_buf_len = 0 \<rparr>)"

text \<open>The body of \<open>process_block\<close> on the accumulator: add the block, multiply by \<open>r\<close>,
  carry.\<close>

definition poly_add_block :: "limbs26 \<Rightarrow> bytes \<Rightarrow> u32 \<Rightarrow> u64 \<times> u64 \<times> u64 \<times> u64 \<times> u64" where
  "poly_add_block h block hibit =
     (let t0 = le64_at block 0; t1 = le64_at block 8;
          (h0, h1, h2, h3, h4) = h
      in (ucast h0 + (t0 AND M26),
          ucast h1 + (drop_bit 26 t0 AND M26),
          ucast h2 + ((drop_bit 52 t0 OR push_bit 12 t1) AND M26),
          ucast h3 + (drop_bit 14 t1 AND M26),
          ucast h4 + (drop_bit 40 t1 OR ucast hibit)))"

definition poly_mul_r ::
  "u64 \<times> u64 \<times> u64 \<times> u64 \<times> u64 \<Rightarrow> limbs26 \<Rightarrow> u64 \<times> u64 \<times> u64 \<times> u64 \<times> u64" where
  "poly_mul_r h r =
     (let (h0, h1, h2, h3, h4) = h;
          (r0', r1', r2', r3', r4') = r;
          r0 = ucast r0'; r1 = ucast r1'; r2 = ucast r2'; r3 = ucast r3'; r4 = ucast r4';
          s1 = r1 * 5; s2 = r2 * 5; s3 = r3 * 5; s4 = r4 * 5
      in (h0 * r0 + h1 * s4 + h2 * s3 + h3 * s2 + h4 * s1,
          h0 * r1 + h1 * r0 + h2 * s4 + h3 * s3 + h4 * s2,
          h0 * r2 + h1 * r1 + h2 * r0 + h3 * s4 + h4 * s3,
          h0 * r3 + h1 * r2 + h2 * r1 + h3 * r0 + h4 * s4,
          h0 * r4 + h1 * r3 + h2 * r2 + h3 * r1 + h4 * r0))"

definition poly_carry :: "u64 \<times> u64 \<times> u64 \<times> u64 \<times> u64 \<Rightarrow> limbs26" where
  "poly_carry d =
     (let (d0, d1, d2, d3, d4) = d;
          c = drop_bit 26 d0; h0 = d0 AND M26;
          d1 = d1 + c; c = drop_bit 26 d1; h1 = d1 AND M26;
          d2 = d2 + c; c = drop_bit 26 d2; h2 = d2 AND M26;
          d3 = d3 + c; c = drop_bit 26 d3; h3 = d3 AND M26;
          d4 = d4 + c; c = drop_bit 26 d4; h4 = d4 AND M26;
          h0 = h0 + c * 5; c = drop_bit 26 h0; h0 = h0 AND M26;
          h1 = h1 + c
      in (ucast h0, ucast h1, ucast h2, ucast h3, ucast h4))"

definition poly_process_block :: "poly1305_state \<Rightarrow> bytes \<Rightarrow> u32 \<Rightarrow> poly1305_state" where
  "poly_process_block p block hibit =
     p\<lparr> poly_h := poly_carry (poly_mul_r (poly_add_block (poly_h p) block hibit) (poly_r p)) \<rparr>"

text \<open>The two halves of \<open>update\<close>: the whole blocks and the tail, and the top-up of a partial
  block before them.\<close>

definition poly_update_blocks :: "poly1305_state \<Rightarrow> bytes \<Rightarrow> poly1305_state" where
  "poly_update_blocks p data =
     (let p = fold (\<lambda>chunk p. poly_process_block p (zip_copy (replicate 16 0) chunk) (push_bit 24 1))
                (chunks_exact 16 data) p;
          rest = chunks_remainder 16 data
      in p\<lparr> poly_buf := zip_copy (poly_buf p) rest, poly_buf_len := length rest \<rparr>)"

definition poly1305_update :: "poly1305_state \<Rightarrow> bytes \<Rightarrow> poly1305_state" where
  "poly1305_update p data =
     (if poly_buf_len p > 0 then
        let space = drop (poly_buf_len p) (poly_buf p);
            n = min (length space) (length data);
            p = p\<lparr> poly_buf := take (poly_buf_len p) (poly_buf p) @ zip_copy space data,
                   poly_buf_len := saturating_add_usize (poly_buf_len p) n \<rparr>;
            data = drop n data
        in if poly_buf_len p < 16 then p
           else poly_update_blocks
                  ((poly_process_block p (poly_buf p) (push_bit 24 1))\<lparr> poly_buf_len := 0 \<rparr>) data
      else poly_update_blocks p data)"

definition poly1305_update_padded :: "poly1305_state \<Rightarrow> bytes \<Rightarrow> poly1305_state" where
  "poly1305_update_padded p data =
     (let p = poly1305_update p data; rest = length data mod 16
      in if rest \<noteq> 0 then poly1305_update p (drop rest (replicate 16 0)) else p)"

definition poly_reduce :: "limbs26 \<Rightarrow> u64 \<times> u64 \<times> u64 \<times> u64 \<times> u64" where
  "poly_reduce h =
     (let (h0', h1', h2', h3', h4') = h;
          h0 = ucast h0'; h1 = ucast h1'; h2 = ucast h2'; h3 = ucast h3'; h4 = ucast h4' :: u64;
          c = drop_bit 26 h1; h1 = h1 AND M26;
          h2 = h2 + c; c = drop_bit 26 h2; h2 = h2 AND M26;
          h3 = h3 + c; c = drop_bit 26 h3; h3 = h3 AND M26;
          h4 = h4 + c; c = drop_bit 26 h4; h4 = h4 AND M26;
          h0 = h0 + c * 5; c = drop_bit 26 h0; h0 = h0 AND M26;
          h1 = h1 + c
      in (h0, h1, h2, h3, h4))"

definition poly_select :: "u64 \<times> u64 \<times> u64 \<times> u64 \<times> u64 \<Rightarrow> u64 \<times> u64 \<times> u64 \<times> u64 \<times> u64" where
  "poly_select h =
     (let (h0, h1, h2, h3, h4) = h;
          g0 = h0 + 5; c = drop_bit 26 g0; g0 = g0 AND M26;
          g1 = h1 + c; c = drop_bit 26 g1; g1 = g1 AND M26;
          g2 = h2 + c; c = drop_bit 26 g2; g2 = g2 AND M26;
          g3 = h3 + c; c = drop_bit 26 g3; g3 = g3 AND M26;
          g4 = h4 + c - push_bit 26 1;
          msk = drop_bit 63 g4 - 1
      in ((h0 AND NOT msk) OR (g0 AND msk),
          (h1 AND NOT msk) OR (g1 AND msk),
          (h2 AND NOT msk) OR (g2 AND msk),
          (h3 AND NOT msk) OR (g3 AND msk),
          (h4 AND NOT msk) OR (g4 AND msk AND M26)))"

definition poly_repack :: "u64 \<times> u64 \<times> u64 \<times> u64 \<times> u64 \<Rightarrow> u32 \<times> u32 \<times> u32 \<times> u32" where
  "poly_repack h =
     (let (h0, h1, h2, h3, h4) = h
      in (ucast (h0 OR push_bit 26 h1),
          ucast (drop_bit 6 h1 OR push_bit 20 h2),
          ucast (drop_bit 12 h2 OR push_bit 14 h3),
          ucast (drop_bit 18 h3 OR push_bit 8 h4)))"

definition poly_add_pad :: "u32 \<times> u32 \<times> u32 \<times> u32 \<Rightarrow> u32 \<times> u32 \<times> u32 \<times> u32 \<Rightarrow> bytes" where
  "poly_add_pad w pad =
     (let (w0, w1, w2, w3) = w; (p0, p1, p2, p3) = pad;
          f = ucast w0 + ucast p0 :: u64; o0 = ucast f :: u32;
          f = ucast w1 + ucast p1 + drop_bit 32 f; o1 = ucast f :: u32;
          f = ucast w2 + ucast p2 + drop_bit 32 f; o2 = ucast f :: u32;
          f = ucast w3 + ucast p3 + drop_bit 32 f; o3 = ucast f :: u32
      in concat (map (le_bytes 4) [o0, o1, o2, o3]))"

definition poly1305_finalize :: "poly1305_state \<Rightarrow> bytes" where
  "poly1305_finalize p =
     (let p = (if poly_buf_len p > 0 then
                 let block = zip_copy (replicate 16 0) (take (poly_buf_len p) (poly_buf p));
                     block = block[poly_buf_len p := 1]
                 in poly_process_block p block 0
               else p)
      in poly_add_pad (poly_repack (poly_select (poly_reduce (poly_h p)))) (poly_pad p))"

definition poly1305 :: "bytes \<Rightarrow> bytes \<Rightarrow> bytes" where
  "poly1305 key data = poly1305_finalize (poly1305_update (poly1305_new key) data)"

lemma length_poly_add_pad [simp]: "length (poly_add_pad w pad) = 16"
  by (simp add: poly_add_pad_def Let_def case_prod_beta)

lemma length_poly1305_finalize [simp, len_simps]: "length (poly1305_finalize p) = 16"
  by (simp add: poly1305_finalize_def Let_def)

end
