(* ===== verification/Aead.thy ===== *)
theory Aead
  imports Wg_Error Ct ChaCha20 Poly1305
begin

text \<open>
  \<open>src/src/crypto/aead.rs\<close>: ChaCha20-Poly1305 and XChaCha20-Poly1305. An operation that
  writes to \<open>out\<close> returns its result together with the buffer it leaves, so that "the
  output is untouched" is a statement about the model. The keystream backend is an argument.
\<close>

definition TAG_LEN :: nat where "TAG_LEN = 16"
definition KEY_LEN :: nat where "KEY_LEN = 32"
definition XNONCE_LEN :: nat where "XNONCE_LEN = 24"

definition nonce_from_counter :: "u64 \<Rightarrow> bytes" where
  "nonce_from_counter counter = [0, 0, 0, 0] @ le_bytes 8 counter"

definition copy_exact :: "bytes \<Rightarrow> bytes \<Rightarrow> bytes result" where
  "copy_exact dst src = (if length dst \<noteq> length src then Inl Internal else Inr src)"

definition compute_tag :: "bytes \<Rightarrow> bytes \<Rightarrow> bytes \<Rightarrow> bytes" where
  "compute_tag otk aad ciphertext =
     (let mac = poly1305_new otk;
          mac = poly1305_update_padded mac aad;
          mac = poly1305_update_padded mac ciphertext;
          mac = poly1305_update mac (le_bytes 8 (of_nat (length aad) :: u64));
          mac = poly1305_update mac (le_bytes 8 (of_nat (length ciphertext) :: u64))
      in poly1305_finalize mac)"

definition poly_key :: "bytes \<Rightarrow> bytes \<Rightarrow> bytes" where
  "poly_key key nonce = zip_copy (replicate 32 0) (chacha_block key 0 nonce)"

definition seal_with ::
  "chacha_backend \<Rightarrow> bytes \<Rightarrow> bytes \<Rightarrow> bytes \<Rightarrow> bytes \<Rightarrow> bytes \<Rightarrow> nat result \<times> bytes" where
  "seal_with C key nonce aad plaintext out =
     (case checked_add_usize (length plaintext) TAG_LEN of
        None \<Rightarrow> (Inl BufferTooSmall, out)
      | Some tot \<Rightarrow>
        (case get_to tot out of
           None \<Rightarrow> (Inl BufferTooSmall, out)
         | Some window \<Rightarrow>
           (case split_at_checked (length plaintext) window of
              None \<Rightarrow> (Inl Internal, out)
            | Some (ct_part, tag_part) \<Rightarrow>
              (case copy_exact ct_part plaintext of
                 Inl e \<Rightarrow> (Inl e, out)
               | Inr ct_part \<Rightarrow>
                 let ct_part = C key nonce 1 ct_part;
                     otk = poly_key key nonce;
                     tag = compute_tag otk aad ct_part
                 in (case copy_exact tag_part tag of
                       Inl e \<Rightarrow> (Inl e, put 0 ct_part out)
                     | Inr tag_part \<Rightarrow> (Inr tot, put 0 (ct_part @ tag_part) out))))))"

definition seal :: "bytes \<Rightarrow> bytes \<Rightarrow> bytes \<Rightarrow> bytes \<Rightarrow> bytes \<Rightarrow> nat result \<times> bytes" where
  "seal key nonce aad plaintext out = seal_with scalar_apply_keystream key nonce aad plaintext out"

definition open_with ::
  "chacha_backend \<Rightarrow> bytes \<Rightarrow> bytes \<Rightarrow> bytes \<Rightarrow> bytes \<Rightarrow> bytes \<Rightarrow> nat result \<times> bytes" where
  "open_with C key nonce aad ciphertext_and_tag out =
     (case checked_sub_usize (length ciphertext_and_tag) TAG_LEN of
        None \<Rightarrow> (Inl AuthFailure, out)
      | Some ct_len \<Rightarrow>
        (case split_at_checked ct_len ciphertext_and_tag of
           None \<Rightarrow> (Inl Internal, out)
         | Some (ciphertext, tag) \<Rightarrow>
           (case get_to ct_len out of
              None \<Rightarrow> (Inl BufferTooSmall, out)
            | Some window \<Rightarrow>
              let otk = poly_key key nonce;
                  expected = compute_tag otk aad ciphertext
              in if \<not> ct_eq expected tag then (Inl AuthFailure, out)
                 else (case copy_exact window ciphertext of
                         Inl e \<Rightarrow> (Inl e, out)
                       | Inr window \<Rightarrow> (Inr ct_len, put 0 (C key nonce 1 window) out)))))"

definition open_scalar :: "bytes \<Rightarrow> bytes \<Rightarrow> bytes \<Rightarrow> bytes \<Rightarrow> bytes \<Rightarrow> nat result \<times> bytes" where
  "open_scalar key nonce aad ciphertext_and_tag out =
     open_with scalar_apply_keystream key nonce aad ciphertext_and_tag out"

definition seal_in_place_with ::
  "chacha_backend \<Rightarrow> bytes \<Rightarrow> bytes \<Rightarrow> bytes \<Rightarrow> nat \<Rightarrow> bytes \<Rightarrow> nat result \<times> bytes" where
  "seal_in_place_with C key nonce aad pt_len buf =
     (case checked_add_usize pt_len TAG_LEN of
        None \<Rightarrow> (Inl BufferTooSmall, buf)
      | Some tot \<Rightarrow>
        (case get_to tot buf of
           None \<Rightarrow> (Inl BufferTooSmall, buf)
         | Some window \<Rightarrow>
           (case split_at_checked pt_len window of
              None \<Rightarrow> (Inl Internal, buf)
            | Some (ct_part, tag_part) \<Rightarrow>
              let ct_part = C key nonce 1 ct_part;
                  otk = poly_key key nonce;
                  tag = compute_tag otk aad ct_part
              in (case copy_exact tag_part tag of
                    Inl e \<Rightarrow> (Inl e, put 0 ct_part buf)
                  | Inr tag_part \<Rightarrow> (Inr tot, put 0 (ct_part @ tag_part) buf)))))"

definition seal_in_place :: "bytes \<Rightarrow> bytes \<Rightarrow> bytes \<Rightarrow> nat \<Rightarrow> bytes \<Rightarrow> nat result \<times> bytes" where
  "seal_in_place key nonce aad pt_len buf =
     seal_in_place_with scalar_apply_keystream key nonce aad pt_len buf"

definition xchacha_derive :: "bytes \<Rightarrow> bytes \<Rightarrow> bytes \<times> bytes" where
  "xchacha_derive key nonce =
     (let hin = zip_copy (replicate 16 0) nonce;
          subkey = hchacha20 key hin;
          sub_nonce = [0, 0, 0, 0] @ zip_copy (replicate 8 0) (drop 16 nonce)
      in (subkey, sub_nonce))"

definition xseal :: "bytes \<Rightarrow> bytes \<Rightarrow> bytes \<Rightarrow> bytes \<Rightarrow> bytes \<Rightarrow> nat result \<times> bytes" where
  "xseal key nonce aad plaintext out =
     (let (subkey, sub_nonce) = xchacha_derive key nonce
      in seal subkey sub_nonce aad plaintext out)"

definition xopen :: "bytes \<Rightarrow> bytes \<Rightarrow> bytes \<Rightarrow> bytes \<Rightarrow> bytes \<Rightarrow> nat result \<times> bytes" where
  "xopen key nonce aad ciphertext_and_tag out =
     (let (subkey, sub_nonce) = xchacha_derive key nonce
      in open_scalar subkey sub_nonce aad ciphertext_and_tag out)"

subsection \<open>What the operations compute\<close>

text \<open>The ciphertext and tag of a message, without the buffers.\<close>

definition aead_encrypt :: "chacha_backend \<Rightarrow> bytes \<Rightarrow> bytes \<Rightarrow> bytes \<Rightarrow> bytes \<Rightarrow> bytes" where
  "aead_encrypt C key nonce aad plaintext =
     (let ct = C key nonce 1 plaintext in ct @ compute_tag (poly_key key nonce) aad ct)"

definition aead_accepts :: "bytes \<Rightarrow> bytes \<Rightarrow> bytes \<Rightarrow> bytes \<Rightarrow> bool" where
  "aead_accepts key nonce aad c \<longleftrightarrow>
     TAG_LEN \<le> length c \<and>
     compute_tag (poly_key key nonce) aad (take (length c - TAG_LEN) c) = drop (length c - TAG_LEN) c"

lemmas aead_lens = TAG_LEN_def KEY_LEN_def XNONCE_LEN_def

lemma length_compute_tag [simp, len_simps]: "length (compute_tag otk aad c) = 16"
  by (simp add: compute_tag_def Let_def)

lemma length_nonce_from_counter [simp, len_simps]: "length (nonce_from_counter c) = 12"
  by (simp add: nonce_from_counter_def)

lemma nonce_from_counter_inject: "nonce_from_counter a = nonce_from_counter b \<longleftrightarrow> a = b"
proof
  assume "nonce_from_counter a = nonce_from_counter b"
  then have "from_le (le_bytes 8 a) = (from_le (le_bytes 8 b) :: u64)"
    by (simp add: nonce_from_counter_def)
  then show "a = b" by simp
qed simp

text \<open>\<open>open\<close> is verify-then-decrypt: which branch it takes does not depend on the backend, and every
  error leaves the buffer as it was.\<close>

lemma open_with_eq:
  "open_with C key nonce aad c out =
     (if length c < TAG_LEN then (Inl AuthFailure, out)
      else if length out < length c - TAG_LEN then (Inl BufferTooSmall, out)
      else if aead_accepts key nonce aad c
        then (Inr (length c - TAG_LEN), put 0 (C key nonce 1 (take (length c - TAG_LEN) c)) out)
      else (Inl AuthFailure, out))"
  by (simp add: open_with_def aead_accepts_def checked_sub_usize_def split_at_checked_def get_to_def
      copy_exact_def Let_def)

lemma put_0_same_length: "put 0 xs buf = xs @ drop (length xs) buf"
  by (simp add: put_def)

lemma seal_in_place_eq_seal:
  assumes "plaintext = take n buf" and "n \<le> length buf"
  shows "seal_in_place_with C key nonce aad n buf = seal_with C key nonce aad plaintext buf"
proof -
  have "length plaintext = n" using assms by simp
  then show ?thesis
    using assms
    by (auto simp: seal_in_place_with_def seal_with_def get_to_def split_at_checked_def copy_exact_def
        checked_add_usize_def Let_def split: option.splits)
qed

context chacha_impl
begin

lemma length_aead_encrypt: "length (aead_encrypt apply_keystream key nonce aad p) = length p + TAG_LEN"
  by (simp add: aead_encrypt_def Let_def keystream_length TAG_LEN_def)

lemma seal_with_eq:
  "seal_with apply_keystream key nonce aad p out =
     (if length p + TAG_LEN \<le> usize_max \<and> length p + TAG_LEN \<le> length out
      then (Inr (length p + TAG_LEN),
            aead_encrypt apply_keystream key nonce aad p @ drop (length p + TAG_LEN) out)
      else (Inl BufferTooSmall, out))"
  by (simp add: seal_with_def checked_add_usize_def get_to_def split_at_checked_def copy_exact_def
      aead_encrypt_def TAG_LEN_def keystream_length put_0_same_length Let_def)

lemma seal_in_place_with_eq:
  assumes "n \<le> length buf"
  shows "seal_in_place_with apply_keystream key nonce aad n buf =
     (if n + TAG_LEN \<le> usize_max \<and> n + TAG_LEN \<le> length buf
      then (Inr (n + TAG_LEN),
            aead_encrypt apply_keystream key nonce aad (take n buf) @ drop (n + TAG_LEN) buf)
      else (Inl BufferTooSmall, buf))"
  using assms by (simp add: seal_in_place_eq_seal [OF refl assms] seal_with_eq)

lemma accepts_encrypt: "aead_accepts key nonce aad (aead_encrypt apply_keystream key nonce aad p)"
  by (simp add: aead_accepts_def aead_encrypt_def Let_def keystream_length TAG_LEN_def)

lemma open_encrypt:
  assumes "length p \<le> length out"
  shows "open_with apply_keystream key nonce aad (aead_encrypt apply_keystream key nonce aad p) out
    = (Inr (length p), p @ drop (length p) out)"
proof -
  have "take (length p) (aead_encrypt apply_keystream key nonce aad p) = apply_keystream key nonce 1 p"
    by (simp add: aead_encrypt_def Let_def keystream_length)
  then show ?thesis
    using assms
    by (simp add: open_with_eq accepts_encrypt length_aead_encrypt keystream_involution put_0_same_length)
qed

end

lemma chacha_impl_unique: "chacha_impl C \<Longrightarrow> C = scalar_apply_keystream"
  by (intro ext) (simp add: chacha_impl_def scalar_apply_keystream_def)

lemma seal_eq_scalar: "seal = seal_with scalar_apply_keystream"
  by (intro ext) (simp add: seal_def)

lemma open_eq_scalar: "open_scalar = open_with scalar_apply_keystream"
  by (intro ext) (simp add: open_scalar_def)

text \<open>\<open>seal\<close> and \<open>open\<close> on exactly sized buffers, the form the handshake uses.\<close>

lemma seal_exact:
  assumes "length p + 16 = length out" and "length out \<le> usize_max"
  shows "seal key nonce aad p out = (Inr (length out), aead_encrypt scalar_apply_keystream key nonce aad p)"
  using assms by (simp add: seal_eq_scalar scalar.seal_with_eq TAG_LEN_def)

lemma open_exact_iff:
  assumes "length c = length out + 16"
  shows "open_scalar key nonce aad c out =
    (if aead_accepts key nonce aad c
     then (Inr (length out), scalar_apply_keystream key nonce 1 (take (length out) c))
     else (Inl AuthFailure, out))"
  using assms
  by (simp add: open_eq_scalar open_with_eq TAG_LEN_def put_0_same_length scalar.keystream_length)

lemma open_exact_encrypt:
  assumes "length p = length out"
  shows "open_scalar key nonce aad (aead_encrypt scalar_apply_keystream key nonce aad p) out = (Inr (length out), p)"
  using scalar.open_encrypt [of p out key nonce aad] assms by (simp add: open_eq_scalar)

lemma usize_small [simp]: "n \<le> 18446744073709551615 \<Longrightarrow> n \<le> usize_max"
  by (simp add: usize_max_def)

subsection \<open>Properties\<close>

text \<open>C15: what one endpoint seals, the other opens, whichever backends the two endpoints run: for
  any key, nonce, additional data and plaintext, and any buffers that are large enough, sealing
  reports the plaintext length plus the tag, and opening the bytes written returns the
  plaintext length and leaves the plaintext at the start of the output buffer with the rest of
  the buffer unchanged.\<close>

theorem aead_round_trip:
  assumes "chacha_impl Ca" and "chacha_impl Cb"
    and "length p + TAG_LEN \<le> usize_max"
    and "length p + TAG_LEN \<le> length out1" and "length p \<le> length out2"
  shows "fst (seal_with Ca key nonce aad p out1) = Inr (length p + TAG_LEN)
    \<and> open_with Cb key nonce aad (take (length p + TAG_LEN) (snd (seal_with Ca key nonce aad p out1))) out2
        = (Inr (length p), p @ drop (length p) out2)"
proof -
  have C: "Cb = Ca" using chacha_impl_unique [OF assms(1)] chacha_impl_unique [OF assms(2)] by simp
  note s = chacha_impl.seal_with_eq [OF assms(1)] chacha_impl.length_aead_encrypt [OF assms(1)]
  show ?thesis
    using assms(3-5) by (simp add: C s chacha_impl.open_encrypt [OF assms(1)])
qed

theorem aead_round_trip_witness:
  "chacha_impl scalar_apply_keystream
   \<and> fst (seal_with scalar_apply_keystream (replicate 32 1) (nonce_from_counter 7) [9] [1, 2, 3] (replicate 20 0))
       = Inr (length [1, 2, 3 :: u8] + TAG_LEN)"
  using aead_round_trip [OF scalar.chacha_impl_axioms scalar.chacha_impl_axioms,
      of "[1, 2, 3]" "replicate 20 0" "replicate 3 0"] scalar.chacha_impl_axioms
  by (simp add: TAG_LEN_def)

text \<open>C24: \<open>open\<close> verifies before it decrypts. For every backend, even a faulty one, it succeeds
  exactly when the input carries the Poly1305 tag of its ciphertext part and the buffer is large
  enough; a forgery or a short input is \<open>AuthFailure\<close>, and every error leaves the output buffer
  untouched.\<close>

theorem open_verify_then_decrypt:
  "(fst (open_with C key nonce aad c out) = Inr k \<longleftrightarrow>
      aead_accepts key nonce aad c \<and> length c - TAG_LEN \<le> length out \<and> k = length c - TAG_LEN)
   \<and> (fst (open_with C key nonce aad c out) = Inl e \<longrightarrow>
        snd (open_with C key nonce aad c out) = out \<and>
        e = (if length c < TAG_LEN \<or> length c - TAG_LEN \<le> length out then AuthFailure
             else BufferTooSmall))"
  by (auto simp: open_with_eq aead_accepts_def)

theorem open_verify_then_decrypt_witness:
  "open_with (\<lambda>_ _ _ b. map (\<lambda>_. 0xff) b) [] [] [] [1, 2, 3] [7, 7] = (Inl AuthFailure, [7, 7])"
  using open_verify_then_decrypt [of "\<lambda>_ _ _ b. map (\<lambda>_. 0xff) b" "[]" "[]" "[]" "[1, 2, 3]" "[7, 7]" 0 AuthFailure]
  by (simp add: open_with_eq TAG_LEN_def)

text \<open>The zero-copy transport path computes the same datagram as the copying one: sealing the
  first \<open>n\<close> bytes of a buffer in place gives the result, and leaves the buffer, that
  \<open>seal\<close> gives for those bytes as plaintext.\<close>

theorem seal_in_place_agrees:
  assumes "n \<le> length buf"
  shows "seal_in_place_with C key nonce aad n buf = seal_with C key nonce aad (take n buf) buf"
  using seal_in_place_eq_seal [OF refl assms] .

theorem seal_in_place_agrees_witness:
  "seal_in_place_with scalar_apply_keystream [] [] [] 1 [5, 6] =
     seal_with scalar_apply_keystream [] [] [] [5] [5, 6]"
  using seal_in_place_agrees [of 1 "[5, 6]" scalar_apply_keystream "[]" "[]" "[]"] by simp



end
