(* ===== verification/Blake2s.thy ===== *)
theory Blake2s
  imports ChaCha20
begin

text \<open>
  \<open>src/src/crypto/blake2s.rs\<close>: the compression function, the streaming core that both
  output lengths share, the 32-byte hash and the keyed 16-byte MAC.
\<close>

definition blake2s_IV :: "u32 list" where
  "blake2s_IV = [0x6a09e667, 0xbb67ae85, 0x3c6ef372, 0xa54ff53a,
                 0x510e527f, 0x9b05688c, 0x1f83d9ab, 0x5be0cd19]"

definition blake2s_SIGMA :: "nat list list" where
  "blake2s_SIGMA =
    [ [0, 1, 2, 3, 4, 5, 6, 7, 8, 9, 10, 11, 12, 13, 14, 15],
     [14, 10, 4, 8, 9, 15, 13, 6, 1, 12, 0, 2, 11, 7, 5, 3],
     [11, 8, 12, 0, 5, 2, 15, 13, 10, 14, 3, 6, 7, 1, 9, 4],
     [7, 9, 3, 1, 13, 12, 11, 14, 2, 6, 5, 10, 4, 0, 15, 8],
     [9, 0, 5, 7, 2, 4, 10, 15, 14, 1, 11, 12, 6, 8, 3, 13],
     [2, 12, 6, 10, 0, 11, 8, 3, 4, 13, 7, 5, 15, 14, 1, 9],
     [12, 5, 1, 15, 14, 13, 4, 10, 0, 7, 6, 3, 9, 2, 8, 11],
     [13, 11, 7, 14, 12, 1, 3, 9, 5, 0, 15, 4, 8, 6, 2, 10],
     [6, 15, 14, 9, 11, 3, 0, 8, 12, 2, 13, 7, 1, 4, 10, 5],
     [10, 2, 8, 4, 7, 6, 1, 5, 15, 11, 9, 14, 3, 12, 13, 0] ]"

definition blake2s_g :: "nat \<Rightarrow> nat \<Rightarrow> nat \<Rightarrow> nat \<Rightarrow> u32 \<Rightarrow> u32 \<Rightarrow> u32 list \<Rightarrow> u32 list" where
  "blake2s_g a b c d x y v =
     (let va = v ! a; vb = v ! b; vc = v ! c; vd = v ! d;
          va = va + vb + x; vd = word_rotr 16 (vd XOR va);
          vc = vc + vd; vb = word_rotr 12 (vb XOR vc);
          va = va + vb + y; vd = word_rotr 8 (vd XOR va);
          vc = vc + vd; vb = word_rotr 7 (vb XOR vc)
      in v[a := va, b := vb, c := vc, d := vd])"

definition blake2s_round :: "u32 list \<Rightarrow> nat list \<Rightarrow> u32 list \<Rightarrow> u32 list" where
  "blake2s_round m s v =
     (let v = blake2s_g 0 4 8 12 (m ! (s ! 0)) (m ! (s ! 1)) v;
          v = blake2s_g 1 5 9 13 (m ! (s ! 2)) (m ! (s ! 3)) v;
          v = blake2s_g 2 6 10 14 (m ! (s ! 4)) (m ! (s ! 5)) v;
          v = blake2s_g 3 7 11 15 (m ! (s ! 6)) (m ! (s ! 7)) v;
          v = blake2s_g 0 5 10 15 (m ! (s ! 8)) (m ! (s ! 9)) v;
          v = blake2s_g 1 6 11 12 (m ! (s ! 10)) (m ! (s ! 11)) v;
          v = blake2s_g 2 7 8 13 (m ! (s ! 12)) (m ! (s ! 13)) v
      in blake2s_g 3 4 9 14 (m ! (s ! 14)) (m ! (s ! 15)) v)"

definition blake2s_compress :: "u32 list \<Rightarrow> bytes \<Rightarrow> u64 \<Rightarrow> bool \<Rightarrow> u32 list" where
  "blake2s_compress h block t is_last =
     (let m = load_words 16 block;
          v = h @ blake2s_IV;
          v = v[12 := v ! 12 XOR ucast t];
          v = v[13 := v ! 13 XOR ucast (drop_bit 32 t)];
          v = (if is_last then v[14 := NOT (v ! 14)] else v);
          v = fold (blake2s_round m) blake2s_SIGMA v
      in map2 (\<lambda>hi (a, b). hi XOR (a XOR b)) h (zip (take 8 v) (drop 8 v)))"

record blake2s_core =
  core_h :: "u32 list"
  core_t :: u64
  core_buf :: bytes
  core_buf_len :: nat

definition blake2s_core_new :: "nat \<Rightarrow> bytes \<Rightarrow> blake2s_core" where
  "blake2s_core_new out_len key =
     (let h = blake2s_IV[0 := blake2s_IV ! 0 XOR
                (0x01010000 XOR push_bit 8 (of_nat (length key)) XOR of_nat out_len)];
          core = \<lparr> core_h = h, core_t = 0, core_buf = replicate 64 0, core_buf_len = 0 \<rparr>
      in if key \<noteq> [] then core\<lparr> core_buf := zip_copy (core_buf core) key, core_buf_len := 64 \<rparr>
         else core)"

text \<open>One iteration of the \<open>while !data.is_empty()\<close> loop: flush a full buffer, then copy as
  much of the input as fits.\<close>

definition blake2s_core_flush :: "blake2s_core \<Rightarrow> blake2s_core" where
  "blake2s_core_flush core =
     (if core_buf_len core = 64 then
        let t = core_t core + 64
        in core\<lparr> core_t := t, core_h := blake2s_compress (core_h core) (core_buf core) t False,
                 core_buf_len := 0 \<rparr>
      else core)"

definition blake2s_core_fill :: "blake2s_core \<Rightarrow> bytes \<Rightarrow> blake2s_core \<times> bytes" where
  "blake2s_core_fill core data =
     (let space = drop (core_buf_len core) (core_buf core);
          n = min (length space) (length data)
      in (core\<lparr> core_buf := take (core_buf_len core) (core_buf core) @ zip_copy space data,
                core_buf_len := saturating_add_usize (core_buf_len core) n \<rparr>,
          drop n data))"

text \<open>A core whose buffer has 64 bytes and a valid prefix of at most 64; every reachable
  core is one. Outside it the loop of the code would not end, and the model stops.\<close>

definition blake2s_core_ok :: "blake2s_core \<Rightarrow> bool" where
  "blake2s_core_ok core \<longleftrightarrow>
     length (core_buf core) = 64 \<and> core_buf_len core \<le> 64 \<and> length (core_h core) = 8"

lemma blake2s_fill_shrinks:
  assumes "data \<noteq> []" and "blake2s_core_ok core"
  shows "length (snd (blake2s_core_fill (blake2s_core_flush core) data)) < length data"
proof -
  have "core_buf_len (blake2s_core_flush core) < 64" "length (core_buf (blake2s_core_flush core)) = 64"
    using assms(2) by (auto simp: blake2s_core_flush_def blake2s_core_ok_def Let_def)
  with assms(1) show ?thesis by (simp add: blake2s_core_fill_def Let_def)
qed

function blake2s_core_update :: "blake2s_core \<Rightarrow> bytes \<Rightarrow> blake2s_core" where
  "blake2s_core_update core data =
     (if data = [] \<or> \<not> blake2s_core_ok core then core
      else let r = blake2s_core_fill (blake2s_core_flush core) data
           in blake2s_core_update (fst r) (snd r))"
  by pat_completeness auto
termination
  by (relation "measure (\<lambda>(core, data). length data)") (simp_all add: blake2s_fill_shrinks case_prod_beta)

declare blake2s_core_update.simps [simp del]

definition blake2s_core_finalize :: "blake2s_core \<Rightarrow> bytes" where
  "blake2s_core_finalize core =
     (let t = core_t core + of_nat (core_buf_len core);
          buf = take (core_buf_len core) (core_buf core)
                  @ replicate (length (core_buf core) - core_buf_len core) 0;
          h = blake2s_compress (core_h core) buf t True
      in concat (map (le_bytes 4) h))"

definition blake2s256_new :: blake2s_core where
  "blake2s256_new = blake2s_core_new 32 []"

definition blake2s_mac_new :: "bytes \<Rightarrow> blake2s_core" where
  "blake2s_mac_new key =
     (if length key > 32 then
        blake2s_core_new 16 (blake2s_core_finalize (blake2s_core_update blake2s256_new key))
      else blake2s_core_new 16 key)"

definition blake2s_mac_finalize :: "blake2s_core \<Rightarrow> bytes" where
  "blake2s_mac_finalize core = zip_copy (replicate 16 0) (blake2s_core_finalize core)"

definition blake2s_hash :: "bytes list \<Rightarrow> bytes" where
  "blake2s_hash parts = blake2s_core_finalize (fold (\<lambda>part h. blake2s_core_update h part) parts blake2s256_new)"

definition blake2s_mac :: "bytes \<Rightarrow> bytes list \<Rightarrow> bytes" where
  "blake2s_mac key parts =
     blake2s_mac_finalize (fold (\<lambda>part m. blake2s_core_update m part) parts (blake2s_mac_new key))"

subsection \<open>The specification: RFC 7693 on a whole message\<close>

function b2_absorb :: "u32 list \<Rightarrow> u64 \<Rightarrow> bytes \<Rightarrow> bytes" where
  "b2_absorb h t data =
     (if length data \<le> 64
      then concat (map (le_bytes 4)
             (blake2s_compress h (data @ replicate (64 - length data) 0) (t + of_nat (length data)) True))
      else b2_absorb (blake2s_compress h (take 64 data) (t + 64) False) (t + 64) (drop 64 data))"
  by pat_completeness auto
termination
  by (relation "measure (\<lambda>(h, t, data). length data)") auto

declare b2_absorb.simps [simp del]

definition b2_spec :: "nat \<Rightarrow> bytes \<Rightarrow> bytes \<Rightarrow> bytes" where
  "b2_spec out_len key data =
     take out_len
       (b2_absorb (blake2s_IV[0 := blake2s_IV ! 0 XOR
                    (0x01010000 XOR push_bit 8 (of_nat (length key)) XOR of_nat out_len)]) 0
          ((if key = [] then [] else key @ replicate (64 - length key) 0) @ data))"

subsection \<open>The streaming core refines it\<close>

lemma length_blake2s_g [simp]: "length (blake2s_g a b c d x y v) = length v"
  by (simp add: blake2s_g_def Let_def)

lemma length_blake2s_round [simp]: "length (blake2s_round m s v) = length v"
  by (simp add: blake2s_round_def Let_def)

lemma length_fold_round [simp]: "length (fold (blake2s_round m) ss v) = length v"
  by (induction ss arbitrary: v) simp_all

lemma length_blake2s_compress [simp, len_simps]:
  "length h = 8 \<Longrightarrow> length (blake2s_compress h block t is_last) = 8"
  by (simp add: blake2s_compress_def Let_def blake2s_IV_def)

text \<open>The bytes the core holds back.\<close>

definition blake2s_pending :: "blake2s_core \<Rightarrow> bytes" where
  "blake2s_pending core = take (core_buf_len core) (core_buf core)"

lemma flush_absorb:
  assumes "blake2s_core_ok core" and "data \<noteq> []"
  shows "b2_absorb (core_h (blake2s_core_flush core)) (core_t (blake2s_core_flush core))
           (blake2s_pending (blake2s_core_flush core) @ data)
       = b2_absorb (core_h core) (core_t core) (blake2s_pending core @ data)"
    and "blake2s_core_ok (blake2s_core_flush core)" and "core_buf_len (blake2s_core_flush core) < 64"
  using assms
  by (auto simp: blake2s_core_flush_def blake2s_core_ok_def blake2s_pending_def Let_def
      b2_absorb.simps [of _ _ "core_buf core @ data"])

lemma fill_fields:
  "core_h (fst (blake2s_core_fill core data)) = core_h core"
  "core_t (fst (blake2s_core_fill core data)) = core_t core"
  by (simp_all add: blake2s_core_fill_def Let_def)

lemma fill_pend:
  fixes data :: bytes
  assumes "blake2s_core_ok core"
  defines "n \<equiv> min (64 - core_buf_len core) (length data)"
  shows "blake2s_pending (fst (blake2s_core_fill core data)) = blake2s_pending core @ take n data"
    and "snd (blake2s_core_fill core data) = drop n data"
    and "blake2s_core_ok (fst (blake2s_core_fill core data))"
proof -
  have l: "length (core_buf core) = 64" "core_buf_len core \<le> 64" "length (core_h core) = 8"
    using assms(1) by (simp_all add: blake2s_core_ok_def)
  have n: "core_buf_len core + n \<le> 64" "n \<le> length data" "n \<le> 64 - core_buf_len core"
    using l(2) by (auto simp: n_def)
  have sat: "saturating_add_usize (core_buf_len core) n = core_buf_len core + n"
    using n(1) unfolding saturating_add_usize_def usize_max_def by (intro min_absorb2) simp
  have f: "blake2s_core_fill core data =
      (core\<lparr> core_buf := take (core_buf_len core) (core_buf core)
                 @ zip_copy (drop (core_buf_len core) (core_buf core)) data,
             core_buf_len := core_buf_len core + n \<rparr>, drop n data)"
    using sat l(1) by (simp add: blake2s_core_fill_def Let_def n_def)
  have "take n (zip_copy (drop (core_buf_len core) (core_buf core)) data) = take n data"
    using n l by (simp add: zip_copy_def min_absorb1)
  with l n show "blake2s_pending (fst (blake2s_core_fill core data)) = blake2s_pending core @ take n data"
    by (simp add: f blake2s_pending_def)
  show "snd (blake2s_core_fill core data) = drop n data" by (simp add: f)
  show "blake2s_core_ok (fst (blake2s_core_fill core data))"
    using l n by (simp add: f blake2s_core_ok_def)
qed

lemma fill_absorb:
  assumes "blake2s_core_ok core"
  shows "blake2s_pending (fst (blake2s_core_fill core data)) @ snd (blake2s_core_fill core data) = blake2s_pending core @ data"
  using fill_pend [OF assms, of data] by simp

lemma update_absorb:
  assumes "blake2s_core_ok core"
  shows "b2_absorb (core_h (blake2s_core_update core data)) (core_t (blake2s_core_update core data))
           (blake2s_pending (blake2s_core_update core data) @ x)
       = b2_absorb (core_h core) (core_t core) (blake2s_pending core @ data @ x)
    \<and> blake2s_core_ok (blake2s_core_update core data)"
  using assms
proof (induction core data rule: blake2s_core_update.induct)
  case (1 core data)
  show ?case
  proof (cases "data = []")
    case True
    then show ?thesis using 1(2) by (simp add: blake2s_core_update.simps)
  next
    case False
    define f where "f = blake2s_core_fill (blake2s_core_flush core) data"
    note fl = flush_absorb [OF 1(2), of "data @ x"]
    note fi = fill_absorb [OF fl(2), of data, folded f_def] fill_fields [of "blake2s_core_flush core" data, folded f_def]
      fill_pend(3) [OF fl(2), of data, folded f_def]
    have u: "blake2s_core_update core data = blake2s_core_update (fst f) (snd f)"
      using False 1(2) unfolding f_def by (subst blake2s_core_update.simps) (simp add: Let_def)
    have "b2_absorb (core_h (fst f)) (core_t (fst f)) (blake2s_pending (fst f) @ snd f @ x)
        = b2_absorb (core_h core) (core_t core) (blake2s_pending core @ data @ x)"
      using fl(1) fi False by (metis append_assoc append_is_Nil_conv)
    with 1(1) [of f] 1(2) False fi f_def u show ?thesis by simp
  qed
qed

lemma fold_update_absorb:
  assumes "blake2s_core_ok core"
  shows "b2_absorb (core_h (fold (\<lambda>part h. blake2s_core_update h part) parts core))
           (core_t (fold (\<lambda>part h. blake2s_core_update h part) parts core))
           (blake2s_pending (fold (\<lambda>part h. blake2s_core_update h part) parts core) @ x)
       = b2_absorb (core_h core) (core_t core) (blake2s_pending core @ concat parts @ x)
    \<and> blake2s_core_ok (fold (\<lambda>part h. blake2s_core_update h part) parts core)"
  using assms
  by (induction parts arbitrary: core) (simp_all add: update_absorb)

lemma finalize_absorb:
  assumes "blake2s_core_ok core"
  shows "blake2s_core_finalize core = b2_absorb (core_h core) (core_t core) (blake2s_pending core)"
proof -
  have "length (blake2s_pending core) = core_buf_len core" "core_buf_len core \<le> 64" "length (core_buf core) = 64"
    using assms by (simp_all add: blake2s_core_ok_def blake2s_pending_def)
  then show ?thesis
    by (simp add: blake2s_core_finalize_def Let_def b2_absorb.simps blake2s_pending_def [symmetric])
qed

lemma length_finalize [simp, len_simps]:
  "blake2s_core_ok core \<Longrightarrow> length (blake2s_core_finalize core) = 32"
  by (simp add: blake2s_core_finalize_def blake2s_core_ok_def Let_def length_concat_words)

lemma core_new_ok: "length key \<le> 64 \<Longrightarrow> blake2s_core_ok (blake2s_core_new n key)"
  by (simp add: blake2s_core_ok_def blake2s_core_new_def Let_def blake2s_IV_def zip_copy_def)

lemma finalize_fold_new:
  assumes "length key \<le> 64"
  shows "blake2s_core_finalize (fold (\<lambda>part h. blake2s_core_update h part) parts (blake2s_core_new n key))
    = b2_absorb (blake2s_IV[0 := blake2s_IV ! 0 XOR
                    (0x01010000 XOR push_bit 8 (of_nat (length key)) XOR of_nat n)]) 0
          ((if key = [] then [] else key @ replicate (64 - length key) 0) @ concat parts)"
proof -
  note f = fold_update_absorb [OF core_new_ok [OF assms, of n], of parts "[]"]
  show ?thesis
    using f assms finalize_absorb
    by (simp add: blake2s_core_new_def blake2s_pending_def Let_def zip_copy_def split: if_splits)
qed

lemma finalize_new_length:
  "length key \<le> 64 \<Longrightarrow>
     length (blake2s_core_finalize (fold (\<lambda>part h. blake2s_core_update h part) parts (blake2s_core_new n key))) = 32"
  using fold_update_absorb [OF core_new_ok [of key n], of parts "[]"] by simp

lemma blake2s_hash_spec: "blake2s_hash parts = b2_spec 32 [] (concat parts)"
  using finalize_fold_new [of "[]" parts 32] finalize_new_length [of "[]" parts 32]
  by (simp add: blake2s_hash_def b2_spec_def blake2s256_new_def)

lemma length_blake2s_hash [simp, len_simps]: "length (blake2s_hash parts) = 32"
  using finalize_new_length [of "[]" parts 32] by (simp add: blake2s_hash_def blake2s256_new_def)

lemma blake2s_update_hash: "blake2s_core_finalize (blake2s_core_update blake2s256_new x) = blake2s_hash [x]"
  by (simp add: blake2s_hash_def)

lemma mac_core_spec:
  assumes "length key \<le> 64"
  shows "blake2s_mac_finalize (fold (\<lambda>part h. blake2s_core_update h part) parts (blake2s_core_new 16 key))
    = b2_spec 16 key (concat parts)"
  using finalize_fold_new [OF assms, of parts 16] finalize_new_length [OF assms, of parts 16]
  by (simp add: blake2s_mac_finalize_def b2_spec_def zip_copy_def)

lemma blake2s_mac_spec:
  "blake2s_mac key parts =
     b2_spec 16 (if length key \<le> 32 then key else b2_spec 32 [] key) (concat parts)"
  using mac_core_spec [of key parts] mac_core_spec [of "blake2s_hash [key]" parts]
  by (simp add: blake2s_mac_def blake2s_mac_new_def blake2s_update_hash blake2s_hash_spec [symmetric]) (simp add: blake2s_hash_spec)

lemma length_blake2s_mac [simp, len_simps]: "length (blake2s_mac key parts) = 16"
proof -
  have "length (blake2s_mac_finalize core) = 16" for core
    by (simp add: blake2s_mac_finalize_def zip_copy_def)
  then show ?thesis by (simp add: blake2s_mac_def)
qed

subsection \<open>Properties\<close>

text \<open>C29: the streaming hash is BLAKE2s. However the input is cut into parts, and however they fall
  on the 64-byte buffer, \<open>hash\<close> and the keyed \<open>mac\<close> return what the whole-message definition
  of RFC 7693 gives on the concatenated input (a key longer than 32 bytes is hashed first).\<close>

theorem blake2s_streaming_correct:
  "blake2s_hash parts = b2_spec 32 [] (concat parts)
   \<and> blake2s_mac key parts =
       b2_spec 16 (if length key \<le> 32 then key else b2_spec 32 [] key) (concat parts)"
  by (rule conjI [OF blake2s_hash_spec blake2s_mac_spec])

end
