(* ===== verification/Kdf.thy ===== *)
theory Kdf
  imports Blake2s
begin

text \<open>
  \<open>src/src/crypto/kdf.rs\<close>: HMAC over BLAKE2s-256 and the \<open>Kdf_n\<close> chain.
\<close>

definition HMAC_BLOCK :: nat where
  "HMAC_BLOCK = 64"

definition hmac :: "bytes \<Rightarrow> bytes list \<Rightarrow> bytes" where
  "hmac key parts =
     (let k_block =
            (if length key > HMAC_BLOCK then
               zip_copy (replicate HMAC_BLOCK 0)
                 (blake2s_core_finalize (blake2s_core_update blake2s256_new key))
             else zip_copy (replicate HMAC_BLOCK 0) key);
          ipad = map (\<lambda>k. k XOR 0x36) k_block;
          opad = map (\<lambda>k. k XOR 0x5c) k_block;
          inner = blake2s_core_update blake2s256_new ipad;
          inner = fold (\<lambda>part h. blake2s_core_update h part) parts inner;
          inner_digest = blake2s_core_finalize inner;
          outer = blake2s_core_update blake2s256_new opad;
          outer = blake2s_core_update outer inner_digest
      in blake2s_core_finalize outer)"

definition kdf1 :: "bytes \<Rightarrow> bytes \<Rightarrow> bytes" where
  "kdf1 key input = (let t0 = hmac key [input] in hmac t0 [ [0x01] ])"

definition kdf2 :: "bytes \<Rightarrow> bytes \<Rightarrow> bytes \<times> bytes" where
  "kdf2 key input =
     (let t0 = hmac key [input];
          t1 = hmac t0 [ [0x01] ];
          t2 = hmac t0 [t1, [0x02]]
      in (t1, t2))"

definition kdf3 :: "bytes \<Rightarrow> bytes \<Rightarrow> bytes \<times> bytes \<times> bytes" where
  "kdf3 key input =
     (let t0 = hmac key [input];
          t1 = hmac t0 [ [0x01] ];
          t2 = hmac t0 [t1, [0x02]];
          t3 = hmac t0 [t2, [0x03]]
      in (t1, t2, t3))"

subsection \<open>HMAC\<close>

definition hmac_spec :: "bytes \<Rightarrow> bytes \<Rightarrow> bytes" where
  "hmac_spec key msg =
     (let k = (if length key > 64 then b2_spec 32 [] key else key);
          k = k @ replicate (64 - length k) 0;
          H = b2_spec 32 []
      in H (map (\<lambda>b. b XOR 0x5c) k @ H (map (\<lambda>b. b XOR 0x36) k @ msg)))"

lemma hmac_spec_eq: "hmac key parts = hmac_spec key (concat parts)"
proof -
  have f: "blake2s_core_finalize (fold (\<lambda>part h. blake2s_core_update h part) ps (blake2s_core_update blake2s256_new a))
     = b2_spec 32 [] (a @ concat ps)" for ps a
    using blake2s_hash_spec [of "a # ps"] by (simp add: blake2s_hash_def)
  have g: "blake2s_core_finalize (blake2s_core_update (blake2s_core_update blake2s256_new a) b)
     = b2_spec 32 [] (a @ b)" for a b
    using f [of "[b]" a] by simp
  have h: "blake2s_core_finalize (blake2s_core_update blake2s256_new a) = b2_spec 32 [] a" for a
    using f [of "[]" a] by simp
  have "length (b2_spec 32 [] key) = 32"
    using blake2s_hash_spec [of "[key]"] length_blake2s_hash [of "[key]"] by simp
  then show ?thesis
    by (simp add: hmac_def hmac_spec_def HMAC_BLOCK_def f g h Let_def zip_copy_def)
qed

lemma length_hmac [simp, len_simps]: "length (hmac key parts) = 32"
proof -
  have "length (b2_spec 32 [] m) = 32" for m
    using blake2s_hash_spec [of "[m]"] length_blake2s_hash [of "[m]"] by simp
  then show ?thesis by (simp add: hmac_spec_eq hmac_spec_def Let_def)
qed

subsection \<open>Properties\<close>

text \<open>C30: \<open>hmac\<close> is HMAC (RFC 2104) over BLAKE2s-256 of the concatenated parts, and the
  three \<open>kdf\<close> functions return the first one, two and three blocks of the same HKDF-style chain,
  in which every block is the HMAC, under the extracted key, of the previous block and its number.\<close>

theorem kdf_chain_correct:
  "hmac key parts = hmac_spec key (concat parts)
   \<and> (let prk = hmac_spec key input;
          t1 = hmac_spec prk [1]; t2 = hmac_spec prk (t1 @ [2]); t3 = hmac_spec prk (t2 @ [3])
      in kdf1 key input = t1 \<and> kdf2 key input = (t1, t2) \<and> kdf3 key input = (t1, t2, t3))"
  by (simp add: hmac_spec_eq kdf1_def kdf2_def kdf3_def Let_def)

lemma length_kdf [simp, len_simps]:
  "length (kdf1 key input) = 32"
  "kdf2 key input = (a, b) \<Longrightarrow> length a = 32 \<and> length b = 32"
  "kdf3 key input = (a, b, c) \<Longrightarrow> length a = 32 \<and> length b = 32 \<and> length c = 32"
  by (auto simp: kdf1_def kdf2_def kdf3_def Let_def)

end
