(* ===== verification/Entropy.thy ===== *)
theory Entropy
  imports Wg_Error ChaCha20
begin

text \<open>
  \<open>src/src/entropy.rs\<close> and \<open>src/src/testing.rs\<close>. An entropy source is supplied by
  the caller; the model takes its \<open>fill\<close> function as an argument: from a source state
  and a length it gives the bytes, or \<open>None\<close> for \<open>EntropyError\<close>, and the next source
  state. The locale \<open>entropy_source\<close> holds the one law the library relies on (a
  successful \<open>fill\<close> fills the buffer completely); it is interpreted on the in-tree
  deterministic and failing generators.
\<close>

type_synonym 'r fill = "'r \<Rightarrow> nat \<Rightarrow> bytes option \<times> 'r"

definition gen32 :: "'r fill \<Rightarrow> 'r \<Rightarrow> bytes option \<times> 'r" where
  "gen32 fill rng = fill rng 32"

text \<open>\<open>map_err(|_| Error::EntropyFailure)\<close>.\<close>

definition entropy_result :: "bytes option \<times> 'r \<Rightarrow> bytes result \<times> 'r" where
  "entropy_result r = (ok_or EntropyFailure (fst r), snd r)"

locale entropy_source =
  fixes fill :: "'r fill"
  assumes fill_length: "fill rng n = (Some bs, rng') \<Longrightarrow> length bs = n"
begin

lemma gen32_length: "gen32 fill rng = (Some bs, rng') \<Longrightarrow> length bs = 32"
  by (simp add: gen32_def fill_length)

lemma entropy_result_length: "entropy_result (fill rng n) = (Inr bs, rng') \<Longrightarrow> length bs = n"
  by (cases "fill rng n"; cases "fst (fill rng n)") (auto simp: entropy_result_def fill_length)

end

subsection \<open>The in-tree generators\<close>

record deterministic_rng =
  drng_key :: bytes
  drng_counter :: u32
  drng_block :: bytes
  drng_used :: nat

definition deterministic_rng_new :: "u64 \<Rightarrow> deterministic_rng" where
  "deterministic_rng_new seed =
     \<lparr> drng_key = concat (map (\<lambda>i. le_bytes 8 (seed * i)) [1, 2, 3, 4]),
       drng_counter = 0, drng_block = replicate 64 0, drng_used = 64 \<rparr>"

definition next_byte :: "deterministic_rng \<Rightarrow> u8 \<times> deterministic_rng" where
  "next_byte r =
     (let r = (if drng_used r \<ge> 64
               then r\<lparr> drng_block := chacha_block (drng_key r) (drng_counter r) (replicate 12 0),
                       drng_counter := drng_counter r + 1, drng_used := 0 \<rparr>
               else r);
          b = (if drng_used r < length (drng_block r) then drng_block r ! drng_used r else 0)
      in (b, r\<lparr> drng_used := saturating_add_usize (drng_used r) 1 \<rparr>))"

fun next_bytes :: "deterministic_rng \<Rightarrow> nat \<Rightarrow> bytes \<times> deterministic_rng" where
  "next_bytes r 0 = ([], r)"
| "next_bytes r (Suc n) =
     (let (b, r) = next_byte r; (bs, r) = next_bytes r n in (b # bs, r))"

definition next_u64 :: "deterministic_rng \<Rightarrow> u64 \<times> deterministic_rng" where
  "next_u64 r = (let (bs, r) = next_bytes r 8 in (from_le bs, r))"

definition deterministic_fill :: "deterministic_rng fill" where
  "deterministic_fill r n = (let (bs, r) = next_bytes r n in (Some bs, r))"

definition failing_fill :: "unit fill" where
  "failing_fill r n = (None, r)"

lemma length_next_bytes: "length (fst (next_bytes r n)) = n"
  by (induction n arbitrary: r) (simp_all add: Let_def case_prod_beta)

interpretation drng: entropy_source deterministic_fill
  by unfold_locales
    (auto simp: deterministic_fill_def Let_def case_prod_beta length_next_bytes)

interpretation frng: entropy_source failing_fill
  by unfold_locales (simp add: failing_fill_def)

end
