(* ===== verification/X25519.thy ===== *)
theory X25519
  imports Wg_Error Ct
begin

text \<open>
  \<open>src/src/crypto/x25519.rs\<close>: field arithmetic modulo \<open>2^255 - 19\<close> in radix
  \<open>2^51\<close> (five \<open>u64\<close> limbs, \<open>u128\<close> accumulators) and the Montgomery ladder.
\<close>

definition MASK :: u64 where
  "MASK = push_bit 51 1 - 1"
definition TWO_P0 :: u64 where
  "TWO_P0 = 0x000fffffffffffda"
definition TWO_P1234 :: u64 where
  "TWO_P1234 = 0x000ffffffffffffe"

definition mul_wide :: "u64 \<Rightarrow> u64 \<Rightarrow> u128" where
  "mul_wide x y = ucast x * ucast y"

datatype fe = Fe u64 u64 u64 u64 u64

definition fe_ZERO :: fe where "fe_ZERO = Fe 0 0 0 0 0"
definition fe_ONE :: fe where "fe_ONE = Fe 1 0 0 0 0"

definition fe_from_bytes :: "bytes \<Rightarrow> fe" where
  "fe_from_bytes bs =
     (let q = zip_copy (replicate 4 0) (map from_le (chunks_exact 8 bs));
          t0 = q ! 0; t1 = q ! 1; t2 = q ! 2; t3 = q ! 3
      in Fe (t0 AND MASK)
            ((drop_bit 51 t0 OR push_bit 13 t1) AND MASK)
            ((drop_bit 38 t1 OR push_bit 26 t2) AND MASK)
            ((drop_bit 25 t2 OR push_bit 39 t3) AND MASK)
            (drop_bit 12 t3 AND MASK))"

text \<open>The three parts of \<open>to_bytes\<close>: the carry pass, the conditional subtraction of \<open>p\<close>,
  and the packing into four words.\<close>

definition fe_tighten :: "fe \<Rightarrow> fe" where
  "fe_tighten a =
     (case a of Fe l0 l1 l2 l3 l4 \<Rightarrow>
        let c = drop_bit 51 l0; l0 = l0 AND MASK;
            l1 = l1 + c; c = drop_bit 51 l1; l1 = l1 AND MASK;
            l2 = l2 + c; c = drop_bit 51 l2; l2 = l2 AND MASK;
            l3 = l3 + c; c = drop_bit 51 l3; l3 = l3 AND MASK;
            l4 = l4 + c; c = drop_bit 51 l4; l4 = l4 AND MASK;
            l0 = l0 + c * 19; c = drop_bit 51 l0; l0 = l0 AND MASK;
            l1 = l1 + c
        in Fe l0 l1 l2 l3 l4)"

definition fe_canonical :: "fe \<Rightarrow> fe" where
  "fe_canonical a =
     (case a of Fe l0 l1 l2 l3 l4 \<Rightarrow>
        let q = drop_bit 51 (l0 + 19);
            q = drop_bit 51 (l1 + q);
            q = drop_bit 51 (l2 + q);
            q = drop_bit 51 (l3 + q);
            q = drop_bit 51 (l4 + q);
            l0 = l0 + q * 19; c = drop_bit 51 l0; l0 = l0 AND MASK;
            l1 = l1 + c; c = drop_bit 51 l1; l1 = l1 AND MASK;
            l2 = l2 + c; c = drop_bit 51 l2; l2 = l2 AND MASK;
            l3 = l3 + c; c = drop_bit 51 l3; l3 = l3 AND MASK;
            l4 = l4 + c; l4 = l4 AND MASK
        in Fe l0 l1 l2 l3 l4)"

definition fe_pack :: "fe \<Rightarrow> bytes" where
  "fe_pack a =
     (case a of Fe l0 l1 l2 l3 l4 \<Rightarrow>
        concat (map (le_bytes 8)
          [l0 OR push_bit 51 l1,
           drop_bit 13 l1 OR push_bit 38 l2,
           drop_bit 26 l2 OR push_bit 25 l3,
           drop_bit 39 l3 OR push_bit 12 l4]))"

definition fe_to_bytes :: "fe \<Rightarrow> bytes" where
  "fe_to_bytes a = fe_pack (fe_canonical (fe_tighten a))"

fun fe_add :: "fe \<Rightarrow> fe \<Rightarrow> fe" where
  "fe_add (Fe a0 a1 a2 a3 a4) (Fe b0 b1 b2 b3 b4) =
     Fe (a0 + b0) (a1 + b1) (a2 + b2) (a3 + b3) (a4 + b4)"

fun fe_sub :: "fe \<Rightarrow> fe \<Rightarrow> fe" where
  "fe_sub (Fe a0 a1 a2 a3 a4) (Fe b0 b1 b2 b3 b4) =
     Fe (a0 + TWO_P0 - b0) (a1 + TWO_P1234 - b1) (a2 + TWO_P1234 - b2)
        (a3 + TWO_P1234 - b3) (a4 + TWO_P1234 - b4)"

definition fe_carry :: "u128 \<Rightarrow> u128 \<Rightarrow> u128 \<Rightarrow> u128 \<Rightarrow> u128 \<Rightarrow> fe" where
  "fe_carry t0 t1 t2 t3 t4 =
     (let t1 = t1 + drop_bit 51 t0; r0 = ucast t0 AND MASK;
          t2 = t2 + drop_bit 51 t1; r1 = ucast t1 AND MASK;
          t3 = t3 + drop_bit 51 t2; r2 = ucast t2 AND MASK;
          t4 = t4 + drop_bit 51 t3; r3 = ucast t3 AND MASK;
          c4 = ucast (drop_bit 51 t4); r4 = ucast t4 AND MASK;
          r0 = r0 + c4 * 19; c = drop_bit 51 r0; r0 = r0 AND MASK;
          r1 = r1 + c
      in Fe r0 r1 r2 r3 r4)"

fun fe_mul :: "fe \<Rightarrow> fe \<Rightarrow> fe" where
  "fe_mul (Fe a0 a1 a2 a3 a4) (Fe b0 b1 b2 b3 b4) =
     (let b1_19 = b1 * 19; b2_19 = b2 * 19; b3_19 = b3 * 19; b4_19 = b4 * 19; m = mul_wide
      in fe_carry
           (m a0 b0 + m a1 b4_19 + m a2 b3_19 + m a3 b2_19 + m a4 b1_19)
           (m a0 b1 + m a1 b0 + m a2 b4_19 + m a3 b3_19 + m a4 b2_19)
           (m a0 b2 + m a1 b1 + m a2 b0 + m a3 b4_19 + m a4 b3_19)
           (m a0 b3 + m a1 b2 + m a2 b1 + m a3 b0 + m a4 b4_19)
           (m a0 b4 + m a1 b3 + m a2 b2 + m a3 b1 + m a4 b0))"

fun fe_square :: "fe \<Rightarrow> fe" where
  "fe_square (Fe a0 a1 a2 a3 a4) =
     (let d0 = a0 * 2; d1 = a1 * 2; d2 = a2 * 2; d3 = a3 * 2;
          a3_19 = a3 * 19; a4_19 = a4 * 19; m = mul_wide
      in fe_carry
           (m a0 a0 + m d1 a4_19 + m d2 a3_19)
           (m d0 a1 + m d2 a4_19 + m a3 a3_19)
           (m d0 a2 + m a1 a1 + m d3 a4_19)
           (m d0 a3 + m d1 a2 + m a4 a4_19)
           (m d0 a4 + m d1 a3 + m a2 a2))"

fun fe_mul_small :: "fe \<Rightarrow> u32 \<Rightarrow> fe" where
  "fe_mul_small (Fe a0 a1 a2 a3 a4) k =
     (let k' = ucast k; m = mul_wide
      in fe_carry (m a0 k') (m a1 k') (m a2 k') (m a3 k') (m a4 k'))"

definition nsquare :: "fe \<Rightarrow> nat \<Rightarrow> fe" where
  "nsquare x n = (fe_square ^^ n) x"

definition fe_invert :: "fe \<Rightarrow> fe" where
  "fe_invert z =
     (let z2 = fe_square z;
          z9 = fe_mul (nsquare z2 2) z;
          z11 = fe_mul z9 z2;
          z_5_0 = fe_mul (fe_square z11) z9;
          z_10_0 = fe_mul (nsquare z_5_0 5) z_5_0;
          z_20_0 = fe_mul (nsquare z_10_0 10) z_10_0;
          z_40_0 = fe_mul (nsquare z_20_0 20) z_20_0;
          z_50_0 = fe_mul (nsquare z_40_0 10) z_10_0;
          z_100_0 = fe_mul (nsquare z_50_0 50) z_50_0;
          z_200_0 = fe_mul (nsquare z_100_0 100) z_100_0;
          z_250_0 = fe_mul (nsquare z_200_0 50) z_50_0
      in fe_mul (nsquare z_250_0 5) z11)"

definition cswap_limb :: "u64 \<Rightarrow> u64 \<Rightarrow> u64 \<Rightarrow> u64 \<times> u64" where
  "cswap_limb msk x y = (let t = msk AND (x XOR y) in (x XOR t, y XOR t))"

fun fe_cswap :: "u64 \<Rightarrow> fe \<Rightarrow> fe \<Rightarrow> fe \<times> fe" where
  "fe_cswap swap (Fe a0 a1 a2 a3 a4) (Fe b0 b1 b2 b3 b4) =
     (let msk = 0 - swap;
          (x0, y0) = cswap_limb msk a0 b0;
          (x1, y1) = cswap_limb msk a1 b1;
          (x2, y2) = cswap_limb msk a2 b2;
          (x3, y3) = cswap_limb msk a3 b3;
          (x4, y4) = cswap_limb msk a4 b4
      in (Fe x0 x1 x2 x3 x4, Fe y0 y1 y2 y3 y4))"

definition clamp_scalar :: "bytes \<Rightarrow> bytes" where
  "clamp_scalar scalar =
     (let s = (case scalar of [] \<Rightarrow> [] | b # bs \<Rightarrow> (b AND 248) # bs)
      in if s = [] then s else butlast s @ [(last s AND 127) OR 64])"

text \<open>The ladder: \<open>(x2, z2, x3, z3, swap)\<close> is the loop state and the loop counts \<open>t\<close>
  down from 255.\<close>

type_synonym ladder = "fe \<times> fe \<times> fe \<times> fe \<times> u64"

definition ladder_step :: "fe \<Rightarrow> u64 \<Rightarrow> ladder \<Rightarrow> ladder" where
  "ladder_step x1 bt st =
     (let (x2, z2, x3, z3, swap) = st;
          swap = swap XOR bt;
          (x2, x3) = fe_cswap swap x2 x3;
          (z2, z3) = fe_cswap swap z2 z3;
          swap = bt;
          a = fe_add x2 z2; aa = fe_square a;
          b = fe_sub x2 z2; bb = fe_square b;
          e = fe_sub aa bb;
          c = fe_add x3 z3; d = fe_sub x3 z3;
          da = fe_mul d a; cb = fe_mul c b;
          x3 = fe_square (fe_add da cb);
          z3 = fe_mul x1 (fe_square (fe_sub da cb));
          x2 = fe_mul aa bb;
          z2 = fe_mul e (fe_add aa (fe_mul_small e 121665))
      in (x2, z2, x3, z3, swap))"

definition scalar_bit :: "bytes \<Rightarrow> nat \<Rightarrow> u64" where
  "scalar_bit k t =
     (let byte = (if t div 8 < length k then k ! (t div 8) else 0)
      in ucast (drop_bit (t mod 8) byte AND 1))"

fun ladder_loop :: "bytes \<Rightarrow> fe \<Rightarrow> nat \<Rightarrow> ladder \<Rightarrow> ladder" where
  "ladder_loop k x1 0 st = st"
| "ladder_loop k x1 (Suc t) st = ladder_loop k x1 t (ladder_step x1 (scalar_bit k t) st)"

definition x25519 :: "bytes \<Rightarrow> bytes \<Rightarrow> bytes" where
  "x25519 scalar u =
     (let k = clamp_scalar scalar;
          x1 = fe_from_bytes u;
          (x2, z2, x3, z3, swap) = ladder_loop k x1 255 (fe_ONE, fe_ZERO, x1, fe_ONE, 0);
          (x2, x3) = fe_cswap swap x2 x3;
          (z2, z3) = fe_cswap swap z2 z3
      in fe_to_bytes (fe_mul x2 (fe_invert z2)))"

definition BASEPOINT :: bytes where
  "BASEPOINT = 9 # replicate 31 0"

definition x25519_base :: "bytes \<Rightarrow> bytes" where
  "x25519_base scalar = x25519 scalar BASEPOINT"

definition shared_secret :: "bytes \<Rightarrow> bytes \<Rightarrow> bytes result" where
  "shared_secret private peer_public =
     (let out = x25519 private peer_public
      in if ct_is_zero out then Inl InvalidPublicKey else Inr out)"

lemma length_fe_pack [simp]: "length (fe_pack a) = 32"
  by (cases a) (simp add: fe_pack_def)

lemma length_x25519 [simp, len_simps]: "length (x25519 scalar u) = 32"
  by (simp add: x25519_def Let_def case_prod_beta fe_to_bytes_def)

end
