(* ===== verification/Keys.thy ===== *)
theory Keys
  imports Entropy X25519
begin

text \<open>
  \<open>src/src/keys.rs\<close>: static secrets, public keys and pre-shared keys. The newtypes are
  their 32 bytes. \<open>Debug\<close> output is the string written; \<open>drop\<close> gives the bytes left in memory.
\<close>

definition hex_digit :: "nat \<Rightarrow> char" where
  "hex_digit n = ''0123456789abcdef'' ! n"

definition write_hex :: "bytes \<Rightarrow> string" where
  "write_hex bs = concat (map (\<lambda>b. [hex_digit (unat b div 16), hex_digit (unat b mod 16)]) bs)"

definition static_secret_from_bytes :: "bytes \<Rightarrow> bytes" where
  "static_secret_from_bytes bs = bs"

definition static_secret_debug :: "bytes \<Rightarrow> string" where
  "static_secret_debug secret = ''StaticSecret(REDACTED)''"

definition static_secret_drop :: "bytes \<Rightarrow> bytes" where
  "static_secret_drop secret = wipe secret"

definition public_key_from_bytes :: "bytes \<Rightarrow> bytes" where
  "public_key_from_bytes bs = bs"

definition public_key_debug :: "bytes \<Rightarrow> string" where
  "public_key_debug key = ''PublicKey('' @ write_hex key @ '')''"

definition preshared_key_default :: bytes where
  "preshared_key_default = replicate 32 0"

definition preshared_key_from_bytes :: "bytes \<Rightarrow> bytes" where
  "preshared_key_from_bytes bs = bs"

definition preshared_key_debug :: "bytes \<Rightarrow> string" where
  "preshared_key_debug key = ''PresharedKey(REDACTED)''"

definition preshared_key_drop :: "bytes \<Rightarrow> bytes" where
  "preshared_key_drop key = wipe key"

definition static_secret_generate :: "'r fill \<Rightarrow> 'r \<Rightarrow> bytes result \<times> 'r" where
  "static_secret_generate fill rng =
     (let (r, rng) = entropy_result (gen32 fill rng)
      in (and_then r (\<lambda>bs. Inr (clamp_scalar bs)), rng))"

definition public_key :: "bytes \<Rightarrow> bytes" where
  "public_key secret = x25519_base secret"

definition preshared_key_generate :: "'r fill \<Rightarrow> 'r \<Rightarrow> bytes result \<times> 'r" where
  "preshared_key_generate fill rng = entropy_result (gen32 fill rng)"

text \<open>The printed form of a public key determines it; that of a secret says nothing about it, and a
  dropped secret leaves zeros.\<close>

lemma hex_digit_inj: "m < 16 \<Longrightarrow> n < 16 \<Longrightarrow> hex_digit m = hex_digit n \<longleftrightarrow> m = n"
  unfolding hex_digit_def by (subst nth_eq_iff_index_eq) simp_all

lemma hex_byte_inj:
  "hex_digit (unat a div 16) = hex_digit (unat b div 16) \<and> hex_digit (unat a mod 16) = hex_digit (unat b mod 16) \<longleftrightarrow> a = (b :: u8)"
proof -
  have l: "unat a div 16 < 16" "unat b div 16 < 16" using unat_less_exp [of a] unat_less_exp [of b] by simp_all
  have "unat a = unat b" if "unat a div 16 = unat b div 16" "unat a mod 16 = unat b mod 16"
    using that by (metis div_mult_mod_eq)
  then show ?thesis using l by (auto simp: hex_digit_inj word_unat_eq_iff)
qed

lemma write_hex_inj: "write_hex a = write_hex b \<longleftrightarrow> a = b"
proof (induction a arbitrary: b)
  case Nil
  then show ?case by (cases b) (simp_all add: write_hex_def)
next
  case (Cons x a)
  then show ?case by (cases b) (auto simp: write_hex_def hex_byte_inj [symmetric])
qed

lemma public_key_debug_inj: "public_key_debug a = public_key_debug b \<longleftrightarrow> a = b"
  by (simp add: public_key_debug_def write_hex_inj)

lemma secrets_hidden:
  "static_secret_debug a = static_secret_debug b" "preshared_key_debug a = preshared_key_debug b"
  "static_secret_drop a = replicate (length a) 0" "preshared_key_drop a = replicate (length a) 0"
  by (simp_all add: static_secret_debug_def preshared_key_debug_def static_secret_drop_def preshared_key_drop_def wipe_zero)

end
