(* ===== verification/Wg_Time.thy ===== *)
theory Wg_Time
  imports Wg_Consts "HOL-Library.List_Lexorder"
begin

text \<open>
  \<open>src/src/time.rs\<close>: monotonic instants with saturating arithmetic, the caller's reading
  of "now", and TAI64N timestamps ordered by their big-endian bytes.
\<close>

subsection \<open>Ticks\<close>

type_synonym ticks = u64

definition ticks_from_secs :: "u64 \<Rightarrow> ticks" where
  "ticks_from_secs secs = saturating_mul secs 1000000000"

definition add_nanos :: "ticks \<Rightarrow> u64 \<Rightarrow> ticks" where
  "add_nanos t nanos = saturating_add t nanos"

definition since :: "ticks \<Rightarrow> ticks \<Rightarrow> u64" where
  "since t earlier = saturating_sub t earlier"

definition ticks_min :: "ticks \<Rightarrow> ticks \<Rightarrow> ticks" where
  "ticks_min t u = (if t \<le> u then t else u)"

record now =
  now_ticks :: ticks
  unix_secs :: u64
  unix_nanos :: u32

definition now_new :: "u64 \<Rightarrow> u64 \<Rightarrow> u32 \<Rightarrow> now" where
  "now_new mono_nanos secs nanos =
     \<lparr> now_ticks = mono_nanos, unix_secs = secs,
       unix_nanos = (if nanos > 999999999 then 999999999 else nanos) \<rparr>"

subsection \<open>TAI64N\<close>

datatype tai64n = Tai64N (tai_bytes: bytes)

instantiation tai64n :: linorder
begin

definition less_eq_tai64n :: "tai64n \<Rightarrow> tai64n \<Rightarrow> bool" where
  "less_eq_tai64n s t = (tai_bytes s \<le> tai_bytes t)"

definition less_tai64n :: "tai64n \<Rightarrow> tai64n \<Rightarrow> bool" where
  "less_tai64n s t = (tai_bytes s < tai_bytes t)"

instance
  by standard (auto simp: less_eq_tai64n_def less_tai64n_def tai64n.expand)

end

definition TAI64_UNIX_BASE :: u64 where
  "TAI64_UNIX_BASE = 0x400000000000000a"

definition NANOS_WHITENER_MASK :: u32 where
  "NANOS_WHITENER_MASK = NOT 0x00ffffff"

definition tai64n_from_unix :: "u64 \<Rightarrow> u32 \<Rightarrow> tai64n" where
  "tai64n_from_unix secs nanos =
     (let s = saturating_add TAI64_UNIX_BASE secs;
          n = (nanos AND NANOS_WHITENER_MASK) mod 1000000000
      in Tai64N (be_bytes 8 s @ be_bytes 4 n))"

definition now_tai64n :: "now \<Rightarrow> tai64n" where
  "now_tai64n t = tai64n_from_unix (unix_secs t) (unix_nanos t)"

text \<open>The loop of \<open>tick\<close> over the reversed bytes; the flag says that it ran off the end
  with the carry still set.\<close>

fun tick_loop :: "bytes \<Rightarrow> bytes \<times> bool" where
  "tick_loop [] = ([], True)"
| "tick_loop (b # bs) =
     (let (next, carry) = overflowing_add b 1
      in if \<not> carry then (next # bs, False)
         else let (bs', c) = tick_loop bs in (next # bs', c))"

definition tai64n_tick :: "tai64n \<Rightarrow> tai64n" where
  "tai64n_tick t =
     (let (bs, carry) = tick_loop (rev (tai_bytes t))
      in if carry then Tai64N (replicate 12 0xff) else Tai64N (rev bs))"

text \<open>The 96-bit number a timestamp denotes.\<close>

definition tai_nat :: "tai64n \<Rightarrow> nat" where
  "tai_nat t = le_nat (rev (tai_bytes t))"

abbreviation tai_wf :: "tai64n \<Rightarrow> bool" where
  "tai_wf t \<equiv> length (tai_bytes t) = 12"

subsection \<open>Lemmas\<close>

lemma since_nat: "unat (since t e) = unat t - unat e"
  by (simp add: since_def saturating_sub_nat)

lemma add_nanos_nat: "unat (add_nanos t d) = min (2 ^ 64 - 1) (unat t + unat d)"
  by (simp add: add_nanos_def saturating_add_nat)

lemma since_ge_iff: "d \<le> since t e \<longleftrightarrow> unat d \<le> unat t - unat e"
  by (simp add: word_le_nat_alt since_nat)

text \<open>A deadline \<open>e + d\<close> has passed exactly when \<open>d\<close> nanoseconds have elapsed since
  \<open>e\<close>, unless the sum saturated.\<close>

lemma deadline_passed_iff:
  assumes "unat e + unat d < 2 ^ 64" and "0 < d"
  shows "add_nanos e d \<le> t \<longleftrightarrow> d \<le> since t e"
proof -
  have "0 < unat d" using assms(2) by (simp add: unat_gt_0)
  then show ?thesis
    using assms by (auto simp: word_le_nat_alt since_nat add_nanos_nat)
qed

lemma lex_less_be:
  "length xs = length ys \<Longrightarrow> xs < ys \<longleftrightarrow> le_nat (rev xs) < le_nat (rev ys)"
proof (induction xs ys rule: list_induct2)
  case (Cons x xs y ys)
  have b: "le_nat (rev xs) < 256 ^ length ys" "le_nat (rev ys) < 256 ^ length ys"
    using le_nat_less [of "rev xs"] le_nat_less [of "rev ys"] Cons.hyps by simp_all
  have "le_nat (rev xs) + 256 ^ length ys * unat x < le_nat (rev ys) + 256 ^ length ys * unat y
     \<longleftrightarrow> unat x < unat y \<or> (unat x = unat y \<and> le_nat (rev xs) < le_nat (rev ys))"
    using b by (rule digits_less)
  with Cons show ?case
    by (auto simp: le_nat_append word_less_nat_alt word_unat_eq_iff)
qed simp

lemma tai_less_iff: "tai_wf s \<Longrightarrow> tai_wf t \<Longrightarrow> s < t \<longleftrightarrow> tai_nat s < tai_nat t"
  by (simp add: less_tai64n_def tai_nat_def lex_less_be)

lemma tai_nat_less: "tai_wf t \<Longrightarrow> tai_nat t < 2 ^ 96"
  using le_nat_less [of "rev (tai_bytes t)"] by (simp add: tai_nat_def)

lemma tick_loop_length: "length (fst (tick_loop bs)) = length bs"
  by (induction bs) (auto simp: Let_def case_prod_beta)

lemma tick_loop_value:
  "(snd (tick_loop bs) \<longleftrightarrow> le_nat bs + 1 = 256 ^ length bs) \<and>
   (\<not> snd (tick_loop bs) \<longrightarrow> le_nat (fst (tick_loop bs)) = le_nat bs + 1)"
proof (induction bs)
  case (Cons b bs)
  have b: "unat b < 256" using unat_less_exp [of b] by simp
  show ?case
  proof (cases "unat b = 255")
    case True
    then have "b + 1 = 0" by (simp add: word_unat_eq_iff unat_word_ariths)
    with True Cons show ?thesis by (auto simp: overflowing_add_def Let_def case_prod_beta)
  next
    case False
    with b have "unat (b + 1) = unat b + 1" "unat b + 1 < 256" by (simp_all add: unat_word_ariths)
    moreover have "unat b + 256 * le_nat bs + 1 \<noteq> 256 * 256 ^ length bs"
      using \<open>unat b + 1 < 256\<close> by (metis Suc_eq_plus1 add.commute add.left_commute mod_less mod_mult_self1_is_0 mod_mult_self2 nat.distinct(1))
    ultimately show ?thesis by (simp add: overflowing_add_def Let_def)
  qed
qed simp

lemma tai64n_tick_wf: "tai_wf t \<Longrightarrow> tai_wf (tai64n_tick t)"
  using tick_loop_length [of "rev (tai_bytes t)"]
  by (simp add: tai64n_tick_def Let_def case_prod_beta)

lemma tai64n_tick_nat:
  assumes "tai_wf t" and "tai_nat t < 2 ^ 96 - 1"
  shows "tai_nat (tai64n_tick t) = tai_nat t + 1"
  using assms tick_loop_value [of "rev (tai_bytes t)"]
  by (auto simp: tai64n_tick_def tai_nat_def Let_def case_prod_beta)

lemma le_nat_ones: "le_nat (replicate n 0xff) + 1 = 256 ^ n"
  by (induction n) simp_all

lemma tai_nat_all_ones:
  assumes "tai_wf t"
  shows "tai_nat t = 2 ^ 96 - 1 \<longleftrightarrow> tai_bytes t = replicate 12 0xff"
proof -
  have "le_nat (rev (replicate 12 0xff)) = 2 ^ 96 - 1" using le_nat_ones [of 12] by simp
  with assms le_nat_inject [of "rev (tai_bytes t)" "rev (replicate 12 0xff)"] show ?thesis
    by (auto simp: tai_nat_def rev_swap)
qed

lemma tai64n_tick_saturates:
  assumes "tai_wf t" and "tai_nat t = 2 ^ 96 - 1"
  shows "tai64n_tick t = t"
proof -
  have "tai64n_tick t = Tai64N (replicate 12 0xff)"
    using assms tick_loop_value [of "rev (tai_bytes t)"]
    by (simp add: tai64n_tick_def tai_nat_def Let_def case_prod_beta)
  then show ?thesis using tai_nat_all_ones [OF assms(1)] assms(2) by (cases t) simp
qed

lemma tai64n_from_unix_wf [simp]: "tai_wf (tai64n_from_unix s n)"
  by (simp add: tai64n_from_unix_def Let_def)

lemma mask_24: "(0x00ffffff :: u32) = mask 24"
  by (simp add: mask_eq_exp_minus_1)

text \<open>Whitening clears the low 24 bits of the nanoseconds.\<close>

definition whiten :: "u32 \<Rightarrow> nat" where
  "whiten n = unat n div 2 ^ 24 * 2 ^ 24"

lemma whitened_nanos: "unat (n AND NANOS_WHITENER_MASK) = whiten n"
proof -
  have "n AND NANOS_WHITENER_MASK = push_bit 24 (drop_bit 24 n)"
    by (rule bit_word_eqI)
      (auto simp: NANOS_WHITENER_MASK_def bit_and_iff bit_push_bit_iff bit_drop_bit_eq bit_not_iff
         mask_24 bit_mask_iff)
  also have "unat \<dots> = unat n div 2 ^ 24 * 2 ^ 24 mod 2 ^ 32"
    unfolding unsigned_push_bit_eq unat_drop_bit_eq
    by (simp add: drop_bit_eq_div push_bit_eq_mult take_bit_eq_mod)
  also have "\<dots> = unat n div 2 ^ 24 * 2 ^ 24"
    using unat_less_exp [of n] by (intro mod_less) (simp add: le_less_trans [OF div_times_less_eq_dividend])
  finally show ?thesis by (simp only: whiten_def)
qed

lemma tai_nat_from_unix:
  "tai_nat (tai64n_from_unix s n) =
     unat (saturating_add TAI64_UNIX_BASE s) * 2 ^ 32 + whiten n mod 1000000000"
proof -
  have "unat ((n AND NANOS_WHITENER_MASK) mod 1000000000) = whiten n mod 1000000000"
    by (simp add: unat_mod_distrib whitened_nanos)
  moreover have "whiten n mod 1000000000 < 2 ^ 32"
    by (rule less_trans [OF mod_less_divisor]) simp_all
  ultimately show ?thesis
    using unat_less_exp [of "saturating_add TAI64_UNIX_BASE s"]
    by (simp add: tai_nat_def tai64n_from_unix_def Let_def be_bytes_def le_nat_append le_nat_le_bytes)
qed

subsection \<open>Properties\<close>

text \<open>C34: \<open>tick\<close> yields the least timestamp greater than its argument in the byte-wise order,
  and leaves only the all-ones timestamp unchanged.\<close>

theorem tai64n_tick_least_greater:
  assumes "tai_wf t"
  shows "if tai_bytes t = replicate 12 0xff then tai64n_tick t = t
         else t < tai64n_tick t \<and> (\<forall>u. tai_wf u \<and> t < u \<longrightarrow> tai64n_tick t \<le> u)"
proof (cases "tai_bytes t = replicate 12 0xff")
  case True
  with assms show ?thesis using tai_nat_all_ones tai64n_tick_saturates by simp
next
  case False
  then have n: "tai_nat (tai64n_tick t) = tai_nat t + 1"
    using assms tai_nat_less [OF assms] tai_nat_all_ones [OF assms] by (intro tai64n_tick_nat) auto
  note less = tai_less_iff [OF assms] tai_less_iff [OF _ tai64n_tick_wf [OF assms]]
  show ?thesis
    using False n assms tai64n_tick_wf [OF assms] by (auto simp: less not_less [symmetric])
qed

theorem tai64n_tick_least_greater_witness:
  "Tai64N [0, 0, 0, 0, 0, 0, 0, 0, 0, 0, 0, 0xff]
     < tai64n_tick (Tai64N [0, 0, 0, 0, 0, 0, 0, 0, 0, 0, 0, 0xff])"
proof -
  have "hd [0, 0, 0, 0, 0, 0, 0, 0, 0, 0, 0, 0xff] \<noteq> hd (replicate 12 (0xff :: u8))" by simp
  then have "[0, 0, 0, 0, 0, 0, 0, 0, 0, 0, 0, 0xff] \<noteq> replicate 12 (0xff :: u8)" by metis
  then show ?thesis
    using tai64n_tick_least_greater [of "Tai64N [0, 0, 0, 0, 0, 0, 0, 0, 0, 0, 0, 0xff]"]
    by (simp only: tai64n.sel if_False) simp
qed

text \<open>Timestamps built from wall-clock readings are ordered as the readings are, to the
  granularity of the whitening: a reading at or after another (in seconds, then in nanoseconds
  below one second) never gives a smaller timestamp, and a later second always gives a strictly
  greater one.\<close>

theorem tai64n_from_unix_ordered:
  assumes "unat TAI64_UNIX_BASE + unat s2 < 2 ^ 64" and "n1 < 1000000000" and "n2 < 1000000000"
  shows "(s1 < s2 \<or> s1 = s2 \<and> n1 \<le> n2 \<longrightarrow> tai64n_from_unix s1 n1 \<le> tai64n_from_unix s2 n2)
    \<and> (s1 < s2 \<longrightarrow> tai64n_from_unix s1 n1 < tai64n_from_unix s2 n2)"
proof -
  have w1: "whiten n1 \<le> unat n1" "whiten n2 \<le> unat n2"
    by (simp_all only: whiten_def div_times_less_eq_dividend)
  then have w: "whiten n1 < 1000000000" "whiten n2 < 1000000000"
    using assms(2,3) by (simp_all add: word_less_nat_alt)
  have strict: "tai_nat (tai64n_from_unix s1 n1) < tai_nat (tai64n_from_unix s2 n2)" if "s1 < s2"
  proof -
    have "unat s1 < unat s2" using that by (simp add: word_less_nat_alt)
    then show ?thesis
      using assms(1) w by (simp add: tai_nat_from_unix saturating_add_nat)
  qed
  have same: "tai_nat (tai64n_from_unix s1 n1) \<le> tai_nat (tai64n_from_unix s1 n2)" if "n1 \<le> n2"
  proof -
    have "whiten n1 \<le> whiten n2"
      using that unfolding whiten_def word_le_nat_alt by (intro mult_le_mono1 div_le_mono)
    then show ?thesis using w by (simp add: tai_nat_from_unix)
  qed
  show ?thesis
    using strict same tai_less_iff [OF tai64n_from_unix_wf tai64n_from_unix_wf]
    by (auto simp: not_less [symmetric])
qed

theorem tai64n_from_unix_ordered_witness:
  "tai64n_from_unix 5 999999999 < tai64n_from_unix 6 0"
  using tai64n_from_unix_ordered [of 6 999999999 0 5] by (simp add: TAI64_UNIX_BASE_def)


end
