(* ===== verification/Noise.thy ===== *)
theory Noise
  imports Message Aead Kdf Keys Wg_Time
begin

text \<open>
  \<open>src/src/noise.rs\<close>: the Noise IKpsk2 handshake. Each function follows the code step by
  step: the chaining key, the hash, the Diffie-Hellman results and the two AEADs. Builders
  return the output buffer next to their result.
\<close>

record handshake_constants =
  hc_ck0 :: bytes
  hc_h0 :: bytes

definition handshake_constants_new :: handshake_constants where
  "handshake_constants_new =
     (let ck0 = blake2s_hash [CONSTRUCTION]
      in \<lparr> hc_ck0 = ck0, hc_h0 = blake2s_hash [ck0, IDENTIFIER] \<rparr>)"

record inflight_initiation =
  if_local_index :: u32
  if_eph_secret :: bytes
  if_chain :: bytes
  if_hash :: bytes

record session_keys =
  sk_send :: bytes
  sk_recv :: bytes
  sk_local_index :: u32
  sk_peer_index :: u32
  sk_is_initiator :: bool

record consumed_initiation =
  ci_peer_index :: u32
  ci_static_public :: bytes
  ci_timestamp :: tai64n
  ci_eph_public :: bytes
  ci_chain :: bytes
  ci_hash :: bytes

definition mix_hash :: "bytes \<Rightarrow> bytes \<Rightarrow> bytes" where
  "mix_hash h part = blake2s_hash [h, part]"

definition create_initiation ::
  "handshake_constants \<Rightarrow> bytes \<Rightarrow> bytes \<Rightarrow> bytes \<Rightarrow> u32 \<Rightarrow> bytes \<Rightarrow> tai64n \<Rightarrow> bytes
     \<Rightarrow> inflight_initiation result \<times> bytes" where
  "create_initiation constants local_public peer_public precomputed_ss local_index eph_secret_raw
     timestamp out =
     (if length out < HANDSHAKE_INITIATION_LEN then (Inl BufferTooSmall, out)
      else
        let ck = hc_ck0 constants;
            h = mix_hash (hc_h0 constants) peer_public;
            eph_secret = clamp_scalar eph_secret_raw;
            eph_public = x25519_base eph_secret;
            ck = kdf1 ck eph_public;
            h = mix_hash h eph_public
        in (case shared_secret eph_secret peer_public of
              Inl e \<Rightarrow> (Inl e, out)
            | Inr es \<Rightarrow>
              let (ck, k) = kdf2 ck es
              in (case seal k (nonce_from_counter 0) h local_public (replicate 48 0) of
                    (Inl e, _) \<Rightarrow> (Inl e, out)
                  | (Inr _, encrypted_static) \<Rightarrow>
                    let h = mix_hash h encrypted_static;
                        (ck, k) = kdf2 ck precomputed_ss
                    in (case seal k (nonce_from_counter 0) h (tai_bytes timestamp) (replicate 28 0) of
                          (Inl e, _) \<Rightarrow> (Inl e, out)
                        | (Inr _, encrypted_timestamp) \<Rightarrow>
                          let h = mix_hash h encrypted_timestamp
                          in (case build_initiation out local_index eph_public encrypted_static
                                     encrypted_timestamp of
                                (Inl e, out) \<Rightarrow> (Inl e, out)
                              | (Inr _, out) \<Rightarrow>
                                (Inr \<lparr> if_local_index = local_index, if_eph_secret = eph_secret,
                                       if_chain = ck, if_hash = h \<rparr>, out))))))"

definition consume_initiation ::
  "handshake_constants \<Rightarrow> bytes \<Rightarrow> bytes \<Rightarrow> bytes \<Rightarrow> bytes \<Rightarrow> handshake_initiation
     \<Rightarrow> consumed_initiation result" where
  "consume_initiation constants local_static local_public peer_public precomputed_ss msg =
     (let ck = hc_ck0 constants;
          h = mix_hash (hc_h0 constants) local_public;
          ck = kdf1 ck (hi_ephemeral msg);
          h = mix_hash h (hi_ephemeral msg)
      in and_then (shared_secret local_static (hi_ephemeral msg)) (\<lambda>es.
           let (ck, k) = kdf2 ck es;
               (opened, static_public) =
                 open_scalar k (nonce_from_counter 0) h (hi_encrypted_static msg) (replicate 32 0)
           in if opened \<noteq> Inr 32 then Inl AuthFailure
              else if \<not> ct_eq static_public peer_public then Inl UnknownPeer
              else
                let h = mix_hash h (hi_encrypted_static msg);
                    (ck, k) = kdf2 ck precomputed_ss;
                    (opened, timestamp) =
                      open_scalar k (nonce_from_counter 0) h (hi_encrypted_timestamp msg) (replicate 12 0)
                in if opened \<noteq> Inr 12 then Inl AuthFailure
                   else
                     let h = mix_hash h (hi_encrypted_timestamp msg)
                     in Inr \<lparr> ci_peer_index = hi_sender_index msg, ci_static_public = static_public,
                              ci_timestamp = Tai64N timestamp, ci_eph_public = hi_ephemeral msg,
                              ci_chain = ck, ci_hash = h \<rparr>))"

definition create_response ::
  "consumed_initiation \<Rightarrow> bytes \<Rightarrow> u32 \<Rightarrow> bytes \<Rightarrow> bytes \<Rightarrow> session_keys result \<times> bytes" where
  "create_response consumed psk local_index eph_secret_raw out =
     (if length out < HANDSHAKE_RESPONSE_LEN then (Inl BufferTooSmall, out)
      else
        let ck = ci_chain consumed;
            h = ci_hash consumed;
            eph_secret = clamp_scalar eph_secret_raw;
            eph_public = x25519_base eph_secret;
            ck = kdf1 ck eph_public;
            h = mix_hash h eph_public
        in (case shared_secret eph_secret (ci_eph_public consumed) of
              Inl e \<Rightarrow> (Inl e, out)
            | Inr ee \<Rightarrow>
              let ck = kdf1 ck ee
              in (case shared_secret eph_secret (ci_static_public consumed) of
                    Inl e \<Rightarrow> (Inl e, out)
                  | Inr se \<Rightarrow>
                    let ck = kdf1 ck se;
                        (ck, tau, k) = kdf3 ck psk;
                        h = mix_hash h tau
                    in (case seal k (nonce_from_counter 0) h [] (replicate 16 0) of
                          (Inl e, _) \<Rightarrow> (Inl e, out)
                        | (Inr _, encrypted_nothing) \<Rightarrow>
                          (case build_response out local_index (ci_peer_index consumed) eph_public
                                  encrypted_nothing of
                             (Inl e, out) \<Rightarrow> (Inl e, out)
                           | (Inr _, out) \<Rightarrow>
                             let (t_initiator, t_responder) = kdf2 ck []
                             in (Inr \<lparr> sk_send = t_responder, sk_recv = t_initiator,
                                       sk_local_index = local_index,
                                       sk_peer_index = ci_peer_index consumed,
                                       sk_is_initiator = False \<rparr>, out))))))"

definition consume_response ::
  "inflight_initiation \<Rightarrow> bytes \<Rightarrow> bytes \<Rightarrow> handshake_response \<Rightarrow> session_keys result" where
  "consume_response inflight local_static psk msg =
     (let ck = kdf1 (if_chain inflight) (hr_ephemeral msg);
          h = mix_hash (if_hash inflight) (hr_ephemeral msg)
      in and_then (shared_secret (if_eph_secret inflight) (hr_ephemeral msg)) (\<lambda>ee.
         let ck = kdf1 ck ee
         in and_then (shared_secret local_static (hr_ephemeral msg)) (\<lambda>se.
            let ck = kdf1 ck se;
                (ck, tau, k) = kdf3 ck psk;
                h = mix_hash h tau;
                (opened, _) = open_scalar k (nonce_from_counter 0) h (hr_encrypted_nothing msg) []
            in if opened \<noteq> Inr 0 then Inl AuthFailure
               else
                 let (t_initiator, t_responder) = kdf2 ck []
                 in Inr \<lparr> sk_send = t_initiator, sk_recv = t_responder,
                          sk_local_index = if_local_index inflight,
                          sk_peer_index = hr_sender_index msg, sk_is_initiator = True \<rparr>)))"

subsection \<open>The messages and states the builders produce\<close>

text \<open>The first message and the initiator's state after it, with \<open>es\<close> the result of the first
  Diffie-Hellman and the macs zero.\<close>

definition ik_initiation ::
  "handshake_constants \<Rightarrow> bytes \<Rightarrow> bytes \<Rightarrow> bytes \<Rightarrow> u32 \<Rightarrow> bytes \<Rightarrow> bytes \<Rightarrow> tai64n
     \<Rightarrow> inflight_initiation \<times> handshake_initiation" where
  "ik_initiation constants local_public peer_public ss local_index eph es timestamp =
     (let epub = x25519_base eph;
          h0 = mix_hash (mix_hash (hc_h0 constants) peer_public) epub;
          (ck1, k1) = kdf2 (kdf1 (hc_ck0 constants) epub) es;
          est = aead_encrypt scalar_apply_keystream k1 (nonce_from_counter 0) h0 local_public;
          h1 = mix_hash h0 est;
          (ck2, k2) = kdf2 ck1 ss;
          ets = aead_encrypt scalar_apply_keystream k2 (nonce_from_counter 0) h1 (tai_bytes timestamp);
          alpha = [1, 0, 0, 0] @ le_bytes 4 local_index @ epub @ est @ ets
      in (\<lparr> if_local_index = local_index, if_eph_secret = eph, if_chain = ck2, if_hash = mix_hash h1 ets \<rparr>,
          \<lparr> hi_sender_index = local_index, hi_ephemeral = epub, hi_encrypted_static = est,
            hi_encrypted_timestamp = ets, hi_mac1 = replicate 16 0, hi_mac2 = replicate 16 0,
            hi_alpha = alpha, hi_beta = alpha @ replicate 16 0 \<rparr>))"

text \<open>The second message and the responder's session keys, with \<open>ee\<close> and \<open>se\<close> the remaining
  Diffie-Hellman results.\<close>

definition ik_response ::
  "consumed_initiation \<Rightarrow> bytes \<Rightarrow> u32 \<Rightarrow> bytes \<Rightarrow> bytes \<Rightarrow> bytes \<Rightarrow> session_keys \<times> handshake_response" where
  "ik_response consumed psk local_index eph ee se =
     (let epub = x25519_base eph;
          h = mix_hash (ci_hash consumed) epub;
          (ck, tau, k) = kdf3 (kdf1 (kdf1 (kdf1 (ci_chain consumed) epub) ee) se) psk;
          emp = aead_encrypt scalar_apply_keystream k (nonce_from_counter 0) (mix_hash h tau) [];
          (t_initiator, t_responder) = kdf2 ck [];
          alpha = [2, 0, 0, 0] @ le_bytes 4 local_index @ le_bytes 4 (ci_peer_index consumed) @ epub @ emp
      in (\<lparr> sk_send = t_responder, sk_recv = t_initiator, sk_local_index = local_index,
            sk_peer_index = ci_peer_index consumed, sk_is_initiator = False \<rparr>,
          \<lparr> hr_sender_index = local_index, hr_receiver_index = ci_peer_index consumed, hr_ephemeral = epub,
            hr_encrypted_nothing = emp, hr_mac1 = replicate 16 0, hr_mac2 = replicate 16 0,
            hr_alpha = alpha, hr_beta = alpha @ replicate 16 0 \<rparr>))"

lemma length_x25519_base [simp, len_simps]: "length (x25519_base s) = 32"
  by (simp add: x25519_base_def)

lemma length_aead_scalar [simp, len_simps]:
  "length (aead_encrypt scalar_apply_keystream key nonce aad p) = length p + 16"
  by (simp add: scalar.length_aead_encrypt TAG_LEN_def)

lemma create_initiation_eq:
  assumes "length local_public = 32" and "length (tai_bytes timestamp) = 12"
    and "es = x25519 (clamp_scalar eph_raw) peer_public"
    and "im = ik_initiation constants local_public peer_public ss local_index (clamp_scalar eph_raw) es timestamp"
  shows "create_initiation constants local_public peer_public ss local_index eph_raw timestamp out =
    (if length out < 148 then (Inl BufferTooSmall, out)
     else if ct_is_zero es then (Inl InvalidPublicKey, out)
     else (Inr (fst im), packet_bytes (HandshakeInitiation (snd im)) @ drop 148 out))"
    and "packet_wf (HandshakeInitiation (snd im))"
  using assms
  by (auto simp: create_initiation_def ik_initiation_def shared_secret_def seal_exact Let_def
      build_initiation_eq const_defs replicate_32 split: prod.splits)

lemma create_response_eq:
  assumes "ee = x25519 (clamp_scalar eph_raw) (ci_eph_public consumed)"
    and "se = x25519 (clamp_scalar eph_raw) (ci_static_public consumed)"
    and "rm = ik_response consumed psk local_index (clamp_scalar eph_raw) ee se"
  shows "create_response consumed psk local_index eph_raw out =
    (if length out < 92 then (Inl BufferTooSmall, out)
     else if ct_is_zero ee \<or> ct_is_zero se then (Inl InvalidPublicKey, out)
     else (Inr (fst rm), packet_bytes (HandshakeResponse (snd rm)) @ drop 92 out))"
    and "packet_wf (HandshakeResponse (snd rm))"
  using assms
  by (auto simp: create_response_def ik_response_def shared_secret_def seal_exact Let_def
      build_response_eq const_defs replicate_32 split: prod.splits)

subsection \<open>Honest peers agree\<close>

text \<open>The fields the handshake itself reads; the macs are checked elsewhere.\<close>

definition same_initiation :: "handshake_initiation \<Rightarrow> handshake_initiation \<Rightarrow> bool" where
  "same_initiation m m' \<longleftrightarrow>
     hi_sender_index m = hi_sender_index m' \<and> hi_ephemeral m = hi_ephemeral m'
     \<and> hi_encrypted_static m = hi_encrypted_static m' \<and> hi_encrypted_timestamp m = hi_encrypted_timestamp m'"

definition same_response :: "handshake_response \<Rightarrow> handshake_response \<Rightarrow> bool" where
  "same_response m m' \<longleftrightarrow>
     hr_sender_index m = hr_sender_index m' \<and> hr_receiver_index m = hr_receiver_index m'
     \<and> hr_ephemeral m = hr_ephemeral m' \<and> hr_encrypted_nothing m = hr_encrypted_nothing m'"

lemma consume_initiation_ok:
  assumes "length ipub = 32" and "length (tai_bytes ts) = 12"
    and "\<not> ct_is_zero (x25519 rstatic (x25519_base eph))"
    and "im = ik_initiation constants ipub rpub ss idx eph (x25519 rstatic (x25519_base eph)) ts"
    and "same_initiation m (snd im)"
  shows "consume_initiation constants rstatic rpub ipub ss m =
    Inr \<lparr> ci_peer_index = idx, ci_static_public = ipub, ci_timestamp = ts,
          ci_eph_public = x25519_base eph, ci_chain = if_chain (fst im), ci_hash = if_hash (fst im) \<rparr>"
  using assms
  by (cases ts)
    (simp add: consume_initiation_def ik_initiation_def same_initiation_def shared_secret_def
      open_exact_encrypt Let_def split: prod.splits)

lemma consume_response_ok:
  assumes "\<not> ct_is_zero (x25519 (if_eph_secret inflight) (x25519_base eph))"
    and "\<not> ct_is_zero (x25519 istatic (x25519_base eph))"
    and "ci_chain consumed = if_chain inflight" and "ci_hash consumed = if_hash inflight"
    and "rm = ik_response consumed psk idx eph (x25519 (if_eph_secret inflight) (x25519_base eph))
                (x25519 istatic (x25519_base eph))"
    and "same_response m (snd rm)"
  shows "consume_response inflight istatic psk m =
    Inr \<lparr> sk_send = sk_recv (fst rm), sk_recv = sk_send (fst rm),
          sk_local_index = if_local_index inflight, sk_peer_index = idx, sk_is_initiator = True \<rparr>"
  using assms
  by (simp add: consume_response_def ik_response_def same_response_def shared_secret_def
      open_exact_encrypt Let_def split: prod.splits)

lemma ik_initiation_inflight:
  "if_eph_secret (fst (ik_initiation c lp pp ss idx eph es ts)) = eph"
  "if_local_index (fst (ik_initiation c lp pp ss idx eph es ts)) = idx"
  by (simp_all add: ik_initiation_def Let_def split: prod.splits)

lemma ik_response_keys:
  "sk_local_index (fst (ik_response consumed psk idx eph ee se)) = idx"
  "sk_peer_index (fst (ik_response consumed psk idx eph ee se)) = ci_peer_index consumed"
  "\<not> sk_is_initiator (fst (ik_response consumed psk idx eph ee se))"
  by (simp_all add: ik_response_def Let_def split: prod.splits)

lemma same_refl [simp]: "same_initiation m m" "same_response r r"
  by (simp_all add: same_initiation_def same_response_def)

text \<open>The one fact about Curve25519 the handshake rests on: the two sides of a Diffie-Hellman
  exchange get the same point.\<close>

definition dh_commutes :: "bytes \<Rightarrow> bytes \<Rightarrow> bool" where
  "dh_commutes a b \<longleftrightarrow> x25519 a (x25519_base b) = x25519 b (x25519_base a)"

lemma shared_secret_zero: "shared_secret a p = Inl e \<longleftrightarrow> ct_is_zero (x25519 a p) \<and> e = InvalidPublicKey"
  by (auto simp: shared_secret_def Let_def)

lemma parse_built:
  "packet_wf (HandshakeInitiation m) \<Longrightarrow>
     parse (take 148 (packet_bytes (HandshakeInitiation m) @ rest)) = Inr (HandshakeInitiation m)"
  "packet_wf (HandshakeResponse r) \<Longrightarrow>
     parse (take 92 (packet_bytes (HandshakeResponse r) @ rest)) = Inr (HandshakeResponse r)"
  unfolding parse_iff by auto

lemma honest_initiation:
  assumes "dh_commutes ei sr" "dh_commutes si sr" and ei: "ei = clamp_scalar ei_raw"
    and "length (tai_bytes ts) = 12" "148 \<le> length out"
    and nz: "\<not> ct_is_zero (x25519 ei (public_key sr))"
    and im: "im = ik_initiation c (public_key si) (public_key sr) (x25519 si (public_key sr)) idx ei
      (x25519 ei (public_key sr)) ts"
  shows "create_initiation c (public_key si) (public_key sr) (x25519 si (public_key sr)) idx ei_raw ts out
      = (Inr (fst im), packet_bytes (HandshakeInitiation (snd im)) @ drop 148 out)"
    and "packet_wf (HandshakeInitiation (snd im))"
    and "same_initiation m (snd im) \<Longrightarrow>
      consume_initiation c sr (public_key sr) (public_key si) (x25519 sr (public_key si)) m =
        Inr \<lparr> ci_peer_index = idx, ci_static_public = public_key si, ci_timestamp = ts,
          ci_eph_public = x25519_base ei, ci_chain = if_chain (fst im), ci_hash = if_hash (fst im) \<rparr>"
proof -
  note eq = create_initiation_eq [OF _ assms(4) refl im [unfolded ei]]
  show "create_initiation c (public_key si) (public_key sr) (x25519 si (public_key sr)) idx ei_raw ts out
      = (Inr (fst im), packet_bytes (HandshakeInitiation (snd im)) @ drop 148 out)"
    using eq(1) [of out] nz assms(5) by (simp add: public_key_def ei del: packet_bytes.simps)
  show "packet_wf (HandshakeInitiation (snd im))"
    using eq(2) by (simp add: public_key_def del: packet_wf.simps)
  show "consume_initiation c sr (public_key sr) (public_key si) (x25519 sr (public_key si)) m =
        Inr \<lparr> ci_peer_index = idx, ci_static_public = public_key si, ci_timestamp = ts,
          ci_eph_public = x25519_base ei, ci_chain = if_chain (fst im), ci_hash = if_hash (fst im) \<rparr>"
    if "same_initiation m (snd im)"
    using assms that by (intro consume_initiation_ok) (simp_all add: dh_commutes_def public_key_def)
qed

lemma honest_response:
  assumes "dh_commutes ei er" "dh_commutes si er" and er: "er = clamp_scalar er_raw" and "92 \<le> length out"
    and consumed: "ci_chain consumed = if_chain inflight" "ci_hash consumed = if_hash inflight"
      "ci_eph_public consumed = x25519_base ei" "ci_static_public consumed = public_key si"
      "if_eph_secret inflight = ei"
    and ee: "ee = x25519 er (ci_eph_public consumed)" and se: "se = x25519 er (ci_static_public consumed)"
    and rm: "rm = ik_response consumed psk idx er ee se"
  shows "create_response consumed psk idx er_raw out =
      (if ct_is_zero ee \<or> ct_is_zero se then (Inl InvalidPublicKey, out)
       else (Inr (fst rm), packet_bytes (HandshakeResponse (snd rm)) @ drop 92 out))"
    and "packet_wf (HandshakeResponse (snd rm))"
    and "\<not> ct_is_zero ee \<Longrightarrow> \<not> ct_is_zero se \<Longrightarrow> same_response m (snd rm) \<Longrightarrow>
      consume_response inflight si psk m =
        Inr \<lparr> sk_send = sk_recv (fst rm), sk_recv = sk_send (fst rm),
          sk_local_index = if_local_index inflight, sk_peer_index = idx, sk_is_initiator = True \<rparr>"
proof -
  note eq = create_response_eq [OF ee [unfolded er] se [unfolded er] rm [unfolded er]]
  show "create_response consumed psk idx er_raw out =
      (if ct_is_zero ee \<or> ct_is_zero se then (Inl InvalidPublicKey, out)
       else (Inr (fst rm), packet_bytes (HandshakeResponse (snd rm)) @ drop 92 out))"
    using eq(1) [of out] assms(4) by (simp del: packet_bytes.simps)
  show "packet_wf (HandshakeResponse (snd rm))" by (rule eq(2))
  have s: "ee = x25519 (if_eph_secret inflight) (x25519_base er)" "se = x25519 si (x25519_base er)"
    using assms(1,2) by (simp_all add: ee se consumed dh_commutes_def public_key_def)
  show "consume_response inflight si psk m =
        Inr \<lparr> sk_send = sk_recv (fst rm), sk_recv = sk_send (fst rm),
          sk_local_index = if_local_index inflight, sk_peer_index = idx, sk_is_initiator = True \<rparr>"
    if "\<not> ct_is_zero ee" "\<not> ct_is_zero se" "same_response m (snd rm)"
    using that consumed(1,2) rm by (intro consume_response_ok [of _ er _ consumed]) (simp_all add: s [symmetric])
qed

subsection \<open>Properties\<close>



end
