(* ===== verification/Replay_Window.thy ===== *)
theory Replay_Window
  imports Wg_Consts
begin

text \<open>
  \<open>src/src/replay.rs\<close>: the sliding bitmap of received transport counters. The
  operations keep the code's word arithmetic; the bitmap is then read over natural numbers
  (\<open>bm_bit\<close>), \<open>window_inv\<close> relates it to the set of received counters, and the locale
  \<open>replay_filter\<close> is the interface that the sessions rely on.
\<close>

definition WINDOW_BITS :: u64 where
  "WINDOW_BITS = 8128"

definition WORDS :: nat where
  "WORDS = unat (WINDOW_BITS div 64) + 1"

definition WORDS_U64 :: u64 where
  "WORDS_U64 = of_nat WORDS"

record replay_window =
  rw_greatest :: u64
  rw_primed :: bool
  rw_bitmap :: "u64 list"

definition replay_new :: replay_window where
  "replay_new = \<lparr> rw_greatest = 0, rw_primed = False, rw_bitmap = replicate WORDS 0 \<rparr>"

definition replay_bit :: "replay_window \<Rightarrow> u64 \<Rightarrow> bool" where
  "replay_bit rw counter =
     (let word = unat (drop_bit 6 counter mod WORDS_U64);
          mask = push_bit (unat (counter AND 63)) 1
      in word < length (rw_bitmap rw) \<and> rw_bitmap rw ! word AND mask \<noteq> 0)"

definition replay_set_bit :: "replay_window \<Rightarrow> u64 \<Rightarrow> replay_window" where
  "replay_set_bit rw counter =
     (let word = unat (drop_bit 6 counter mod WORDS_U64);
          mask = push_bit (unat (counter AND 63)) 1
      in if word < length (rw_bitmap rw)
         then rw\<lparr> rw_bitmap := (rw_bitmap rw)[word := rw_bitmap rw ! word OR mask] \<rparr>
         else rw)"

definition replay_check :: "replay_window \<Rightarrow> u64 \<Rightarrow> bool" where
  "replay_check rw counter =
     (if counter \<ge> REJECT_AFTER_MESSAGES then False
      else if \<not> rw_primed rw \<or> counter > rw_greatest rw then True
      else if rw_greatest rw - counter \<ge> WINDOW_BITS then False
      else \<not> replay_bit rw counter)"

text \<open>The \<open>while w <= new_word\<close> loop of \<open>accept\<close>; \<open>new_word = counter >> 6\<close> is
  below \<open>2^58\<close>, so \<open>w.wrapping_add(1)\<close> never wraps and the loop ends.\<close>

function replay_clear :: "u64 \<Rightarrow> u64 \<Rightarrow> u64 list \<Rightarrow> u64 list" where
  "replay_clear counter w bitmap =
     (if w \<le> drop_bit 6 counter
      then replay_clear counter (w + 1) (bitmap[unat (w mod WORDS_U64) := 0])
      else bitmap)"
  by pat_completeness auto

lemma drop_bit_6_nat: "unat (drop_bit 6 (c :: u64)) = unat c div 64"
  unfolding unat_drop_bit_eq by (simp add: drop_bit_eq_div)

lemma replay_clear_step:
  assumes "w \<le> drop_bit 6 (counter :: u64)"
  shows "unat (w + 1) = unat w + 1"
proof -
  have "unat w \<le> unat counter div 64"
    using assms by (simp add: word_le_nat_alt drop_bit_6_nat)
  also have "\<dots> < 2 ^ 58" using unat_less_exp [of counter] by simp
  finally have "unat w < 2 ^ 58" .
  then show ?thesis by (simp add: unat_word_ariths)
qed

termination replay_clear
proof (relation "measure (\<lambda>(c, w, b). 2 ^ 64 - unat w)")
  fix c w :: u64 and b :: "u64 list"
  assume a: "w \<le> drop_bit 6 c"
  show "((c, w + 1, b[unat (w mod WORDS_U64) := 0]), (c, w, b)) \<in> measure (\<lambda>(c, w, b). 2 ^ 64 - unat w)"
    using replay_clear_step [OF a] unat_less_exp [of w] by simp
qed simp

declare replay_clear.simps [simp del]

definition replay_accept :: "replay_window \<Rightarrow> u64 \<Rightarrow> bool \<times> replay_window" where
  "replay_accept rw counter =
     (if \<not> replay_check rw counter then (False, rw)
      else if \<not> rw_primed rw then
        (True, replay_set_bit
                 (rw\<lparr> rw_primed := True, rw_greatest := counter, rw_bitmap := replicate WORDS 0 \<rparr>)
                 counter)
      else
        let rw' =
          (if counter > rw_greatest rw then
             let advance = counter - rw_greatest rw;
                 bitmap = (if advance \<ge> WINDOW_BITS then replicate WORDS 0
                           else replay_clear counter (drop_bit 6 (rw_greatest rw) + 1) (rw_bitmap rw))
             in rw\<lparr> rw_bitmap := bitmap, rw_greatest := counter \<rparr>
           else rw)
        in (True, replay_set_bit rw' counter))"

definition replay_greatest :: "replay_window \<Rightarrow> u64" where
  "replay_greatest rw = (if rw_primed rw then rw_greatest rw else 0)"

subsection \<open>The bitmap, read over natural numbers\<close>

abbreviation (input) slot :: "nat \<Rightarrow> nat" where
  "slot n \<equiv> n div 64 mod 128"

definition bm_bit :: "u64 list \<Rightarrow> nat \<Rightarrow> bool" where
  "bm_bit bm n = bit (bm ! slot n) (n mod 64)"

lemma WORDS_eq [simp]: "WORDS = 128"
  by (simp add: WORDS_def WINDOW_BITS_def)

lemma window_word: "unat (drop_bit 6 (c :: u64) mod WORDS_U64) = slot (unat c)"
  by (simp add: WORDS_U64_def unat_mod_distrib drop_bit_6_nat)

lemma and_63: "unat ((c :: u64) AND 63) = unat c mod 64"
proof -
  have "c AND 63 = take_bit 6 c" by (simp add: take_bit_eq_mask mask_eq_exp_minus_1)
  then show ?thesis by (simp add: take_bit_eq_mod unat_mod_distrib)
qed

lemma replay_bit_eq:
  "length (rw_bitmap rw) = 128 \<Longrightarrow> replay_bit rw c = bm_bit (rw_bitmap rw) (unat c)"
  by (simp add: replay_bit_def bm_bit_def Let_def window_word and_63 and_exp_eq_0_iff_not_bit)

definition bm_set :: "u64 list \<Rightarrow> nat \<Rightarrow> u64 list" where
  "bm_set bm n = bm[slot n := bm ! slot n OR push_bit (n mod 64) 1]"

lemma replay_set_bit_eq:
  "length (rw_bitmap rw) = 128 \<Longrightarrow>
     replay_set_bit rw c = rw\<lparr> rw_bitmap := bm_set (rw_bitmap rw) (unat c) \<rparr>"
  by (simp add: replay_set_bit_def bm_set_def Let_def window_word and_63)

lemma length_bm_set [simp]: "length (bm_set bm n) = length bm"
  by (simp add: bm_set_def)

lemma bm_bit_set:
  "length bm = 128 \<Longrightarrow> bm_bit (bm_set bm n) m \<longleftrightarrow> bm_bit bm m \<or> (slot m = slot n \<and> m mod 64 = n mod 64)"
  by (auto simp: bm_bit_def bm_set_def nth_list_update bit_or_iff bit_exp_iff)

lemma bm_bit_zero [simp]: "\<not> bm_bit (replicate 128 0) m"
  by (simp add: bm_bit_def)

text \<open>Two counters at most 127 words apart share a bitmap word only when they are in the
  same word.\<close>

lemma slot_inj:
  assumes "x mod 128 = y mod 128" "x \<le> y" "y - x \<le> 127"
  shows "x = (y :: nat)"
proof -
  have "128 dvd y - x" using assms(1,2) by (metis mod_eq_dvd_iff_nat)
  with assms(3) have "y - x = 0" by (auto dest: dvd_imp_le)
  with assms(2) show ?thesis by simp
qed

lemma word_gap: "a \<le> b \<Longrightarrow> b - a < 8128 \<Longrightarrow> b div 64 - a div 64 \<le> (127 :: nat)"
  by arith

lemma length_replay_clear [simp]: "length (replay_clear c w bm) = length bm"
proof (induction c w bm rule: replay_clear.induct)
  case (1 c w bm)
  then show ?case by (subst replay_clear.simps) simp
qed

lemma replay_clear_nth:
  "length bm = 128 \<Longrightarrow> k < 128 \<Longrightarrow>
   replay_clear c w bm ! k =
     (if \<exists>v. unat w \<le> v \<and> v \<le> unat c div 64 \<and> k = v mod 128 then 0 else bm ! k)"
proof (induction c w bm rule: replay_clear.induct)
  case (1 c w bm)
  have le: "w \<le> drop_bit 6 c \<longleftrightarrow> unat w \<le> unat c div 64"
    by (simp add: word_le_nat_alt drop_bit_6_nat)
  show ?case
  proof (cases "w \<le> drop_bit 6 c")
    case True
    note suc = replay_clear_step [OF True]
    have idx: "unat (w mod WORDS_U64) = unat w mod 128"
      by (simp add: WORDS_U64_def unat_mod_distrib)
    have ex: "(\<exists>v. unat w \<le> v \<and> v \<le> unat c div 64 \<and> k = v mod 128) \<longleftrightarrow>
          k = unat w mod 128 \<or> (\<exists>v. unat (w + 1) \<le> v \<and> v \<le> unat c div 64 \<and> k = v mod 128)"
      (is "?L \<longleftrightarrow> ?E \<or> ?R")
    proof
      assume ?L
      then obtain v where "unat w \<le> v" "v \<le> unat c div 64" "k = v mod 128" by blast
      then show "?E \<or> ?R" by (cases "v = unat w") (auto simp: suc intro!: exI [of _ v])
    next
      assume "?E \<or> ?R"
      then show ?L
      proof
        assume ?E
        with True show ?L unfolding le by blast
      next
        assume ?R
        then obtain v where "unat (w + 1) \<le> v" "v \<le> unat c div 64" "k = v mod 128" by blast
        then show ?L by (intro exI [of _ v]) (simp add: suc)
      qed
    qed
    have IH: "replay_clear c (w + 1) (bm[unat w mod 128 := 0]) ! k =
        (if \<exists>v. unat (w + 1) \<le> v \<and> v \<le> unat c div 64 \<and> k = v mod 128 then 0
         else bm[unat w mod 128 := 0] ! k)"
      using 1(1) [OF True] 1(2,3) by (simp only: idx length_list_update)
    show ?thesis
      unfolding replay_clear.simps [of c w] if_P [OF True] idx IH ex
      using 1(2,3) by (auto simp: nth_list_update)
  next
    case False
    then show ?thesis using le by (subst replay_clear.simps) auto
  qed
qed

subsection \<open>The window invariant\<close>

text \<open>\<open>bm\<close> represents the set \<open>S\<close> of received counters with greatest element \<open>g\<close>:
  inside the window the bits are exactly \<open>S\<close>, and the unused high bits of the top word
  are clear, so that the window can slide within that word.\<close>

definition window_inv :: "u64 list \<Rightarrow> nat \<Rightarrow> nat set \<Rightarrow> bool" where
  "window_inv bm g S \<longleftrightarrow>
     length bm = 128 \<and> g \<in> S \<and> (\<forall>c\<in>S. c \<le> g) \<and>
     (\<forall>c. c \<le> g \<and> g - c < 8128 \<longrightarrow> (bm_bit bm c \<longleftrightarrow> c \<in> S)) \<and>
     (\<forall>c. g < c \<and> c div 64 = g div 64 \<longrightarrow> \<not> bm_bit bm c)"

lemma bm_bit_set_near:
  assumes len: "length bm = 128"
    and near: "d div 64 \<le> c div 64 + 127" "c div 64 \<le> d div 64 + 127"
  shows "bm_bit (bm_set bm c) d \<longleftrightarrow> bm_bit bm d \<or> d = c"
proof -
  have "d = c" if e: "slot d = slot c" "d mod 64 = c mod 64"
  proof -
    have "d div 64 = c div 64"
      using slot_inj [OF e(1)] slot_inj [OF e(1) [symmetric]] near by linarith
    with e(2) show ?thesis by (metis div_mult_mod_eq)
  qed
  with len show ?thesis by (auto simp: bm_bit_set)
qed

lemma window_inv_fresh:
  assumes "\<forall>d\<in>S. d + 8128 \<le> c"
  shows "window_inv (bm_set (replicate 128 0) c) c (insert c S)"
proof -
  have "bm_bit (bm_set (replicate 128 0) c) d \<longleftrightarrow> d = c"
    if "d \<le> c \<and> c - d < 8128 \<or> d div 64 = c div 64" for d
    using that by (subst bm_bit_set_near) (simp, arith, arith, simp)
  moreover have "d \<notin> S" if "d \<le> c" "c - d < 8128" for d
    using that assms by force
  moreover have "\<forall>d\<in>S. d \<le> c" using assms by auto
  ultimately show ?thesis unfolding window_inv_def by simp
qed

lemma window_inv_behind:
  assumes inv: "window_inv bm g S" and c: "c \<le> g" "g - c < 8128"
  shows "window_inv (bm_set bm c) g (insert c S)"
proof -
  have len: "length bm = 128" using inv by (simp add: window_inv_def)
  have "bm_bit (bm_set bm c) d \<longleftrightarrow> bm_bit bm d \<or> d = c"
    if "d \<le> g \<and> g - d < 8128 \<or> d div 64 = g div 64" for d
    using that c by (intro bm_bit_set_near [OF len]) arith+
  with inv c show ?thesis unfolding window_inv_def by auto
qed

lemma window_inv_slide:
  assumes inv: "window_inv bm g S" and c: "g < c" "c - g < 8128" and len: "length bm' = 128"
    and clear: "\<And>k. k < 128 \<Longrightarrow> bm' ! k =
      (if \<exists>v. g div 64 + 1 \<le> v \<and> v \<le> c div 64 \<and> k = v mod 128 then 0 else bm ! k)"
  shows "window_inv (bm_set bm' c) c (insert c S)"
proof -
  have gap: "c div 64 - g div 64 \<le> 127" using word_gap c by simp
  have above: "\<not> bm_bit bm' d" if "g div 64 < d div 64" "d div 64 \<le> c div 64" for d
  proof -
    have "bm' ! slot d = 0" using that by (subst clear) (auto intro!: exI [of _ "d div 64"])
    then show ?thesis by (simp add: bm_bit_def)
  qed
  have below: "bm_bit bm' d \<longleftrightarrow> bm_bit bm d"
    if "d div 64 \<le> g div 64" "c div 64 - d div 64 \<le> 127" for d
  proof -
    have nex: "\<not> (\<exists>v. g div 64 + 1 \<le> v \<and> v \<le> c div 64 \<and> slot d = v mod 128)"
      using that slot_inj [of "d div 64"] by fastforce
    have "slot d < 128" by simp
    from trans [OF clear [OF this] if_not_P [OF nex]] show ?thesis by (simp add: bm_bit_def)
  qed
  have old: "bm_bit bm' d \<longleftrightarrow> d \<in> S" if d: "d \<le> c" "c - d < 8128" for d
  proof (cases "d div 64 \<le> g div 64")
    case True
    then have "bm_bit bm' d \<longleftrightarrow> bm_bit bm d" using below word_gap [OF d] by simp
    also have "\<dots> \<longleftrightarrow> d \<in> S"
    proof (cases "d \<le> g")
      case True
      with d c inv show ?thesis by (simp add: window_inv_def)
    next
      case False
      with \<open>d div 64 \<le> g div 64\<close> have "d div 64 = g div 64" by (simp add: div_le_mono le_antisym)
      with False inv show ?thesis by (auto simp: window_inv_def)
    qed
    finally show ?thesis .
  next
    case False
    then have "d \<notin> S" using inv by (auto simp: window_inv_def div_le_mono)
    with False above d show ?thesis by (simp add: div_le_mono)
  qed
  have top: "\<not> bm_bit bm' d" if "c < d" "d div 64 = c div 64" for d
  proof (cases "g div 64 < c div 64")
    case True
    with above that show ?thesis by simp
  next
    case False
    then have "c div 64 = g div 64" using c by (simp add: div_le_mono le_antisym)
    with that c inv below [of d] show ?thesis by (auto simp: window_inv_def)
  qed
  have new: "bm_bit (bm_set bm' c) d \<longleftrightarrow> bm_bit bm' d \<or> d = c"
    if "d \<le> c \<and> c - d < 8128 \<or> d div 64 = c div 64" for d
    using that by (intro bm_bit_set_near [OF len]) arith+
  have "\<forall>d\<in>S. d \<le> c" using inv c by (auto simp: window_inv_def)
  with old top len new show ?thesis unfolding window_inv_def by auto
qed

subsection \<open>Refinement of the set of received counters\<close>

text \<open>What the window promises: a counter is admitted when it is below the message limit,
  has not been received, and no received counter is \<open>WINDOW_BITS\<close> or more ahead of it.\<close>

definition replay_admits :: "u64 set \<Rightarrow> u64 \<Rightarrow> bool" where
  "replay_admits S c \<longleftrightarrow>
     c < REJECT_AFTER_MESSAGES \<and> c \<notin> S \<and> (\<forall>d\<in>S. unat d < unat c + unat WINDOW_BITS)"

definition replay_inv :: "replay_window \<Rightarrow> u64 set \<Rightarrow> bool" where
  "replay_inv rw S \<longleftrightarrow>
     length (rw_bitmap rw) = WORDS \<and> (rw_primed rw \<longleftrightarrow> S \<noteq> {}) \<and>
     (S \<noteq> {} \<longrightarrow> window_inv (rw_bitmap rw) (unat (rw_greatest rw)) (unat ` S))"

lemma WINDOW_BITS_nat [simp]: "unat WINDOW_BITS = 8128"
  by (simp add: WINDOW_BITS_def)

lemma unat_image_iff [simp]: "unat c \<in> unat ` S \<longleftrightarrow> (c :: u64) \<in> S"
  by (auto dest: unsigned_word_eqI)

lemma window_dist: "(c :: u64) \<le> g \<Longrightarrow> WINDOW_BITS \<le> g - c \<longleftrightarrow> 8128 \<le> unat g - unat c"
  by (simp add: word_le_nat_alt unat_sub)

lemma replay_new_inv: "replay_inv replay_new {}"
  by (simp add: replay_inv_def replay_new_def)

lemma replay_check_admits:
  assumes inv: "replay_inv rw S"
  shows "replay_check rw c \<longleftrightarrow> replay_admits S c"
proof (cases "S = {}")
  case True
  with inv show ?thesis by (auto simp: replay_inv_def replay_check_def replay_admits_def)
next
  case False
  let ?g = "rw_greatest rw"
  have w: "window_inv (rw_bitmap rw) (unat ?g) (unat ` S)" and p: "rw_primed rw"
    and len: "length (rw_bitmap rw) = 128"
    using inv False by (simp_all add: replay_inv_def)
  have top: "?g \<in> S" "\<And>d. d \<in> S \<Longrightarrow> unat d \<le> unat ?g"
    using w by (auto simp: window_inv_def)
  have near: "(\<forall>d\<in>S. unat d < unat c + 8128) \<longleftrightarrow> unat ?g < unat c + 8128"
    using top by fastforce
  show ?thesis
  proof (cases "c > ?g")
    case True
    then have g: "unat ?g < unat c" by (simp add: word_less_nat_alt)
    then have "c \<notin> S" using top(2) [of c] by auto
    with True p g show ?thesis by (auto simp: replay_check_def replay_admits_def near not_le)
  next
    case False
    then have le: "c \<le> ?g" "unat c \<le> unat ?g" by (simp_all add: word_le_nat_alt not_less)
    have bit: "replay_bit rw c \<longleftrightarrow> c \<in> S" if "unat ?g - unat c < 8128"
      using w le that len by (simp add: replay_bit_eq window_inv_def)
    show ?thesis
      using False p le bit window_dist [OF le(1)]
      by (auto simp: replay_check_def replay_admits_def near not_le)
  qed
qed

lemma replay_accept_inv:
  assumes inv: "replay_inv rw S" and ok: "replay_check rw c"
  shows "replay_inv (snd (replay_accept rw c)) (insert c S)"
proof (cases "S = {}")
  case True
  with inv ok show ?thesis
    using window_inv_fresh [of "{}" "unat c"]
    by (simp add: replay_accept_def replay_inv_def replay_set_bit_eq)
next
  case False
  let ?g = "rw_greatest rw" and ?bm = "rw_bitmap rw"
  have w: "window_inv ?bm (unat ?g) (unat ` S)" and p: "rw_primed rw" and len: "length ?bm = 128"
    using inv False by (simp_all add: replay_inv_def)
  consider (behind) "c \<le> ?g" | (far) "?g < c" "WINDOW_BITS \<le> c - ?g" | (slide) "?g < c" "\<not> WINDOW_BITS \<le> c - ?g"
    by force
  then show ?thesis
  proof cases
    case behind
    then have d: "unat c \<le> unat ?g" "unat ?g - unat c < 8128"
      using ok p behind window_dist [OF behind]
      by (simp_all add: replay_check_def not_less [THEN iffD2] word_le_nat_alt [THEN iffD1] not_le split: if_splits)
    from window_inv_behind [OF w d] leD [OF behind] show ?thesis
      using ok p len by (simp add: replay_accept_def replay_inv_def replay_set_bit_eq)
  next
    case far
    then have "\<forall>d\<in>unat ` S. d + 8128 \<le> unat c"
      using w window_dist [of ?g c] by (force simp: window_inv_def word_le_nat_alt word_less_nat_alt)
    from window_inv_fresh [OF this] far show ?thesis
      using ok p by (simp add: replay_accept_def replay_inv_def replay_set_bit_eq)
  next
    case slide
    let ?bm' = "replay_clear c (drop_bit 6 ?g + 1) ?bm"
    have d: "unat ?g < unat c" "unat c - unat ?g < 8128"
      using slide window_dist [of ?g c] by (simp_all add: word_less_nat_alt word_le_nat_alt)
    have suc: "unat (drop_bit 6 ?g + 1) = unat ?g div 64 + 1"
      using replay_clear_step [of "drop_bit 6 ?g" ?g] by (simp add: drop_bit_6_nat)
    have "window_inv (bm_set ?bm' (unat c)) (unat c) (insert (unat c) (unat ` S))"
      using replay_clear_nth [OF len, of _ c "drop_bit 6 ?g + 1"] unfolding suc
      by (intro window_inv_slide [OF w d]) (simp add: len)
    with slide show ?thesis
      using ok p len by (simp add: replay_accept_def replay_inv_def replay_set_bit_eq)
  qed
qed

lemma replay_accept_result: "fst (replay_accept rw c) = replay_check rw c"
  by (simp add: replay_accept_def Let_def)

lemma replay_accept_rejected: "\<not> replay_check rw c \<Longrightarrow> snd (replay_accept rw c) = rw"
  by (simp add: replay_accept_def)

subsection \<open>The interface of an anti-replay filter\<close>

text \<open>Running \<open>accept\<close> over a sequence of counters; the result lists the accepted ones in
  order.\<close>

fun accept_all :: "('s \<Rightarrow> u64 \<Rightarrow> bool \<times> 's) \<Rightarrow> 's \<Rightarrow> u64 list \<Rightarrow> u64 list \<times> 's" where
  "accept_all acc s [] = ([], s)"
| "accept_all acc s (c # cs) =
     (let (ok, s') = acc s c; (cs', s'') = accept_all acc s' cs
      in (if ok then c # cs' else cs', s''))"

text \<open>The same run over the set of received counters.\<close>

fun admitted :: "(u64 set \<Rightarrow> u64 \<Rightarrow> bool) \<Rightarrow> u64 set \<Rightarrow> u64 list \<Rightarrow> u64 list" where
  "admitted adm S [] = []"
| "admitted adm S (c # cs) =
     (if adm S c then c # admitted adm (insert c S) cs else admitted adm S cs)"

locale replay_filter =
  fixes inv :: "'s \<Rightarrow> u64 set \<Rightarrow> bool"
    and check :: "'s \<Rightarrow> u64 \<Rightarrow> bool"
    and accept :: "'s \<Rightarrow> u64 \<Rightarrow> bool \<times> 's"
    and adm :: "u64 set \<Rightarrow> u64 \<Rightarrow> bool"
  assumes check_adm: "inv s S \<Longrightarrow> check s c = adm S c"
    and accept_check: "fst (accept s c) = check s c"
    and accept_inv: "inv s S \<Longrightarrow> check s c \<Longrightarrow> inv (snd (accept s c)) (insert c S)"
    and reject_same: "\<not> check s c \<Longrightarrow> snd (accept s c) = s"
    and adm_fresh: "adm S c \<Longrightarrow> c \<notin> S"
begin

lemma accept_all_admitted:
  "inv s S \<Longrightarrow> fst (accept_all accept s cs) = admitted adm S cs \<and>
     inv (snd (accept_all accept s cs)) (S \<union> set (admitted adm S cs))"
proof (induction cs arbitrary: s S)
  case (Cons c cs)
  show ?case
  proof (cases "adm S c")
    case True
    then have "inv (snd (accept s c)) (insert c S)" "fst (accept s c)"
      using Cons.prems check_adm accept_inv accept_check by auto
    with Cons.IH [of "snd (accept s c)" "insert c S"] True show ?thesis
      by (simp add: case_prod_beta Let_def)
  next
    case False
    then have "snd (accept s c) = s" "\<not> fst (accept s c)"
      using Cons.prems check_adm reject_same accept_check by auto
    with Cons.IH [OF Cons.prems] False show ?thesis
      by (simp add: case_prod_beta Let_def)
  qed
qed simp

lemma admitted_distinct: "distinct (admitted adm S cs) \<and> set (admitted adm S cs) \<inter> S = {}"
proof (induction cs arbitrary: S)
  case (Cons c cs)
  then show ?case using adm_fresh [of S c] by (cases "adm S c") fastforce+
qed simp

lemma accept_all_distinct: "inv s S \<Longrightarrow> distinct (fst (accept_all accept s cs))"
  using accept_all_admitted admitted_distinct by simp

lemma accepted_is_rejected: "inv s S \<Longrightarrow> c \<in> S \<Longrightarrow> accept s c = (False, s)"
proof -
  assume a: "inv s S" "c \<in> S"
  then have "\<not> check s c" using check_adm [OF a(1)] adm_fresh [of S c] by blast
  then show ?thesis by (simp add: prod_eq_iff accept_check reject_same)
qed

end

interpretation rw: replay_filter replay_inv replay_check replay_accept replay_admits
  by unfold_locales
    (simp_all add: replay_check_admits replay_accept_result replay_accept_inv
      replay_accept_rejected replay_admits_def)

subsection \<open>Properties\<close>

text \<open>C5: the window refines the set of received counters. Whenever the bitmap represents the
  set \<open>S\<close>, \<open>check\<close> answers exactly "below the message limit, not received, and not
  \<open>WINDOW_BITS\<close> or more behind a received counter", \<open>accept\<close> answers the same, and the
  window it leaves represents \<open>S\<close> with the counter added when it was accepted and is
  unchanged when it was not.\<close>

theorem replay_window_refines:
  assumes "replay_inv rw S"
  shows "replay_check rw c = replay_admits S c
    \<and> fst (replay_accept rw c) = replay_admits S c
    \<and> (if replay_admits S c then replay_inv (snd (replay_accept rw c)) (insert c S)
       else snd (replay_accept rw c) = rw)"
  using rw.accept_inv [OF assms] rw.reject_same
  by (simp add: rw.accept_check rw.check_adm [OF assms])

lemma replay_inv_example: "replay_inv (snd (replay_accept replay_new 5)) {5}"
proof -
  have "replay_check replay_new 5"
    by (simp add: replay_check_def replay_new_def REJECT_AFTER_MESSAGES_def)
  from replay_accept_inv [OF replay_new_inv this] show ?thesis .
qed

theorem replay_window_refines_witness:
  "replay_inv (snd (replay_accept replay_new 5)) {5}
   \<and> \<not> replay_check (snd (replay_accept replay_new 5)) 5
   \<and> fst (replay_accept (snd (replay_accept replay_new 5)) 3)"
  using replay_inv_example
    replay_window_refines [OF replay_inv_example, of 5]
    replay_window_refines [OF replay_inv_example, of 3]
  by (simp add: replay_admits_def REJECT_AFTER_MESSAGES_def)

text \<open>C26: over any sequence of datagrams a fresh window accepts exactly the counters that the
  set specification admits, in order, and accepts no counter twice.\<close>

theorem replay_never_twice:
  "fst (accept_all replay_accept replay_new cs) = admitted replay_admits {} cs
   \<and> distinct (fst (accept_all replay_accept replay_new cs))"
  using rw.accept_all_admitted [OF replay_new_inv] rw.accept_all_distinct [OF replay_new_inv] by simp

end
