(* ===== verification/Session.thy ===== *)
theory Session
  imports Noise Replay_Window
begin

text \<open>
  \<open>src/src/session.rs\<close>: one live keypair with its send counter, replay window, creation
  time and confirmation flag.
\<close>

record session =
  s_keys :: session_keys
  s_send_counter :: u64
  s_replay :: replay_window
  s_created :: ticks
  s_confirmed :: bool

definition session_new :: "session_keys \<Rightarrow> ticks \<Rightarrow> session" where
  "session_new keys created =
     \<lparr> s_keys = keys, s_send_counter = 0, s_replay = replay_new, s_created = created,
       s_confirmed = sk_is_initiator keys \<rparr>"

definition session_age :: "session \<Rightarrow> ticks \<Rightarrow> u64" where
  "session_age s t = since t (s_created s)"

definition usable_for_send :: "session \<Rightarrow> ticks \<Rightarrow> bool" where
  "usable_for_send s t \<longleftrightarrow>
     s_confirmed s \<and> s_send_counter s < REJECT_AFTER_MESSAGES \<and> session_age s t < REJECT_AFTER_TIME"

definition next_counter :: "session \<Rightarrow> u64 result \<times> session" where
  "next_counter s =
     (if s_send_counter s \<ge> REJECT_AFTER_MESSAGES then (Inl Expired, s)
      else case checked_add (s_send_counter s) 1 of
             None \<Rightarrow> (Inl Internal, s)
           | Some n \<Rightarrow> (Inr (s_send_counter s), s\<lparr> s_send_counter := n \<rparr>))"

end
