(* ===== verification/Timers.thy ===== *)
theory Timers
  imports Wg_Time
begin

text \<open>
  \<open>src/src/timers.rs\<close>: when things last happened, and what is due at a given instant.
\<close>

record timers =
  last_data_tx :: "ticks option"
  last_data_rx :: "ticks option"
  last_any_tx :: "ticks option"
  last_any_rx :: "ticks option"
  attempt_started :: "ticks option"
  retransmit_at :: "ticks option"
  last_initiation_tx :: "ticks option"
  rekey_due :: bool
  confirm_keepalive_due :: bool
  gave_up :: bool

definition timers_default :: timers where
  "timers_default =
     \<lparr> last_data_tx = None, last_data_rx = None, last_any_tx = None, last_any_rx = None,
       attempt_started = None, retransmit_at = None, last_initiation_tx = None,
       rekey_due = False, confirm_keepalive_due = False, gave_up = False \<rparr>"

text \<open>\<open>Option::is_none_or\<close> and \<open>Option::is_some_and\<close>.\<close>

definition is_none_or :: "'a option \<Rightarrow> ('a \<Rightarrow> bool) \<Rightarrow> bool" where
  "is_none_or x p = (case x of None \<Rightarrow> True | Some v \<Rightarrow> p v)"

definition is_some_and :: "'a option \<Rightarrow> ('a \<Rightarrow> bool) \<Rightarrow> bool" where
  "is_some_and x p = (case x of None \<Rightarrow> False | Some v \<Rightarrow> p v)"

definition note_data_tx :: "ticks \<Rightarrow> timers \<Rightarrow> timers" where
  "note_data_tx t tm =
     tm\<lparr> last_data_tx := Some t, last_any_tx := Some t, confirm_keepalive_due := False,
         gave_up := False \<rparr>"

definition note_keepalive_tx :: "ticks \<Rightarrow> timers \<Rightarrow> timers" where
  "note_keepalive_tx t tm = tm\<lparr> last_any_tx := Some t, confirm_keepalive_due := False \<rparr>"

definition note_rx :: "ticks \<Rightarrow> bool \<Rightarrow> timers \<Rightarrow> timers" where
  "note_rx t is_keepalive tm =
     (let tm = tm\<lparr> last_any_rx := Some t \<rparr>;
          tm = (if \<not> is_keepalive then tm\<lparr> last_data_rx := Some t \<rparr> else tm)
      in tm\<lparr> gave_up := False \<rparr>)"

definition note_initiation_tx :: "ticks \<Rightarrow> u64 \<Rightarrow> timers \<Rightarrow> timers" where
  "note_initiation_tx t jitter tm =
     (let tm = (if attempt_started tm = None then tm\<lparr> attempt_started := Some t \<rparr> else tm)
      in tm\<lparr> last_initiation_tx := Some t,
             retransmit_at :=
               Some (add_nanos (add_nanos t REKEY_TIMEOUT) (min jitter REKEY_TIMEOUT_JITTER_MAX)),
             rekey_due := False \<rparr>)"

definition note_handshake_complete :: "timers \<Rightarrow> timers" where
  "note_handshake_complete tm =
     tm\<lparr> attempt_started := None, retransmit_at := None, rekey_due := False, gave_up := False \<rparr>"

definition note_gave_up :: "timers \<Rightarrow> timers" where
  "note_gave_up tm =
     tm\<lparr> attempt_started := None, retransmit_at := None, rekey_due := False, gave_up := True \<rparr>"

definition attempt_exhausted :: "timers \<Rightarrow> ticks \<Rightarrow> bool" where
  "attempt_exhausted tm t = is_some_and (attempt_started tm) (\<lambda>t0. since t t0 \<ge> REKEY_ATTEMPT_TIME)"

definition initiation_allowed :: "timers \<Rightarrow> ticks \<Rightarrow> bool" where
  "initiation_allowed tm t = is_none_or (last_initiation_tx tm) (\<lambda>t0. since t t0 \<ge> REKEY_TIMEOUT)"

definition passive_keepalive_due :: "timers \<Rightarrow> ticks \<Rightarrow> bool" where
  "passive_keepalive_due tm t =
     (case last_data_rx tm of
        None \<Rightarrow> False
      | Some rx \<Rightarrow>
        let unanswered = is_none_or (last_any_tx tm) (\<lambda>tx. tx < rx)
        in unanswered \<and> since t rx \<ge> KEEPALIVE_TIMEOUT)"

definition passive_keepalive_at :: "timers \<Rightarrow> ticks option" where
  "passive_keepalive_at tm =
     (case last_data_rx tm of
        None \<Rightarrow> None
      | Some rx \<Rightarrow>
        let unanswered = is_none_or (last_any_tx tm) (\<lambda>tx. tx < rx)
        in if unanswered then Some (add_nanos rx KEEPALIVE_TIMEOUT) else None)"

definition dead_peer_due :: "timers \<Rightarrow> ticks \<Rightarrow> bool" where
  "dead_peer_due tm t =
     (if gave_up tm then False
      else case last_data_tx tm of
             None \<Rightarrow> False
           | Some tx \<Rightarrow>
             let unanswered = is_none_or (last_any_rx tm) (\<lambda>rx. rx < tx)
             in unanswered \<and> since t tx \<ge> DEAD_PEER_TIMEOUT)"

definition persistent_revive_allowed :: "timers \<Rightarrow> ticks \<Rightarrow> u64 \<Rightarrow> bool" where
  "persistent_revive_allowed tm t interval_ns =
     (if \<not> gave_up tm then True
      else is_none_or (last_initiation_tx tm) (\<lambda>t0. since t t0 \<ge> interval_ns))"

definition dead_peer_at :: "timers \<Rightarrow> ticks option" where
  "dead_peer_at tm =
     (if gave_up tm then None
      else case last_data_tx tm of
             None \<Rightarrow> None
           | Some tx \<Rightarrow>
             let unanswered = is_none_or (last_any_rx tm) (\<lambda>rx. rx < tx)
             in if unanswered then Some (add_nanos tx DEAD_PEER_TIMEOUT) else None)"

end
