(* ===== verification/Cookie.thy ===== *)
theory Cookie
  imports Message Aead Blake2s Entropy Wg_Time
begin

text \<open>
  \<open>src/src/cookie.rs\<close>: the mac keys, the initiator's last cookie, the responder's cookie
  jar, filling and checking \<open>mac1\<close>/\<open>mac2\<close>, the cookie reply, and the interface-level
  \<open>CookieChecker\<close>. Operations that draw entropy thread the source state.
\<close>

record mac_keys =
  mac1_send :: bytes
  mac1_recv :: bytes
  cookie_send :: bytes
  cookie_recv :: bytes

definition mac_keys_new :: "bytes \<Rightarrow> bytes \<Rightarrow> mac_keys" where
  "mac_keys_new local_public peer_public =
     \<lparr> mac1_send = blake2s_hash [LABEL_MAC1, peer_public],
       mac1_recv = blake2s_hash [LABEL_MAC1, local_public],
       cookie_send = blake2s_hash [LABEL_COOKIE, local_public],
       cookie_recv = blake2s_hash [LABEL_COOKIE, peer_public] \<rparr>"

record last_cookie =
  lc_value :: bytes
  lc_received_at :: ticks

definition fresh_value :: "last_cookie \<Rightarrow> ticks \<Rightarrow> bytes option" where
  "fresh_value c t = (if since t (lc_received_at c) < COOKIE_LIFETIME then Some (lc_value c) else None)"

record cookie_jar =
  jar_secret :: bytes
  jar_previous :: bytes
  jar_has_previous :: bool
  jar_rotated_at :: ticks
  jar_primed :: bool
  jar_nonce_counter :: "u64 \<times> u64 \<times> u64"

definition cookie_jar_new :: cookie_jar where
  "cookie_jar_new =
     \<lparr> jar_secret = replicate 32 0, jar_previous = replicate 32 0, jar_has_previous = False,
       jar_rotated_at = 0, jar_primed = False, jar_nonce_counter = (0, 0, 0) \<rparr>"

text \<open>The commit half of \<open>rotate_if_needed\<close>, run once all entropy has been drawn.\<close>

definition jar_rotate :: "cookie_jar \<Rightarrow> ticks \<Rightarrow> bytes \<Rightarrow> bytes option \<Rightarrow> cookie_jar" where
  "jar_rotate jar t fresh nonce_seed =
     (let jar' = jar\<lparr> jar_previous := jar_secret jar, jar_has_previous := jar_primed jar,
                      jar_secret := fresh, jar_rotated_at := t \<rparr>;
          jar' = (case nonce_seed of
                    Some seed \<Rightarrow>
                      jar'\<lparr> jar_nonce_counter :=
                             (from_le (take 8 seed), from_le (take 8 (drop 8 seed)),
                              from_le (take 8 (drop 16 seed))) \<rparr>
                  | None \<Rightarrow> jar')
      in jar'\<lparr> jar_primed := True \<rparr>)"

definition rotate_if_needed ::
  "'r fill \<Rightarrow> cookie_jar \<Rightarrow> ticks \<Rightarrow> 'r \<Rightarrow> unit result \<times> cookie_jar \<times> 'r" where
  "rotate_if_needed fill jar t rng =
     (if \<not> jar_primed jar \<or> since t (jar_rotated_at jar) \<ge> COOKIE_LIFETIME then
        (case entropy_result (gen32 fill rng) of
           (Inl e, rng) \<Rightarrow> (Inl e, jar, rng)
         | (Inr fresh, rng) \<Rightarrow>
           if jar_primed jar then (Inr (), jar_rotate jar t fresh None, rng)
           else (case entropy_result (fill rng 24) of
                   (Inl e, rng) \<Rightarrow> (Inl e, jar, rng)
                 | (Inr seed, rng) \<Rightarrow> (Inr (), jar_rotate jar t fresh (Some seed), rng)))
      else (Inr (), jar, rng))"

definition next_nonce :: "cookie_jar \<Rightarrow> bytes \<times> cookie_jar" where
  "next_nonce jar =
     (let (a, b, c) = jar_nonce_counter jar;
          (a, carry) = overflowing_add a 1;
          (b, carry) = overflowing_add b (if carry then 1 else 0);
          c = c + (if carry then 1 else 0)
      in (concat (map (le_bytes 8) [a, b, c]), jar\<lparr> jar_nonce_counter := (a, b, c) \<rparr>))"

definition jar_mint ::
  "'r fill \<Rightarrow> cookie_jar \<Rightarrow> ticks \<Rightarrow> 'r \<Rightarrow> bytes \<Rightarrow> bytes result \<times> cookie_jar \<times> 'r" where
  "jar_mint fill jar t rng remote =
     (case rotate_if_needed fill jar t rng of
        (Inl e, jar, rng) \<Rightarrow> (Inl e, jar, rng)
      | (Inr _, jar, rng) \<Rightarrow> (Inr (blake2s_mac (jar_secret jar) [remote]), jar, rng))"

definition verify_mac2 :: "cookie_jar \<Rightarrow> bytes \<Rightarrow> bytes \<Rightarrow> bytes \<Rightarrow> bool" where
  "verify_mac2 jar remote beta mac2 =
     (if \<not> jar_primed jar then False
      else let current = blake2s_mac (blake2s_mac (jar_secret jar) [remote]) [beta];
               previous = blake2s_mac (blake2s_mac (jar_previous jar) [remote]) [beta];
               ok_current = ct_eq current mac2;
               ok_previous = (ct_eq previous mac2 \<and> jar_has_previous jar)
           in ok_current \<or> ok_previous)"

definition apply_macs ::
  "mac_keys \<Rightarrow> last_cookie option \<Rightarrow> ticks \<Rightarrow> bytes \<Rightarrow> (bytes \<times> bytes) result" where
  "apply_macs keys cookie t msg =
     and_then (mac_slots msg) (\<lambda>(alpha, _, _).
       let mac1 = blake2s_mac (mac1_send keys) [alpha];
           mac2 = (case Option.bind cookie (\<lambda>c. fresh_value c t) of
                     Some v \<Rightarrow> blake2s_mac v [alpha, mac1]
                   | None \<Rightarrow> replicate 16 0)
       in Inr (mac1, alpha @ mac1 @ mac2))"

definition verify_mac1 :: "mac_keys \<Rightarrow> bytes \<Rightarrow> bytes \<Rightarrow> bool" where
  "verify_mac1 keys alpha mac1 = ct_eq (blake2s_mac (mac1_recv keys) [alpha]) mac1"

definition build_cookie_reply ::
  "'r fill \<Rightarrow> mac_keys \<Rightarrow> cookie_jar \<Rightarrow> ticks \<Rightarrow> 'r \<Rightarrow> u32 \<Rightarrow> bytes \<Rightarrow> bytes \<Rightarrow> bytes
     \<Rightarrow> nat result \<times> cookie_jar \<times> bytes \<times> 'r" where
  "build_cookie_reply fill keys jar t rng peer_sender_index their_mac1 remote out =
     (if length out < COOKIE_REPLY_LEN then (Inl BufferTooSmall, jar, out, rng)
      else case jar_mint fill jar t rng remote of
             (Inl e, jar, rng) \<Rightarrow> (Inl e, jar, out, rng)
           | (Inr cookie, jar, rng) \<Rightarrow>
             let (nonce, jar) = next_nonce jar;
                 (sealed, encrypted) =
                   xseal (cookie_send keys) nonce their_mac1 cookie (replicate 32 0)
             in if sealed \<noteq> Inr 32 then (Inl Internal, jar, out, rng)
                else (case build_cookie_message out peer_sender_index nonce encrypted of
                        (Inl e, out) \<Rightarrow> (Inl e, jar, out, rng)
                      | (Inr _, out) \<Rightarrow> (Inr COOKIE_REPLY_LEN, jar, out, rng)))"

definition consume_cookie_reply ::
  "mac_keys \<Rightarrow> bytes \<Rightarrow> cookie_reply \<Rightarrow> ticks \<Rightarrow> last_cookie result" where
  "consume_cookie_reply keys last_sent_mac1 msg t =
     (let (opened, cookie) =
            xopen (cookie_recv keys) (cr_nonce msg) last_sent_mac1 (cr_encrypted_cookie msg)
              (replicate 16 0)
      in if opened \<noteq> Inr 16 then Inl InvalidCookie
         else Inr \<lparr> lc_value = cookie, lc_received_at = t \<rparr>)"

subsection \<open>The interface-level checker\<close>

record cookie_checker =
  cc_keys :: mac_keys
  cc_jar :: cookie_jar

datatype handshake_gate = GateDrop | GateCookieReply nat | GatePass

definition cookie_checker_new :: "bytes \<Rightarrow> cookie_checker" where
  "cookie_checker_new local_public =
     \<lparr> cc_keys = mac_keys_new local_public local_public, cc_jar = cookie_jar_new \<rparr>"

definition gate ::
  "'r fill \<Rightarrow> cookie_checker \<Rightarrow> now \<Rightarrow> bytes \<Rightarrow> bool \<Rightarrow> bytes \<Rightarrow> bytes \<Rightarrow> 'r
     \<Rightarrow> handshake_gate result \<times> cookie_checker \<times> bytes \<times> 'r" where
  "gate fill cc t remote under_load datagram out rng =
     (case parse datagram of
        Inr (HandshakeInitiation m) \<Rightarrow>
          if \<not> verify_mac1 (cc_keys cc) (hi_alpha m) (hi_mac1 m) then (Inr GateDrop, cc, out, rng)
          else if under_load \<and> \<not> verify_mac2 (cc_jar cc) remote (hi_beta m) (hi_mac2 m) then
            (case build_cookie_reply fill (cc_keys cc) (cc_jar cc) (now_ticks t) rng
                    (hi_sender_index m) (hi_mac1 m) remote out of
               (Inl e, jar, out, rng) \<Rightarrow> (Inl e, cc\<lparr> cc_jar := jar \<rparr>, out, rng)
             | (Inr n, jar, out, rng) \<Rightarrow> (Inr (GateCookieReply n), cc\<lparr> cc_jar := jar \<rparr>, out, rng))
          else (Inr GatePass, cc, out, rng)
      | _ \<Rightarrow> (Inr GatePass, cc, out, rng))"

subsection \<open>Stamping and checking the macs\<close>

text \<open>The value of the \<open>mac2\<close> field \<open>apply_macs\<close> writes.\<close>

definition mac2_value :: "last_cookie option \<Rightarrow> ticks \<Rightarrow> bytes \<Rightarrow> bytes" where
  "mac2_value cookie t beta =
     (case Option.bind cookie (\<lambda>c. fresh_value c t) of
        Some v \<Rightarrow> blake2s_mac v [beta] | None \<Rightarrow> replicate 16 0)"

lemma length_mac2_value [simp, len_simps]: "length (mac2_value c t beta) = 16"
  by (simp add: mac2_value_def split: option.splits)

lemma blake2s_mac_parts: "concat ps = concat qs \<Longrightarrow> blake2s_mac k ps = blake2s_mac k qs"
  by (simp add: blake2s_mac_spec)

lemma apply_macs_eq:
  "apply_macs keys cookie t msg =
    (if length msg = 148 \<or> length msg = 92
     then let alpha = take (length msg - 32) msg; mac1 = blake2s_mac (mac1_send keys) [alpha]
          in Inr (mac1, alpha @ mac1 @ mac2_value cookie t (alpha @ mac1))
     else Inl InvalidPacket)"
  using blake2s_mac_parts
  by (simp add: apply_macs_def mac_slots_eq mac2_value_def Let_def split: option.splits)

definition stamp_initiation :: "mac_keys \<Rightarrow> last_cookie option \<Rightarrow> ticks \<Rightarrow> handshake_initiation \<Rightarrow> handshake_initiation" where
  "stamp_initiation keys cookie t m =
     (let mac1 = blake2s_mac (mac1_send keys) [hi_alpha m]
      in m\<lparr> hi_mac1 := mac1, hi_mac2 := mac2_value cookie t (hi_alpha m @ mac1), hi_beta := hi_alpha m @ mac1 \<rparr>)"

definition stamp_response :: "mac_keys \<Rightarrow> last_cookie option \<Rightarrow> ticks \<Rightarrow> handshake_response \<Rightarrow> handshake_response" where
  "stamp_response keys cookie t m =
     (let mac1 = blake2s_mac (mac1_send keys) [hr_alpha m]
      in m\<lparr> hr_mac1 := mac1, hr_mac2 := mac2_value cookie t (hr_alpha m @ mac1), hr_beta := hr_alpha m @ mac1 \<rparr>)"

lemma apply_macs_initiation:
  assumes "packet_wf (HandshakeInitiation m)"
  shows "apply_macs keys cookie t (packet_bytes (HandshakeInitiation m)) =
      Inr (hi_mac1 (stamp_initiation keys cookie t m),
           packet_bytes (HandshakeInitiation (stamp_initiation keys cookie t m)))"
    and "packet_wf (HandshakeInitiation (stamp_initiation keys cookie t m))"
  using assms by (auto simp: apply_macs_eq stamp_initiation_def Let_def)

lemma apply_macs_response:
  assumes "packet_wf (HandshakeResponse m)"
  shows "apply_macs keys cookie t (packet_bytes (HandshakeResponse m)) =
      Inr (hr_mac1 (stamp_response keys cookie t m),
           packet_bytes (HandshakeResponse (stamp_response keys cookie t m)))"
    and "packet_wf (HandshakeResponse (stamp_response keys cookie t m))"
  using assms by (auto simp: apply_macs_eq stamp_response_def Let_def)

lemma mac_keys_cross:
  "mac1_recv (mac_keys_new b x) = mac1_send (mac_keys_new a b)"
  "cookie_recv (mac_keys_new a b) = cookie_send (mac_keys_new b x)"
  by (simp_all add: mac_keys_new_def)

lemma stamped_mac1_verifies:
  assumes "mac1_recv keys' = mac1_send keys"
  shows "verify_mac1 keys' (hi_alpha (stamp_initiation keys c t m)) (hi_mac1 (stamp_initiation keys c t m))"
    and "verify_mac1 keys' (hr_alpha (stamp_response keys c t r)) (hr_mac1 (stamp_response keys c t r))"
  using assms by (simp_all add: verify_mac1_def stamp_initiation_def stamp_response_def Let_def)

subsection \<open>The jar\<close>

lemma verify_mac2_iff:
  "verify_mac2 jar remote beta mac2 \<longleftrightarrow>
     jar_primed jar \<and>
     (mac2 = blake2s_mac (blake2s_mac (jar_secret jar) [remote]) [beta] \<or>
      jar_has_previous jar \<and> mac2 = blake2s_mac (blake2s_mac (jar_previous jar) [remote]) [beta])"
  by (auto simp: verify_mac2_def Let_def)

text \<open>Whether \<open>jar\<close> still accepts cookies minted under \<open>secret\<close> at time \<open>t\<close>: the secret is
  the current one, or the previous one and it was replaced at \<open>t\<close> or later.\<close>

definition jar_honours :: "cookie_jar \<Rightarrow> bytes \<Rightarrow> ticks \<Rightarrow> bool" where
  "jar_honours jar secret t \<longleftrightarrow>
     jar_primed jar \<and>
     (jar_secret jar = secret \<or>
      jar_previous jar = secret \<and> jar_has_previous jar \<and> t \<le> jar_rotated_at jar)"

lemma jar_honours_verify:
  assumes "jar_honours jar secret t"
  shows "verify_mac2 jar remote beta (blake2s_mac (blake2s_mac secret [remote]) [beta])"
  using assms by (auto simp: jar_honours_def verify_mac2_iff)

lemma jar_rotate_fields [simp]:
  "jar_previous (jar_rotate jar t fresh seed) = jar_secret jar"
  "jar_has_previous (jar_rotate jar t fresh seed) = jar_primed jar"
  "jar_secret (jar_rotate jar t fresh seed) = fresh"
  "jar_rotated_at (jar_rotate jar t fresh seed) = t"
  "jar_primed (jar_rotate jar t fresh seed)"
  "jar_nonce_counter (jar_rotate jar t fresh None) = jar_nonce_counter jar"
  by (simp_all add: jar_rotate_def Let_def split: option.splits)

text \<open>The three outcomes of \<open>rotate_if_needed\<close>.\<close>

lemma rotate_if_needed_cases:
  obtains (fresh) rng' where "rotate_if_needed fill jar t rng = (Inr (), jar, rng')" "jar_primed jar"
      "\<not> COOKIE_LIFETIME \<le> since t (jar_rotated_at jar)"
    | (failed) rng' where "rotate_if_needed fill jar t rng = (Inl EntropyFailure, jar, rng')"
    | (rotated) s seed rng' where "rotate_if_needed fill jar t rng = (Inr (), jar_rotate jar t s seed, rng')"
      "\<not> jar_primed jar \<or> COOKIE_LIFETIME \<le> since t (jar_rotated_at jar)"
      "seed = None \<longleftrightarrow> jar_primed jar"
proof (cases "\<not> jar_primed jar \<or> COOKIE_LIFETIME \<le> since t (jar_rotated_at jar)")
  case True
  obtain g rng1 where g: "gen32 fill rng = (g, rng1)" by force
  obtain u rng2 where u: "fill rng1 24 = (u, rng2)" by force
  show thesis
    using True g u rotated failed
    by (cases g; cases u; cases "jar_primed jar") (auto simp: rotate_if_needed_def entropy_result_def)
next
  case False
  then show thesis using fresh by (simp add: rotate_if_needed_def not_le)
qed

lemma rotate_honours:
  assumes "jar_honours jar secret t" and "t \<le> t'" and "unat t' < unat t + unat COOKIE_LIFETIME"
  shows "jar_honours (fst (snd (rotate_if_needed fill jar t' rng))) secret t"
proof (rule rotate_if_needed_cases [of fill jar t' rng])
  fix s seed rng'
  assume r: "rotate_if_needed fill jar t' rng = (Inr (), jar_rotate jar t' s seed, rng')"
    and "\<not> jar_primed jar \<or> COOKIE_LIFETIME \<le> since t' (jar_rotated_at jar)"
  then have "unat COOKIE_LIFETIME \<le> unat t' - unat (jar_rotated_at jar)"
    using assms(1) by (simp add: jar_honours_def since_ge_iff)
  moreover have "0 < unat COOKIE_LIFETIME" by (simp add: const_defs)
  ultimately have "\<not> t \<le> jar_rotated_at jar" using assms(3) by (simp add: word_le_nat_alt)
  then have "jar_secret jar = secret" "jar_primed jar" using assms(1) by (auto simp: jar_honours_def)
  then show ?thesis using assms(2) by (simp add: r jar_honours_def)
qed (use assms(1) in simp_all)

lemma mint_honours:
  assumes "jar_mint fill jar t rng remote = (Inr cookie, jar', rng')"
  shows "\<exists>secret. jar_honours jar' secret t \<and> cookie = blake2s_mac secret [remote]"
proof -
  have "jar' = fst (snd (rotate_if_needed fill jar t rng))" "cookie = blake2s_mac (jar_secret jar') [remote]"
    "\<exists>u. fst (rotate_if_needed fill jar t rng) = Inr u"
    using assms by (auto simp: jar_mint_def split: prod.splits sum.splits)
  moreover from this have "jar_primed jar'"
    by (cases rule: rotate_if_needed_cases [of fill jar t rng]) auto
  ultimately show ?thesis by (auto simp: jar_honours_def)
qed

lemma next_nonce_fields [simp]:
  "jar_secret (snd (next_nonce jar)) = jar_secret jar"
  "jar_previous (snd (next_nonce jar)) = jar_previous jar"
  "jar_has_previous (snd (next_nonce jar)) = jar_has_previous jar"
  "jar_rotated_at (snd (next_nonce jar)) = jar_rotated_at jar"
  "jar_primed (snd (next_nonce jar)) = jar_primed jar"
  by (simp_all add: next_nonce_def Let_def split: prod.splits)

lemma next_nonce_honours [simp]: "jar_honours (snd (next_nonce jar)) s t = jar_honours jar s t"
  by (simp add: jar_honours_def)

lemma length_next_nonce [simp, len_simps]: "length (fst (next_nonce jar)) = 24"
  by (simp add: next_nonce_def Let_def split: prod.splits)

text \<open>The nonce counter as a number.\<close>

definition jar_nonce_nat :: "cookie_jar \<Rightarrow> nat" where
  "jar_nonce_nat jar =
     (case jar_nonce_counter jar of (a, b, c) \<Rightarrow> unat a + 2 ^ 64 * unat b + 2 ^ 128 * unat c)"

lemma le_nat_u64s:
  "le_nat (concat (map (le_bytes 8) [a, b, c :: u64])) = unat a + 2 ^ 64 * unat b + 2 ^ 128 * unat c"
  using unat_less_exp [of a] unat_less_exp [of b] unat_less_exp [of c]
  by (simp add: le_nat_append le_nat_le_bytes)

lemma overflowing_inc:
  assumes "overflowing_add (a :: u64) (if carry then 1 else 0) = (a', carry')"
  shows "unat a' + (if carry' then 2 ^ 64 else 0) = unat a + (if carry then 1 else 0)"
  using assms unat_less_exp [of a]
  by (auto simp: overflowing_add_def unat_word_ariths mod_if split: if_splits)

lemma next_nonce_nat:
  "jar_nonce_nat (snd (next_nonce jar)) = (jar_nonce_nat jar + 1) mod 2 ^ 192"
  "le_nat (fst (next_nonce jar)) = (jar_nonce_nat jar + 1) mod 2 ^ 192"
proof -
  obtain a b c where j: "jar_nonce_counter jar = (a, b, c)" by (cases "jar_nonce_counter jar")
  obtain a' ca where a: "overflowing_add a 1 = (a', ca)" by force
  obtain b' cb where b: "overflowing_add b (if ca then 1 else 0) = (b', cb)" by force
  define c' where "c' = c + (if cb then 1 else 0)"
  have n: "next_nonce jar = (concat (map (le_bytes 8) [a', b', c']), jar\<lparr> jar_nonce_counter := (a', b', c') \<rparr>)"
    by (simp add: next_nonce_def j a b c'_def Let_def)
  have ea: "unat a' + (if ca then 2 ^ 64 else 0) = unat a + 1"
    using overflowing_inc [of a True a' ca] a by simp
  have eb: "unat b' + (if cb then 2 ^ 64 else 0) = unat b + (if ca then 1 else 0)"
    using overflowing_inc [OF b] .
  have ec: "unat c' = (unat c + (if cb then 1 else 0)) mod 2 ^ 64"
    by (simp add: c'_def unat_word_ariths)
  have lt: "unat a' + 2 ^ 64 * unat b' < 2 ^ 128"
    using unat_less_exp [of a'] unat_less_exp [of b'] by simp
  have "unat a + 2 ^ 64 * unat b + 2 ^ 128 * unat c + 1
      = unat a' + 2 ^ 64 * unat b' + 2 ^ 128 * (unat c + (if cb then 1 else 0))"
    using ea eb by (simp split: if_splits)
  also have "\<dots> mod 2 ^ 192 = unat a' + 2 ^ 64 * unat b' + 2 ^ 128 * unat c'"
  proof -
    have p: "(2 ^ 192 :: nat) = 2 ^ 128 * 2 ^ 64" by simp
    show ?thesis unfolding ec p by (rule mod_digits [OF lt])
  qed
  finally have e: "(jar_nonce_nat jar + 1) mod 2 ^ 192 = unat a' + 2 ^ 64 * unat b' + 2 ^ 128 * unat c'"
    by (simp add: jar_nonce_nat_def j)
  show "jar_nonce_nat (snd (next_nonce jar)) = (jar_nonce_nat jar + 1) mod 2 ^ 192"
    using e by (simp add: n jar_nonce_nat_def)
  show "le_nat (fst (next_nonce jar)) = (jar_nonce_nat jar + 1) mod 2 ^ 192"
    unfolding e n using le_nat_u64s by simp
qed

subsection \<open>Cookie replies\<close>

definition xencrypt :: "bytes \<Rightarrow> bytes \<Rightarrow> bytes \<Rightarrow> bytes \<Rightarrow> bytes" where
  "xencrypt key nonce aad p =
     (case xchacha_derive key nonce of (k, n) \<Rightarrow> aead_encrypt scalar_apply_keystream k n aad p)"

lemma length_xencrypt [simp, len_simps]: "length (xencrypt key nonce aad p) = length p + 16"
  by (simp add: xencrypt_def scalar.length_aead_encrypt TAG_LEN_def split: prod.splits)

lemma xseal_exact:
  assumes "length p + 16 = length out" and "length out \<le> usize_max"
  shows "xseal key nonce aad p out = (Inr (length out), xencrypt key nonce aad p)"
  using assms by (simp add: xseal_def xencrypt_def seal_exact split: prod.splits)

lemma xopen_exact:
  assumes "length p = length out"
  shows "xopen key nonce aad (xencrypt key nonce aad p) out = (Inr (length out), p)"
  using assms by (simp add: xopen_def xencrypt_def open_exact_encrypt split: prod.splits)

definition reply_packet :: "mac_keys \<Rightarrow> u32 \<Rightarrow> bytes \<Rightarrow> bytes \<Rightarrow> bytes \<Rightarrow> cookie_reply" where
  "reply_packet keys idx mac1 nonce cookie =
     \<lparr> cr_receiver_index = idx, cr_nonce = nonce,
       cr_encrypted_cookie = xencrypt (cookie_send keys) nonce mac1 cookie \<rparr>"

lemma length_mint: "jar_mint fill jar t rng remote = (Inr cookie, jar', rng') \<Longrightarrow> length cookie = 16"
  by (auto simp: jar_mint_def split: prod.splits sum.splits)

lemma build_cookie_reply_eq:
  "build_cookie_reply fill keys jar t rng idx mac1 remote out =
    (if length out < 64 then (Inl BufferTooSmall, jar, out, rng)
     else case jar_mint fill jar t rng remote of
            (Inl e, jar', rng') \<Rightarrow> (Inl e, jar', out, rng')
          | (Inr cookie, jar', rng') \<Rightarrow>
            (Inr 64, snd (next_nonce jar'),
             packet_bytes (CookieReply (reply_packet keys idx mac1 (fst (next_nonce jar')) cookie)) @ drop 64 out,
             rng'))"
proof (cases "jar_mint fill jar t rng remote")
  case (fields r jar' rng')
  then show ?thesis
    using length_mint [of fill jar t rng remote]
    by (cases r; cases "next_nonce jar'")
      (use length_next_nonce [of jar'] in \<open>auto simp: build_cookie_reply_def Let_def xseal_exact build_cookie_message_eq
        reply_packet_def const_defs split: prod.splits\<close>)
qed

lemma consume_reply_packet:
  assumes "cookie_recv keys' = cookie_send keys" and "length cookie = 16"
  shows "consume_cookie_reply keys' mac1 (reply_packet keys idx mac1 nonce cookie) t =
    Inr \<lparr> lc_value = cookie, lc_received_at = t \<rparr>"
  using assms by (simp add: consume_cookie_reply_def reply_packet_def xopen_exact)

text \<open>A jar error is \<open>EntropyFailure\<close> and leaves the jar as it was.\<close>

lemma mint_error:
  assumes "jar_mint fill jar t rng remote = (Inl e, jar', rng')"
  shows "jar' = jar \<and> e = EntropyFailure"
  using assms
  by (cases rule: rotate_if_needed_cases [of fill jar t rng]) (auto simp: jar_mint_def)

lemma build_cookie_reply_error:
  assumes "build_cookie_reply fill keys jar t rng idx mac1 remote out = (Inl e, jar', out', rng')"
  shows "jar' = jar \<and> out' = out \<and> (e = BufferTooSmall \<and> length out < 64 \<or> e = EntropyFailure)"
  using assms mint_error [of fill jar t rng remote]
  by (auto simp: build_cookie_reply_eq split: if_splits prod.splits sum.splits)

lemma mint_ok:
  assumes "jar_mint fill jar t rng remote = (Inr cookie, jar', rng')"
  shows "jar_primed jar' \<and> (jar' = jar \<or> (\<exists>s seed. jar' = jar_rotate jar t s seed \<and> (seed = None \<longleftrightarrow> jar_primed jar)))"
  using assms
  by (cases rule: rotate_if_needed_cases [of fill jar t rng]) (auto simp: jar_mint_def)

lemma mint_nonce:
  assumes "jar_mint fill jar t rng remote = (Inr cookie, jar', rng')"
  shows "jar_primed jar'" and "jar_primed jar \<Longrightarrow> jar_nonce_nat jar' = jar_nonce_nat jar"
  using mint_ok [OF assms] by (auto simp: jar_nonce_nat_def)

text \<open>A responder answering a sequence of requests: the datagrams it sends and its final state.\<close>

fun reply_run ::
  "'r fill \<Rightarrow> mac_keys \<Rightarrow> (ticks \<times> u32 \<times> bytes \<times> bytes \<times> bytes) list \<Rightarrow> cookie_jar \<Rightarrow> 'r
     \<Rightarrow> bytes list \<times> cookie_jar \<times> 'r" where
  "reply_run fill keys [] jar rng = ([], jar, rng)"
| "reply_run fill keys ((t, idx, mac1, remote, out) # reqs) jar rng =
     (case build_cookie_reply fill keys jar t rng idx mac1 remote out of
        (r, jar, out, rng) \<Rightarrow>
          (case reply_run fill keys reqs jar rng of
             (sent, jar, rng) \<Rightarrow>
               ((case r of Inl _ \<Rightarrow> [] | Inr n \<Rightarrow> [take n out]) @ sent, jar, rng)))"

definition reply_nonce :: "bytes \<Rightarrow> bytes" where
  "reply_nonce d = take 24 (drop 8 d)"

lemma reply_nonce_packet:
  "length n = 24 \<Longrightarrow> length c = 16 \<Longrightarrow>
     reply_nonce (take 64 (packet_bytes (CookieReply (reply_packet keys idx mac1 n c)) @ rest)) = n"
  by (simp add: reply_nonce_def reply_packet_def)

lemma reply_run_nonces:
  "\<exists>N. map (\<lambda>d. le_nat (reply_nonce d)) (fst (reply_run fill keys reqs jar rng))
       = map (\<lambda>i. (N + i) mod 2 ^ 192) [0..<length (fst (reply_run fill keys reqs jar rng))]
     \<and> (jar_primed jar \<longrightarrow> N = jar_nonce_nat jar + 1)"
proof (induction reqs arbitrary: jar rng)
  case (Cons req reqs)
  obtain t idx mac1 remote out where req: "req = (t, idx, mac1, remote, out)" by (cases req)
  show ?case
  proof (cases "build_cookie_reply fill keys jar t rng idx mac1 remote out")
    case (fields r jar' out' rng')
    show ?thesis
    proof (cases r)
      case (Inl e)
      with fields have "jar' = jar" using build_cookie_reply_error [of fill keys jar t rng idx mac1 remote out] by auto
      with Cons.IH [of jar rng'] Inl fields show ?thesis
        by (auto simp: req split: prod.splits)
    next
      case (Inr n)
      obtain cookie jar1 where m: "jar_mint fill jar t rng remote = (Inr cookie, jar1, rng')"
        and j: "jar' = snd (next_nonce jar1)" and n: "n = 64"
        and o: "out' = packet_bytes (CookieReply (reply_packet keys idx mac1 (fst (next_nonce jar1)) cookie)) @ drop 64 out"
        using fields Inr by (auto simp: build_cookie_reply_eq split: if_splits prod.splits sum.splits)
      define N where "N = jar_nonce_nat jar1 + 1"
      define sent where "sent = fst (reply_run fill keys reqs jar' rng')"
      have p: "jar_primed jar'" using mint_nonce(1) [OF m] by (simp add: j)
      have "map (\<lambda>d. le_nat (reply_nonce d)) sent = map (\<lambda>i. (jar_nonce_nat jar' + 1 + i) mod 2 ^ 192) [0..<length sent]"
        using Cons.IH [of jar' rng'] p unfolding sent_def by auto
      also have "\<dots> = map (\<lambda>i. (N + Suc i) mod 2 ^ 192) [0..<length sent]"
        unfolding j next_nonce_nat N_def by (intro map_cong refl) (rule mod_shift)
      finally have s: "map (\<lambda>d. le_nat (reply_nonce d)) sent = map (\<lambda>i. (N + Suc i) mod 2 ^ 192) [0..<length sent]" .
      have f: "fst (reply_run fill keys (req # reqs) jar rng) = take 64 out' # sent"
        using fields Inr n by (simp add: req sent_def split: prod.splits)
      have hd: "le_nat (reply_nonce (take 64 out')) = N mod 2 ^ 192"
        using length_mint [OF m] unfolding o by (simp add: next_nonce_nat N_def reply_nonce_packet del: packet_bytes.simps take_append)
      have "map (\<lambda>d. le_nat (reply_nonce d)) (take 64 out' # sent) = map (\<lambda>i. (N + i) mod 2 ^ 192) [0..<Suc (length sent)]"
        using s hd by (simp add: upt_conv_Cons map_Suc_upt [symmetric] comp_def del: upt_Suc)
      then show ?thesis
        using mint_nonce(2) [OF m] unfolding f by (intro exI [of _ N]) (auto simp: N_def)
    qed
  qed
qed simp

lemma reply_run_honours:
  assumes "jar_honours jar secret t"
    and "\<forall>req \<in> set reqs. t \<le> fst req \<and> unat (fst req) < unat t + unat COOKIE_LIFETIME"
  shows "jar_honours (fst (snd (reply_run fill keys reqs jar rng))) secret t"
  using assms
proof (induction reqs arbitrary: jar rng)
  case (Cons req reqs)
  obtain t' idx mac1 remote out where req: "req = (t', idx, mac1, remote, out)" by (cases req)
  have h: "jar_honours (fst (snd (rotate_if_needed fill jar t' rng))) secret t"
    by (rule rotate_honours [OF Cons.prems(1)]) (use Cons.prems(2) in \<open>simp_all add: req\<close>)
  have "jar_honours (fst (snd (build_cookie_reply fill keys jar t' rng idx mac1 remote out))) secret t"
    using h Cons.prems(1)
    by (auto simp: build_cookie_reply_eq jar_mint_def split: prod.splits sum.splits)
  then show ?case using Cons.IH Cons.prems by (simp add: req case_prod_beta)
qed simp

lemma build_cookie_reply_ok:
  assumes "build_cookie_reply fill keys jar t rng idx mac1 remote out = (Inr n, jar', out', rng')"
  shows "n = 64 \<and> jar_primed jar'
    \<and> (\<exists>c. parse (take 64 out') = Inr (CookieReply c) \<and> cr_receiver_index c = idx)"
proof -
  obtain cookie jar1 where m: "jar_mint fill jar t rng remote = (Inr cookie, jar1, rng')"
    and j: "jar' = snd (next_nonce jar1)" and n: "n = 64"
    and o: "out' = packet_bytes (CookieReply (reply_packet keys idx mac1 (fst (next_nonce jar1)) cookie)) @ drop 64 out"
    using assms by (auto simp: build_cookie_reply_eq split: if_splits prod.splits sum.splits)
  have "parse (take 64 out') = Inr (CookieReply (reply_packet keys idx mac1 (fst (next_nonce jar1)) cookie))"
    using length_mint [OF m] unfolding o parse_iff by (simp add: reply_packet_def)
  then show ?thesis using mint_nonce(1) [OF m] by (auto simp: n j reply_packet_def)
qed

lemma length_reply_run: "length (fst (reply_run fill keys reqs jar rng)) \<le> length reqs"
proof (induction reqs arbitrary: jar rng)
  case (Cons req reqs)
  obtain t idx mac1 remote out where req: "req = (t, idx, mac1, remote, out)" by (cases req)
  obtain r jar' out' rng' where b: "build_cookie_reply fill keys jar t rng idx mac1 remote out = (r, jar', out', rng')"
    by (cases "build_cookie_reply fill keys jar t rng idx mac1 remote out")
  show ?case using Cons.IH [of jar' rng'] by (auto simp: req b split: prod.splits sum.splits)
qed simp

lemma gate_initiation:
  assumes "packet_wf (HandshakeInitiation m)"
  shows "gate fill cc t remote under_load (packet_bytes (HandshakeInitiation m)) out rng =
    (if \<not> verify_mac1 (cc_keys cc) (hi_alpha m) (hi_mac1 m) then (Inr GateDrop, cc, out, rng)
     else if under_load \<and> \<not> verify_mac2 (cc_jar cc) remote (hi_beta m) (hi_mac2 m) then
       (case build_cookie_reply fill (cc_keys cc) (cc_jar cc) (now_ticks t) rng
               (hi_sender_index m) (hi_mac1 m) remote out of
          (Inl e, jar, out, rng) \<Rightarrow> (Inl e, cc\<lparr> cc_jar := jar \<rparr>, out, rng)
        | (Inr n, jar, out, rng) \<Rightarrow> (Inr (GateCookieReply n), cc\<lparr> cc_jar := jar \<rparr>, out, rng))
     else (Inr GatePass, cc, out, rng))"
  using parse_packet_bytes [OF assms] by (simp add: gate_def)

subsection \<open>Properties\<close>

text \<open>C14: the cookie exchange works end to end and for the whole advertised lifetime. If the loaded
  responder \<open>b\<close> answers a message with \<open>mac1\<close> from \<open>remote\<close> at time \<open>t\<close>, then its reply parses as
  a cookie reply for the sender's index, the sender accepts it as the answer to that \<open>mac1\<close>, and
  any later initiation the sender stamps while the cookie is fresh passes the responder's gate
  under load from the same endpoint, whatever cookie replies (with whatever secret rotations) the
  responder has produced in the two minutes since \<open>t\<close>.\<close>

theorem cookie_dance:
  assumes "build_cookie_reply fill (mac_keys_new b x) jar t rng idx mac1 remote out = (Inr n, jar1, out1, rng1)"
    and "\<forall>req \<in> set reqs. t \<le> fst req \<and> unat (fst req) < unat t + unat COOKIE_LIFETIME"
    and "reply_run fill (mac_keys_new b x) reqs jar1 rng1 = (sent, jar2, rng2)"
    and "since t2 t1 < COOKIE_LIFETIME"
    and "parse d = Inr (HandshakeInitiation m)"
  shows "\<exists>c ck d' m'.
    parse (take n out1) = Inr (CookieReply c) \<and> cr_receiver_index c = idx
    \<and> consume_cookie_reply (mac_keys_new a b) mac1 c t1 = Inr ck
    \<and> apply_macs (mac_keys_new a b) (Some ck) t2 d = Inr (hi_mac1 m', d')
    \<and> parse d' = Inr (HandshakeInitiation m')
    \<and> gate fill \<lparr> cc_keys = mac_keys_new b x, cc_jar = jar2 \<rparr> now remote True d' out2 rng3
        = (Inr GatePass, \<lparr> cc_keys = mac_keys_new b x, cc_jar = jar2 \<rparr>, out2, rng3)"
proof -
  obtain cookie jar0 where mint: "jar_mint fill jar t rng remote = (Inr cookie, jar0, rng1)"
    and j: "jar1 = snd (next_nonce jar0)" and n: "n = 64"
    and o: "out1 = packet_bytes (CookieReply (reply_packet (mac_keys_new b x) idx mac1 (fst (next_nonce jar0)) cookie)) @ drop 64 out"
    using assms(1) by (auto simp: build_cookie_reply_eq split: if_splits prod.splits sum.splits)
  define c where "c = reply_packet (mac_keys_new b x) idx mac1 (fst (next_nonce jar0)) cookie"
  define ck where "ck = \<lparr> lc_value = cookie, lc_received_at = t1 \<rparr>"
  define m' where "m' = stamp_initiation (mac_keys_new a b) (Some ck) t2 m"
  obtain secret where h: "jar_honours jar0 secret t" and ck_eq: "cookie = blake2s_mac secret [remote]"
    using mint_honours [OF mint] by blast
  have "jar_honours jar2 secret t"
    using reply_run_honours [of jar1 secret t reqs fill "mac_keys_new b x" rng1] h assms(2,3) by (simp add: j)
  then have v2: "verify_mac2 jar2 remote (hi_beta m') (hi_mac2 m')"
    using jar_honours_verify assms(4)
    by (simp add: m'_def stamp_initiation_def mac2_value_def fresh_value_def ck_def ck_eq Let_def)
  have v1: "verify_mac1 (mac_keys_new b x) (hi_alpha m') (hi_mac1 m')"
    unfolding m'_def by (rule stamped_mac1_verifies(1)) (rule mac_keys_cross)
  have wf: "packet_wf (HandshakeInitiation m)" and d: "d = packet_bytes (HandshakeInitiation m)"
    using assms(5) by (simp_all add: parse_iff del: packet_wf.simps packet_bytes.simps)
  have wf': "packet_wf (HandshakeInitiation m')"
    and d': "apply_macs (mac_keys_new a b) (Some ck) t2 d = Inr (hi_mac1 m', packet_bytes (HandshakeInitiation m'))"
    unfolding m'_def d by (rule apply_macs_initiation [OF wf])+
  have l: "length cookie = 16" by (rule length_mint [OF mint])
  have cw: "packet_wf (CookieReply c)" "take n out1 = packet_bytes (CookieReply c)"
    using l by (simp_all add: n o c_def reply_packet_def)
  have idx: "cr_receiver_index c = idx" by (simp add: c_def reply_packet_def)
  have cc: "consume_cookie_reply (mac_keys_new a b) mac1 c t1 = Inr ck"
    unfolding c_def ck_def by (rule consume_reply_packet [OF mac_keys_cross(2) l])
  show ?thesis
    using parse_packet_bytes [OF cw(1)] cw(2) idx cc d' parse_packet_bytes [OF wf'] v1 v2
    by (intro exI [of _ c] exI [of _ ck] exI [of _ "packet_bytes (HandshakeInitiation m')"] exI [of _ m'])
      (simp add: gate_initiation [OF wf'] del: packet_bytes.simps)
qed

definition blank_initiation :: handshake_initiation where
  "blank_initiation =
     \<lparr> hi_sender_index = 7, hi_ephemeral = replicate 32 1, hi_encrypted_static = replicate 48 2,
       hi_encrypted_timestamp = replicate 28 3, hi_mac1 = replicate 16 0, hi_mac2 = replicate 16 0,
       hi_alpha = [1, 0, 0, 0, 7, 0, 0, 0] @ replicate 32 1 @ replicate 48 2 @ replicate 28 3,
       hi_beta = ([1, 0, 0, 0, 7, 0, 0, 0] @ replicate 32 1 @ replicate 48 2 @ replicate 28 3) @ replicate 16 0 \<rparr>"

lemma blank_initiation_parses:
  "parse (packet_bytes (HandshakeInitiation blank_initiation)) = Inr (HandshakeInitiation blank_initiation)"
proof -
  have "le_bytes 4 (7 :: u32) = [7, 0, 0, 0]" by code_simp
  then show ?thesis by (intro parse_packet_bytes) (simp add: blank_initiation_def)
qed

theorem cookie_dance_witness:
  "\<exists>jar1 out1 c ck d' m'.
     build_cookie_reply (\<lambda>r n. (Some (replicate n 7), r)) (mac_keys_new [2] [2]) cookie_jar_new 0 () 5
       (replicate 16 1) [9] (replicate 64 0) = (Inr 64, jar1, out1, ())
     \<and> parse (take 64 out1) = Inr (CookieReply c) \<and> cr_receiver_index c = 5
     \<and> consume_cookie_reply (mac_keys_new [3] [2]) (replicate 16 1) c 1 = Inr ck
     \<and> apply_macs (mac_keys_new [3] [2]) (Some ck) 2 (packet_bytes (HandshakeInitiation blank_initiation)) = Inr (hi_mac1 m', d')
     \<and> parse d' = Inr (HandshakeInitiation m')"
proof -
  define B where "B = build_cookie_reply (\<lambda>r n. (Some (replicate n (7 :: u8)), r)) (mac_keys_new [2] [2])
      cookie_jar_new 0 () 5 (replicate 16 1) [9] (replicate 64 0)"
  have "fst B = Inr 64"
    by (simp add: B_def build_cookie_reply_eq jar_mint_def rotate_if_needed_def cookie_jar_new_def gen32_def
        entropy_result_def)
  then obtain jar1 out1 where B: "B = (Inr 64, jar1, out1, ())" by (cases B) simp
  have f: "since 2 1 < COOKIE_LIFETIME" by code_simp
  have r: "reply_run (\<lambda>r n. (Some (replicate n 7), r)) (mac_keys_new [2] [2]) [] jar1 () = ([], jar1, ())"
    by simp
  have t: "\<forall>req \<in> set []. (0 :: ticks) \<le> fst req \<and> unat (fst req) < unat (0 :: ticks) + unat COOKIE_LIFETIME"
    by simp
  from cookie_dance [OF B [unfolded B_def] t r f blank_initiation_parses,
      of "[3]" "\<lparr> now_ticks = 0, unix_secs = 0, unix_nanos = 0 \<rparr>" "[]" "()"]
  show ?thesis using B [unfolded B_def] by blast
qed

text \<open>C27: no cookie-reply nonce repeats. Along any sequence of requests served by one jar, across
  every rotation of its secret and every entropy failure, the XChaCha20 nonces of the replies it
  sends are pairwise distinct (up to \<open>2^192\<close> replies).\<close>

theorem cookie_nonces_distinct:
  assumes "length reqs \<le> 2 ^ 192"
  shows "distinct (map reply_nonce (fst (reply_run fill keys reqs jar rng)))"
proof -
  let ?sent = "fst (reply_run fill keys reqs jar rng)"
  obtain N where "map (\<lambda>d. le_nat (reply_nonce d)) ?sent = map (\<lambda>i. (N + i) mod 2 ^ 192) [0..<length ?sent]"
    using reply_run_nonces [of fill keys reqs jar rng] by blast
  moreover have "distinct (map (\<lambda>i. (N + i) mod 2 ^ 192) [0..<length ?sent])"
    using length_reply_run [of fill keys reqs jar rng] assms by (intro distinct_mod_shift) simp
  ultimately have "distinct (map le_nat (map reply_nonce ?sent))" by (simp add: comp_def)
  then show ?thesis unfolding distinct_map by blast
qed

theorem cookie_nonces_distinct_witness:
  "distinct (map reply_nonce (fst (reply_run (\<lambda>r n. (Some (replicate n 255), r)) (mac_keys_new [2] [2])
     [(0, 5, replicate 16 1, [9], replicate 64 0), (0, 6, replicate 16 2, [9], replicate 64 0)] cookie_jar_new ())))"
  by (rule cookie_nonces_distinct) simp

text \<open>C28: the gate's verdict. A datagram that is not a parseable initiation passes; a wrong
  \<open>mac1\<close> is dropped; with a valid \<open>mac1\<close> it passes unless the responder is under load and
  \<open>mac2\<close> proves no cookie, and then the outcome is a 64-byte cookie reply. The only errors are
  \<open>BufferTooSmall\<close> for a short output buffer and \<open>EntropyFailure\<close>, both only while building a
  reply under load, and they leave the checker and the buffer unchanged; a drop or a pass changes
  nothing and draws no entropy.\<close>

theorem gate_verdict:
  assumes "gate fill cc t remote under_load d out rng = (r, cc', out', rng')"
  shows "case r of
     Inr GatePass \<Rightarrow> (cc', out', rng') = (cc, out, rng)
       \<and> (\<forall>m. parse d = Inr (HandshakeInitiation m) \<longrightarrow>
            verify_mac1 (cc_keys cc) (hi_alpha m) (hi_mac1 m)
            \<and> (\<not> under_load \<or> verify_mac2 (cc_jar cc) remote (hi_beta m) (hi_mac2 m)))
   | Inr GateDrop \<Rightarrow> (cc', out', rng') = (cc, out, rng)
       \<and> (\<exists>m. parse d = Inr (HandshakeInitiation m) \<and> \<not> verify_mac1 (cc_keys cc) (hi_alpha m) (hi_mac1 m))
   | Inr (GateCookieReply n) \<Rightarrow> n = 64 \<and> under_load \<and> jar_primed (cc_jar cc') \<and> cc_keys cc' = cc_keys cc
       \<and> (\<exists>m. parse d = Inr (HandshakeInitiation m) \<and> verify_mac1 (cc_keys cc) (hi_alpha m) (hi_mac1 m)
            \<and> \<not> verify_mac2 (cc_jar cc) remote (hi_beta m) (hi_mac2 m)
            \<and> (\<exists>c. parse (take 64 out') = Inr (CookieReply c) \<and> cr_receiver_index c = hi_sender_index m))
   | Inl e \<Rightarrow> under_load \<and> cc' = cc \<and> out' = out
       \<and> (e = BufferTooSmall \<and> length out < 64 \<or> e = EntropyFailure)"
proof (cases "\<exists>m. parse d = Inr (HandshakeInitiation m)")
  case False
  then have "gate fill cc t remote under_load d out rng = (Inr GatePass, cc, out, rng)"
    by (auto simp: gate_def split: sum.splits packet.splits)
  with assms False show ?thesis by auto
next
  case True
  then obtain m where m: "parse d = Inr (HandshakeInitiation m)" by blast
  obtain b jar1 out1 rng1 where b: "build_cookie_reply fill (cc_keys cc) (cc_jar cc) (now_ticks t) rng
      (hi_sender_index m) (hi_mac1 m) remote out = (b, jar1, out1, rng1)"
    by (cases "build_cookie_reply fill (cc_keys cc) (cc_jar cc) (now_ticks t) rng
      (hi_sender_index m) (hi_mac1 m) remote out")
  have ok: "n = 64 \<and> jar_primed jar1
      \<and> (\<exists>c. parse (take 64 out1) = Inr (CookieReply c) \<and> cr_receiver_index c = hi_sender_index m)" if "b = Inr n" for n
    using b unfolding that by (rule build_cookie_reply_ok)
  have err: "jar1 = cc_jar cc \<and> out1 = out \<and> (e = BufferTooSmall \<and> length out < 64 \<or> e = EntropyFailure)"
    if "b = Inl e" for e
    using b unfolding that by (rule build_cookie_reply_error)
  show ?thesis
    using assms m b ok err by (auto simp: gate_def split: if_splits sum.splits)
qed

theorem gate_verdict_witness:
  "gate (\<lambda>r n. (None, r)) (cookie_checker_new [1]) \<lparr> now_ticks = 0, unix_secs = 0, unix_nanos = 0 \<rparr> [] True [1, 2] [] ()
     = (Inr GatePass, cookie_checker_new [1], [], ())"
proof -
  have g: "gate (\<lambda>r n. (None, r)) (cookie_checker_new [1]) \<lparr> now_ticks = 0, unix_secs = 0, unix_nanos = 0 \<rparr> [] True [1, 2] [] ()
     = (Inr GatePass, cookie_checker_new [1], [], ())"
    by (simp add: gate_def parse_eq)
  show ?thesis using g gate_verdict [OF g] by simp
qed

end
