(* ===== verification/Tunnel.thy ===== *)
theory Tunnel
  imports Session Timers Cookie
begin

text \<open>
  \<open>src/src/tunnel.rs\<close>: the state machine for one peer pair. The record \<open>tunnel\<close> has the
  fields of the struct; each operation takes the tunnel, the caller's clock reading and output
  buffer and the entropy source, and returns its result with the tunnel, buffer and source
  it leaves. A slice of the output buffer that the code returns (\<open>out[..n]\<close>) is the
  byte string itself. The ChaCha20 backend (the type parameter of \<open>Tunnel\<close>) and the
  entropy source are arguments.
\<close>

record config =
  cfg_local_static :: bytes
  cfg_peer_public :: bytes
  cfg_psk :: bytes
  cfg_persistent_keepalive :: "u16 option"
  cfg_mtu :: "u16 option"

definition config_new :: "bytes \<Rightarrow> bytes \<Rightarrow> config" where
  "config_new local_static peer_public =
     \<lparr> cfg_local_static = local_static, cfg_peer_public = peer_public, cfg_psk = replicate 32 0,
       cfg_persistent_keepalive = None, cfg_mtu = None \<rparr>"

datatype encapsulated = Transport bytes | EncapInitiation bytes

datatype received = Data bytes | Keepalive | Reply bytes | HandshakeComplete | CookieStored

datatype send_reason =
    ReasonInitiation | ReasonRetransmit | ReasonKeepalive | ReasonPersistentKeepalive

datatype poll_output = Send bytes send_reason | HandshakeExpired | SessionsExpired | Idle

record stats =
  tx_transport :: u64
  rx_transport :: u64
  tx_bytes :: u64
  rx_bytes :: u64
  tx_keepalives :: u64
  rx_keepalives :: u64
  handshakes_initiated :: u64
  handshakes_responded :: u64
  handshakes_completed :: u64
  auth_failures :: u64
  mac1_failures :: u64
  replays_dropped :: u64
  cookies_received :: u64
  cookies_sent :: u64
  last_handshake_at :: "ticks option"

definition stats_default :: stats where
  "stats_default =
     \<lparr> tx_transport = 0, rx_transport = 0, tx_bytes = 0, rx_bytes = 0, tx_keepalives = 0,
       rx_keepalives = 0, handshakes_initiated = 0, handshakes_responded = 0,
       handshakes_completed = 0, auth_failures = 0, mac1_failures = 0, replays_dropped = 0,
       cookies_received = 0, cookies_sent = 0, last_handshake_at = None \<rparr>"

abbreviation inc :: "u64 \<Rightarrow> u64" where
  "inc x \<equiv> saturating_add x 1"

datatype slot = Previous | Current | Next

record tunnel =
  t_local_static :: bytes
  t_local_public :: bytes
  t_peer_public :: bytes
  t_psk :: bytes
  t_persistent_keepalive :: "u16 option"
  t_mtu :: "u16 option"
  t_constants :: handshake_constants
  t_mac_keys :: mac_keys
  t_precomputed_ss :: bytes
  t_inflight :: "inflight_initiation option"
  t_last_init_mac1 :: "bytes option"
  t_last_resp_mac1 :: "bytes option"
  t_cookie :: "last_cookie option"
  t_cookie_jar :: cookie_jar
  t_greatest_timestamp :: "tai64n option"
  t_last_sent_tai64n :: "tai64n option"
  t_previous :: "session option"
  t_current :: "session option"
  t_next :: "session option"
  t_timers :: timers
  t_recv_rekey_done :: bool
  t_last_now :: ticks
  t_stats :: stats

abbreviation upd_timers :: "(timers \<Rightarrow> timers) \<Rightarrow> tunnel \<Rightarrow> tunnel" where
  "upd_timers f tn \<equiv> tn\<lparr> t_timers := f (t_timers tn) \<rparr>"

abbreviation upd_stats :: "(stats \<Rightarrow> stats) \<Rightarrow> tunnel \<Rightarrow> tunnel" where
  "upd_stats f tn \<equiv> tn\<lparr> t_stats := f (t_stats tn) \<rparr>"

subsection \<open>Lengths\<close>

definition padded_len :: "nat \<Rightarrow> u16 option \<Rightarrow> nat" where
  "padded_len payload_len mtu =
     (let aligned =
            (case checked_add_usize payload_len (PADDING_MULTIPLE - 1) of
               Some v \<Rightarrow> v div PADDING_MULTIPLE * PADDING_MULTIPLE
             | None \<Rightarrow> usize_max div PADDING_MULTIPLE * PADDING_MULTIPLE)
      in case mtu of
           Some m \<Rightarrow>
             if aligned > unat m then (if unat m > payload_len then unat m else payload_len)
             else aligned
         | None \<Rightarrow> aligned)"

lemma padded_len_code [code]:
  "padded_len payload_len mtu =
     (let aligned =
            (case checked_add_usize payload_len (PADDING_MULTIPLE - 1) of
               Some v \<Rightarrow> v div PADDING_MULTIPLE * PADDING_MULTIPLE
             | None \<Rightarrow> nat 18446744073709551600)
      in case mtu of
           Some m \<Rightarrow>
             if aligned > unat m then (if unat m > payload_len then unat m else payload_len)
             else aligned
         | None \<Rightarrow> aligned)"
proof -
  have "usize_max div PADDING_MULTIPLE * PADDING_MULTIPLE = nat 18446744073709551600"
    by (simp add: usize_max_def PADDING_MULTIPLE_def)
  then show ?thesis by (simp only: padded_len_def)
qed

definition transport_datagram_len :: "nat \<Rightarrow> nat" where
  "transport_datagram_len payload_len =
     saturating_add_usize (padded_len payload_len None) TRANSPORT_OVERHEAD"

subsection \<open>Construction\<close>

text \<open>The initial state, given the precomputed static-static secret, and the constructor around it.\<close>

definition tunnel_fresh :: "config \<Rightarrow> bytes \<Rightarrow> tunnel" where
  "tunnel_fresh cfg ss =
     (let local_public = public_key (cfg_local_static cfg)
      in \<lparr> t_local_static = cfg_local_static cfg,
           t_local_public = local_public,
           t_peer_public = cfg_peer_public cfg,
           t_psk = cfg_psk cfg,
           t_persistent_keepalive = cfg_persistent_keepalive cfg,
           t_mtu = cfg_mtu cfg,
           t_constants = handshake_constants_new,
           t_mac_keys = mac_keys_new local_public (cfg_peer_public cfg),
           t_precomputed_ss = ss,
           t_inflight = None,
           t_last_init_mac1 = None,
           t_last_resp_mac1 = None,
           t_cookie = None,
           t_cookie_jar = cookie_jar_new,
           t_greatest_timestamp = None,
           t_last_sent_tai64n = None,
           t_previous = None,
           t_current = None,
           t_next = None,
           t_timers = timers_default,
           t_recv_rekey_done = False,
           t_last_now = 0,
           t_stats = stats_default \<rparr>)"

definition with_backend :: "config \<Rightarrow> tunnel result" where
  "with_backend cfg =
     (let local_public = public_key (cfg_local_static cfg)
      in if ct_eq local_public (cfg_peer_public cfg) then Inl InvalidPublicKey
         else and_then (shared_secret (cfg_local_static cfg) (cfg_peer_public cfg)) (\<lambda>ss.
           Inr (tunnel_fresh cfg ss)))"

subsection \<open>Internals\<close>

definition clamp_now :: "tunnel \<Rightarrow> now \<Rightarrow> now \<times> tunnel" where
  "clamp_now tn n =
     (if now_ticks n < t_last_now tn then (n\<lparr> now_ticks := t_last_now tn \<rparr>, tn)
      else (n, tn\<lparr> t_last_now := now_ticks n \<rparr>))"

fun iter_max :: "ticks list \<Rightarrow> ticks option" where
  "iter_max [] = None"
| "iter_max (x # xs) = Some (fold max xs x)"

fun iter_min :: "ticks list \<Rightarrow> ticks option" where
  "iter_min [] = None"
| "iter_min (x # xs) = Some (fold min xs x)"

definition newest_session_created :: "tunnel \<Rightarrow> ticks option" where
  "newest_session_created tn =
     iter_max (List.map_filter (map_option s_created) [t_previous tn, t_current tn, t_next tn])"

definition discard_all_sessions :: "tunnel \<Rightarrow> tunnel" where
  "discard_all_sessions tn =
     tn\<lparr> t_previous := None, t_current := None, t_next := None, t_inflight := None,
         t_cookie := None, t_last_init_mac1 := None, t_last_resp_mac1 := None,
         t_recv_rekey_done := False,
         t_timers := timers_default\<lparr> last_initiation_tx := last_initiation_tx (t_timers tn) \<rparr> \<rparr>"

definition session_with_index :: "tunnel \<Rightarrow> u32 \<Rightarrow> slot option" where
  "session_with_index tn index =
     (if is_some_and (t_next tn) (\<lambda>s. sk_local_index (s_keys s) = index) then Some Next
      else if is_some_and (t_current tn) (\<lambda>s. sk_local_index (s_keys s) = index) then Some Current
      else if is_some_and (t_previous tn) (\<lambda>s. sk_local_index (s_keys s) = index) then Some Previous
      else None)"

fun slot_get :: "tunnel \<Rightarrow> slot \<Rightarrow> session option" where
  "slot_get tn Next = t_next tn"
| "slot_get tn Current = t_current tn"
| "slot_get tn Previous = t_previous tn"

fun slot_put :: "tunnel \<Rightarrow> slot \<Rightarrow> session \<Rightarrow> tunnel" where
  "slot_put tn Next s = tn\<lparr> t_next := Some s \<rparr>"
| "slot_put tn Current s = tn\<lparr> t_current := Some s \<rparr>"
| "slot_put tn Previous s = tn\<lparr> t_previous := Some s \<rparr>"

definition index_clash :: "tunnel \<Rightarrow> u32 \<Rightarrow> bool" where
  "index_clash tn index \<longleftrightarrow>
     session_with_index tn index \<noteq> None \<or> is_some_and (t_inflight tn) (\<lambda>i. if_local_index i = index)"

fun fresh_index_loop :: "'r fill \<Rightarrow> tunnel \<Rightarrow> nat \<Rightarrow> 'r \<Rightarrow> u32 result \<times> 'r" where
  "fresh_index_loop fill tn 0 rng = (Inl EntropyFailure, rng)"
| "fresh_index_loop fill tn (Suc n) rng =
     (case entropy_result (fill rng 4) of
        (Inl e, rng) \<Rightarrow> (Inl e, rng)
      | (Inr bs, rng) \<Rightarrow>
        let index = from_le bs
        in if \<not> index_clash tn index then (Inr index, rng) else fresh_index_loop fill tn n rng)"

definition fresh_index :: "'r fill \<Rightarrow> tunnel \<Rightarrow> 'r \<Rightarrow> u32 result \<times> 'r" where
  "fresh_index fill tn rng = fresh_index_loop fill tn 32 rng"

definition draw_jitter :: "'r fill \<Rightarrow> bool \<Rightarrow> 'r \<Rightarrow> u64 \<times> 'r" where
  "draw_jitter fill timer_driven rng =
     (if timer_driven then
        (case fill rng 8 of
           (Some j, rng) \<Rightarrow> (from_le j mod saturating_add REKEY_TIMEOUT_JITTER_MAX 1, rng)
         | (None, rng) \<Rightarrow> (0, rng))
      else (0, rng))"

definition outbound_timestamp :: "tunnel \<Rightarrow> now \<Rightarrow> tai64n" where
  "outbound_timestamp tn n =
     (case t_last_sent_tai64n tn of
        Some lst \<Rightarrow> if now_tai64n n \<le> lst then tai64n_tick lst else now_tai64n n
      | None \<Rightarrow> now_tai64n n)"

definition send_initiation ::
  "'r fill \<Rightarrow> tunnel \<Rightarrow> now \<Rightarrow> bytes \<Rightarrow> 'r \<Rightarrow> bool \<Rightarrow> nat result \<times> tunnel \<times> bytes \<times> 'r" where
  "send_initiation fill tn n out rng timer_driven =
     (case fresh_index fill tn rng of
        (Inl e, rng) \<Rightarrow> (Inl e, tn, out, rng)
      | (Inr local_index, rng) \<Rightarrow>
        (case entropy_result (gen32 fill rng) of
           (Inl e, rng) \<Rightarrow> (Inl e, tn, out, rng)
         | (Inr eph, rng) \<Rightarrow>
           let (jitter, rng) = draw_jitter fill timer_driven rng;
               timestamp = outbound_timestamp tn n
           in (case create_initiation (t_constants tn) (t_local_public tn) (t_peer_public tn)
                      (t_precomputed_ss tn) local_index eph timestamp out of
                 (Inl e, out) \<Rightarrow> (Inl e, tn, out, rng)
               | (Inr inflight, out) \<Rightarrow>
                 (case get_to HANDSHAKE_INITIATION_LEN out of
                    None \<Rightarrow> (Inl Internal, tn, out, rng)
                  | Some msg \<Rightarrow>
                    (case apply_macs (t_mac_keys tn) (t_cookie tn) (now_ticks n) msg of
                       Inl e \<Rightarrow> (Inl e, tn, out, rng)
                     | Inr (mac1, msg) \<Rightarrow>
                       (Inr HANDSHAKE_INITIATION_LEN,
                        upd_stats (\<lambda>s. s\<lparr> handshakes_initiated := inc (handshakes_initiated s) \<rparr>)
                          (upd_timers (note_initiation_tx (now_ticks n) jitter)
                            (tn\<lparr> t_last_sent_tai64n := Some timestamp,
                                 t_last_init_mac1 := Some mac1,
                                 t_inflight := Some inflight \<rparr>)),
                        put 0 msg out, rng))))))"

text \<open>The send-path rekey check after a transport message on the current session (whitepaper
  section 6.2), shared by \<open>encapsulate\<close> and \<open>send_keepalive\<close>.\<close>

definition note_send_rekey :: "tunnel \<Rightarrow> ticks \<Rightarrow> session \<Rightarrow> tunnel" where
  "note_send_rekey tn t s =
     (if s_send_counter s \<ge> REKEY_AFTER_MESSAGES
         \<or> (sk_is_initiator (s_keys s) \<and> session_age s t \<ge> REKEY_AFTER_TIME)
      then upd_timers (\<lambda>tm. tm\<lparr> rekey_due := True \<rparr>) tn else tn)"

definition send_keepalive ::
  "chacha_backend \<Rightarrow> tunnel \<Rightarrow> now \<Rightarrow> bytes \<Rightarrow> bytes result \<times> tunnel \<times> bytes" where
  "send_keepalive C tn n out =
     (if length out < TRANSPORT_OVERHEAD then (Inl BufferTooSmall, tn, out)
      else case t_current tn of
        None \<Rightarrow> (Inl Internal, tn, out)
      | Some session \<Rightarrow>
        (case next_counter session of
           (Inl e, session) \<Rightarrow> (Inl e, tn\<lparr> t_current := Some session \<rparr>, out)
         | (Inr counter, session) \<Rightarrow>
           let tn = tn\<lparr> t_current := Some session \<rparr>
           in (case write_transport_header out (sk_peer_index (s_keys session)) counter of
                 (Inl e, out) \<Rightarrow> (Inl e, tn, out)
               | (Inr _, out) \<Rightarrow>
                 (case get_from 16 out of
                    None \<Rightarrow> (Inl Internal, tn, out)
                  | Some body \<Rightarrow>
                    (case seal_in_place_with C (sk_send (s_keys session)) (nonce_from_counter counter)
                            [] 0 body of
                       (Inl e, body) \<Rightarrow> (Inl e, tn, put 16 body out)
                     | (Inr _, body) \<Rightarrow>
                       let out = put 16 body out;
                           tn = upd_timers (note_keepalive_tx (now_ticks n)) tn;
                           tn = upd_stats (\<lambda>s. s\<lparr> tx_keepalives := inc (tx_keepalives s),
                                                  tx_transport := inc (tx_transport s) \<rparr>) tn;
                           tn = note_send_rekey tn (now_ticks n) session
                       in (ok_or Internal (get_to TRANSPORT_OVERHEAD out), tn, out))))))"

subsection \<open>\<open>encapsulate\<close>\<close>

definition encapsulate_initiate ::
  "'r fill \<Rightarrow> tunnel \<Rightarrow> now \<Rightarrow> bytes \<Rightarrow> 'r \<Rightarrow> encapsulated result \<times> tunnel \<times> bytes \<times> 'r" where
  "encapsulate_initiate fill tn n out rng =
     (let tn = upd_timers (\<lambda>tm. tm\<lparr> gave_up := False \<rparr>) tn
      in if t_inflight tn \<noteq> None then
           (Inl NotEstablished,
            upd_timers (\<lambda>tm. tm\<lparr> attempt_started := Some (now_ticks n) \<rparr>) tn, out, rng)
         else if \<not> initiation_allowed (t_timers tn) (now_ticks n) then
           (Inl NotEstablished, tn, out, rng)
         else
           let tn = upd_timers (\<lambda>tm. tm\<lparr> attempt_started := None \<rparr>) tn
           in (case send_initiation fill tn n out rng False of
                 (Inl e, tn, out, rng) \<Rightarrow> (Inl e, tn, out, rng)
               | (Inr k, tn, out, rng) \<Rightarrow>
                 (and_then (ok_or Internal (get_to k out)) (\<lambda>wire. Inr (EncapInitiation wire)),
                  tn, out, rng)))"

definition encapsulate_transport ::
  "chacha_backend \<Rightarrow> tunnel \<Rightarrow> now \<Rightarrow> bytes \<Rightarrow> bytes \<Rightarrow> encapsulated result \<times> tunnel \<times> bytes" where
  "encapsulate_transport C tn n payload out =
     (let padded = padded_len (length payload) (t_mtu tn);
          tot = saturating_add_usize padded TRANSPORT_OVERHEAD
      in if length out < tot then (Inl BufferTooSmall, tn, out)
         else case t_current tn of
           None \<Rightarrow> (Inl Internal, tn, out)
         | Some session \<Rightarrow>
           (case next_counter session of
              (Inl e, session) \<Rightarrow> (Inl e, tn\<lparr> t_current := Some session \<rparr>, out)
            | (Inr counter, session) \<Rightarrow>
              let tn = tn\<lparr> t_current := Some session \<rparr>
              in (case write_transport_header out (sk_peer_index (s_keys session)) counter of
                    (Inl e, out) \<Rightarrow> (Inl e, tn, out)
                  | (Inr _, out) \<Rightarrow>
                    (case Option.bind (get_to (saturating_add_usize 16 padded) out) (get_from 16) of
                       None \<Rightarrow> (Inl Internal, tn, out)
                     | Some body \<Rightarrow>
                       (case split_at_checked (length payload) body of
                          None \<Rightarrow> (Inl Internal, tn, out)
                        | Some (data_part, pad_part) \<Rightarrow>
                          let out = put 16 (payload @ replicate (length pad_part) 0) out
                          in (case get_from 16 out of
                                None \<Rightarrow> (Inl Internal, tn, out)
                              | Some tail \<Rightarrow>
                                (case seal_in_place_with C (sk_send (s_keys session))
                                        (nonce_from_counter counter) [] padded tail of
                                   (Inl e, tail) \<Rightarrow> (Inl e, tn, put 16 tail out)
                                 | (Inr sealed, tail) \<Rightarrow>
                                   let out = put 16 tail out
                                   in if saturating_add_usize sealed 16 \<noteq> tot
                                      then (Inl Internal, tn, out)
                                      else
                                        let tn = (if payload = [] then
                                                    upd_stats (\<lambda>s. s\<lparr> tx_keepalives := inc (tx_keepalives s) \<rparr>)
                                                      (upd_timers (note_keepalive_tx (now_ticks n)) tn)
                                                  else upd_timers (note_data_tx (now_ticks n)) tn);
                                            tn = upd_stats (\<lambda>s. s\<lparr> tx_transport := inc (tx_transport s),
                                                   tx_bytes := saturating_add (tx_bytes s)
                                                     (of_nat (length payload)) \<rparr>) tn;
                                            tn = note_send_rekey tn (now_ticks n) session
                                        in (and_then (ok_or Internal (get_to tot out))
                                              (\<lambda>wire. Inr (Transport wire)), tn, out))))))))"

definition encapsulate ::
  "chacha_backend \<Rightarrow> 'r fill \<Rightarrow> tunnel \<Rightarrow> now \<Rightarrow> bytes \<Rightarrow> bytes \<Rightarrow> 'r
     \<Rightarrow> encapsulated result \<times> tunnel \<times> bytes \<times> 'r" where
  "encapsulate C fill tn n payload out rng =
     (let (n, tn) = clamp_now tn n;
          usable = is_some_and (t_current tn) (\<lambda>s. usable_for_send s (now_ticks n))
      in if \<not> usable then encapsulate_initiate fill tn n out rng
         else let (r, tn, out) = encapsulate_transport C tn n payload out in (r, tn, out, rng))"

subsection \<open>\<open>decapsulate\<close>\<close>

text \<open>The reply under load, shared by the initiation and the response branch.\<close>

definition reply_cookie ::
  "'r fill \<Rightarrow> tunnel \<Rightarrow> now \<Rightarrow> bytes \<Rightarrow> u32 \<Rightarrow> bytes \<Rightarrow> bytes \<Rightarrow> 'r
     \<Rightarrow> received result \<times> tunnel \<times> bytes \<times> 'r" where
  "reply_cookie fill tn n remote sender_index mac1 out rng =
     (case build_cookie_reply fill (t_mac_keys tn) (t_cookie_jar tn) (now_ticks n) rng
             sender_index mac1 remote out of
        (Inl e, jar, out, rng) \<Rightarrow> (Inl e, tn\<lparr> t_cookie_jar := jar \<rparr>, out, rng)
      | (Inr k, jar, out, rng) \<Rightarrow>
        let tn = upd_stats (\<lambda>s. s\<lparr> cookies_sent := inc (cookies_sent s) \<rparr>) (tn\<lparr> t_cookie_jar := jar \<rparr>)
        in (and_then (ok_or Internal (get_to k out)) (\<lambda>wire. Inr (Reply wire)), tn, out, rng))"

definition handle_initiation ::
  "'r fill \<Rightarrow> tunnel \<Rightarrow> now \<Rightarrow> bytes \<Rightarrow> bool \<Rightarrow> handshake_initiation \<Rightarrow> bytes \<Rightarrow> 'r
     \<Rightarrow> received result \<times> tunnel \<times> bytes \<times> 'r" where
  "handle_initiation fill tn n remote under_load m out rng =
     (if \<not> verify_mac1 (t_mac_keys tn) (hi_alpha m) (hi_mac1 m) then
        (Inl InvalidMac1,
         upd_stats (\<lambda>s. s\<lparr> mac1_failures := inc (mac1_failures s) \<rparr>) tn, out, rng)
      else if under_load \<and> \<not> verify_mac2 (t_cookie_jar tn) remote (hi_beta m) (hi_mac2 m) then
        reply_cookie fill tn n remote (hi_sender_index m) (hi_mac1 m) out rng
      else case consume_initiation (t_constants tn) (t_local_static tn) (t_local_public tn)
                  (t_peer_public tn) (t_precomputed_ss tn) m of
        Inl e \<Rightarrow>
          (Inl e, upd_stats (\<lambda>s. s\<lparr> auth_failures := inc (auth_failures s) \<rparr>) tn, out, rng)
      | Inr consumed \<Rightarrow>
        if is_some_and (t_greatest_timestamp tn) (\<lambda>g. ci_timestamp consumed \<le> g) then
          (Inl ReplayedTimestamp, tn, out, rng)
        else (case fresh_index fill tn rng of
          (Inl e, rng) \<Rightarrow> (Inl e, tn, out, rng)
        | (Inr local_index, rng) \<Rightarrow>
          (case entropy_result (gen32 fill rng) of
             (Inl e, rng) \<Rightarrow> (Inl e, tn, out, rng)
           | (Inr eph, rng) \<Rightarrow>
             (case create_response consumed (t_psk tn) local_index eph out of
                (Inl e, out) \<Rightarrow> (Inl e, tn, out, rng)
              | (Inr keys, out) \<Rightarrow>
                (case get_to HANDSHAKE_RESPONSE_LEN out of
                   None \<Rightarrow> (Inl Internal, tn, out, rng)
                 | Some msg \<Rightarrow>
                   (case apply_macs (t_mac_keys tn) (t_cookie tn) (now_ticks n) msg of
                      Inl e \<Rightarrow> (Inl e, tn, out, rng)
                    | Inr (mac1, msg) \<Rightarrow>
                      let out = put 0 msg out;
                          tn = upd_stats (\<lambda>s. s\<lparr> handshakes_responded := inc (handshakes_responded s) \<rparr>)
                                 (tn\<lparr> t_last_resp_mac1 := Some mac1,
                                      t_greatest_timestamp := Some (ci_timestamp consumed),
                                      t_next := Some (session_new keys (now_ticks n)) \<rparr>)
                      in (and_then (ok_or Internal (get_to HANDSHAKE_RESPONSE_LEN out))
                            (\<lambda>wire. Inr (Reply wire)), tn, out, rng)))))))"

definition handle_response ::
  "'r fill \<Rightarrow> tunnel \<Rightarrow> now \<Rightarrow> bytes \<Rightarrow> bool \<Rightarrow> handshake_response \<Rightarrow> bytes \<Rightarrow> 'r
     \<Rightarrow> received result \<times> tunnel \<times> bytes \<times> 'r" where
  "handle_response fill tn n remote under_load m out rng =
     (if \<not> verify_mac1 (t_mac_keys tn) (hr_alpha m) (hr_mac1 m) then
        (Inl InvalidMac1,
         upd_stats (\<lambda>s. s\<lparr> mac1_failures := inc (mac1_failures s) \<rparr>) tn, out, rng)
      else case t_inflight tn of
        None \<Rightarrow> (Inl NoPendingHandshake, tn, out, rng)
      | Some inflight \<Rightarrow>
        if if_local_index inflight \<noteq> hr_receiver_index m then (Inl NoPendingHandshake, tn, out, rng)
        else if under_load \<and> \<not> verify_mac2 (t_cookie_jar tn) remote (hr_beta m) (hr_mac2 m) then
          reply_cookie fill tn n remote (hr_sender_index m) (hr_mac1 m) out rng
        else (case consume_response inflight (t_local_static tn) (t_psk tn) m of
          Inl e \<Rightarrow>
            (Inl e, upd_stats (\<lambda>s. s\<lparr> auth_failures := inc (auth_failures s) \<rparr>) tn, out, rng)
        | Inr keys \<Rightarrow>
          let tn = tn\<lparr> t_inflight := None, t_previous := t_current tn,
                       t_current := Some (session_new keys (now_ticks n)),
                       t_recv_rekey_done := False \<rparr>;
              tn = upd_timers note_handshake_complete tn;
              tn = upd_timers (\<lambda>tm. tm\<lparr> confirm_keepalive_due := True \<rparr>) tn;
              tn = upd_stats (\<lambda>s. s\<lparr> handshakes_completed := inc (handshakes_completed s),
                                     last_handshake_at := Some (now_ticks n) \<rparr>) tn
          in (Inr HandshakeComplete, tn, out, rng)))"

definition try_open_cookie :: "tunnel \<Rightarrow> cookie_reply \<Rightarrow> ticks \<Rightarrow> bytes option \<Rightarrow> last_cookie option" where
  "try_open_cookie tn m t mac1 =
     (case mac1 of
        None \<Rightarrow> None
      | Some m1 \<Rightarrow>
        (case consume_cookie_reply (t_mac_keys tn) m1 m t of Inl _ \<Rightarrow> None | Inr c \<Rightarrow> Some c))"

definition handle_cookie_reply :: "tunnel \<Rightarrow> now \<Rightarrow> cookie_reply \<Rightarrow> received result \<times> tunnel" where
  "handle_cookie_reply tn n m =
     (let known = (is_some_and (t_inflight tn) (\<lambda>i. if_local_index i = cr_receiver_index m)
                   \<or> session_with_index tn (cr_receiver_index m) \<noteq> None)
      in if \<not> known then (Inl UnknownReceiverIndex, tn)
         else
           let opened =
             (case try_open_cookie tn m (now_ticks n) (t_last_init_mac1 tn) of
                Some c \<Rightarrow> Some c
              | None \<Rightarrow> try_open_cookie tn m (now_ticks n) (t_last_resp_mac1 tn))
           in (case opened of
                 Some c \<Rightarrow>
                   (Inr CookieStored,
                    upd_stats (\<lambda>s. s\<lparr> cookies_received := inc (cookies_received s) \<rparr>)
                      (tn\<lparr> t_cookie := Some c \<rparr>))
               | None \<Rightarrow>
                 if t_last_init_mac1 tn = None \<and> t_last_resp_mac1 tn = None then
                   (Inl NoPendingHandshake, tn)
                 else
                   (Inl InvalidCookie,
                    upd_stats (\<lambda>s. s\<lparr> auth_failures := inc (auth_failures s) \<rparr>) tn)))"

text \<open>The part of \<open>handle_transport\<close> after the replay window accepted the counter: session
  promotion, the receive-path rekey, the timers and counters.\<close>

definition promote_next :: "tunnel \<Rightarrow> ticks \<Rightarrow> tunnel" where
  "promote_next tn t =
     (let tn = tn\<lparr> t_previous := t_current tn, t_current := t_next tn, t_next := None,
                   t_recv_rekey_done := False, t_inflight := None \<rparr>;
          tn = upd_timers note_handshake_complete tn
      in upd_stats (\<lambda>s. s\<lparr> handshakes_completed := inc (handshakes_completed s),
                           last_handshake_at := Some t \<rparr>) tn)"

definition note_recv_rekey :: "tunnel \<Rightarrow> ticks \<Rightarrow> tunnel" where
  "note_recv_rekey tn t =
     (if \<not> t_recv_rekey_done tn then
        (case t_current tn of
           Some current \<Rightarrow>
             if sk_is_initiator (s_keys current) \<and> session_age current t \<ge> REKEY_AFTER_TIME_RECV
             then (upd_timers (\<lambda>tm. tm\<lparr> rekey_due := True \<rparr>) tn)\<lparr> t_recv_rekey_done := True \<rparr>
             else tn
         | None \<Rightarrow> tn)
      else tn)"

definition transport_accepted ::
  "tunnel \<Rightarrow> ticks \<Rightarrow> slot \<Rightarrow> bool \<Rightarrow> nat \<Rightarrow> bytes \<Rightarrow> received result \<times> tunnel \<times> bytes" where
  "transport_accepted tn t sl confirms n out =
     (let tn = (if confirms \<and> sl = Next then promote_next tn t else tn);
          tn = note_recv_rekey tn t;
          is_keepalive = (n = 0);
          tn = upd_timers (note_rx t is_keepalive) tn;
          tn = upd_stats (\<lambda>s. s\<lparr> rx_transport := inc (rx_transport s),
                                 rx_bytes := saturating_add (rx_bytes s) (of_nat n) \<rparr>) tn
      in if is_keepalive then
           (Inr Keepalive, upd_stats (\<lambda>s. s\<lparr> rx_keepalives := inc (rx_keepalives s) \<rparr>) tn, out)
         else (and_then (ok_or Internal (get_to n out)) (\<lambda>plain. Inr (Data plain)), tn, out))"

definition handle_transport ::
  "chacha_backend \<Rightarrow> tunnel \<Rightarrow> now \<Rightarrow> transport_data \<Rightarrow> bytes \<Rightarrow> received result \<times> tunnel \<times> bytes" where
  "handle_transport C tn n msg out =
     (let t = now_ticks n
      in case session_with_index tn (td_receiver_index msg) of
           None \<Rightarrow> (Inl UnknownReceiverIndex, tn, out)
         | Some sl \<Rightarrow>
           if td_counter msg \<ge> REJECT_AFTER_MESSAGES then (Inl Expired, tn, out)
           else (case slot_get tn sl of
             None \<Rightarrow> (Inl Internal, tn, out)
           | Some session \<Rightarrow>
             if session_age session t \<ge> REJECT_AFTER_TIME then (Inl Expired, tn, out)
             else if \<not> replay_check (s_replay session) (td_counter msg) then
               (Inl Replay, upd_stats (\<lambda>s. s\<lparr> replays_dropped := inc (replays_dropped s) \<rparr>) tn, out)
             else (case open_with C (sk_recv (s_keys session)) (nonce_from_counter (td_counter msg)) []
                          (td_ciphertext msg) out of
               (Inl BufferTooSmall, out) \<Rightarrow> (Inl BufferTooSmall, tn, out)
             | (Inl e, out) \<Rightarrow>
               (Inl e, upd_stats (\<lambda>s. s\<lparr> auth_failures := inc (auth_failures s) \<rparr>) tn, out)
             | (Inr k, out) \<Rightarrow>
               (case replay_accept (s_replay session) (td_counter msg) of
                  (False, window) \<Rightarrow>
                    (Inl Internal, slot_put tn sl (session\<lparr> s_replay := window \<rparr>),
                     (case get_to k out of Some written \<Rightarrow> put 0 (wipe written) out | None \<Rightarrow> out))
                | (True, window) \<Rightarrow>
                  let confirms = \<not> s_confirmed session;
                      tn = slot_put tn sl (session\<lparr> s_replay := window, s_confirmed := True \<rparr>)
                  in transport_accepted tn t sl confirms k out))))"

definition decapsulate ::
  "chacha_backend \<Rightarrow> 'r fill \<Rightarrow> tunnel \<Rightarrow> now \<Rightarrow> bytes \<Rightarrow> bool \<Rightarrow> bytes \<Rightarrow> bytes \<Rightarrow> 'r
     \<Rightarrow> received result \<times> tunnel \<times> bytes \<times> 'r" where
  "decapsulate C fill tn n remote under_load datagram out rng =
     (let (n, tn) = clamp_now tn n
      in case parse datagram of
           Inr (HandshakeInitiation m) \<Rightarrow> handle_initiation fill tn n remote under_load m out rng
         | Inr (HandshakeResponse m) \<Rightarrow> handle_response fill tn n remote under_load m out rng
         | Inr (CookieReply m) \<Rightarrow> (let (r, tn) = handle_cookie_reply tn n m in (r, tn, out, rng))
         | Inr (TransportData m) \<Rightarrow>
             (let (r, tn, out) = handle_transport C tn n m out in (r, tn, out, rng))
         | Inl e \<Rightarrow> (Inl e, tn, out, rng))"

subsection \<open>\<open>poll\<close>\<close>

text \<open>The two ways \<open>poll\<close> produces a datagram, and its stages in the order of the code, each
  falling through to the next.\<close>

definition poll_initiate ::
  "'r fill \<Rightarrow> send_reason \<Rightarrow> tunnel \<Rightarrow> now \<Rightarrow> bytes \<Rightarrow> 'r
     \<Rightarrow> poll_output result \<times> tunnel \<times> bytes \<times> 'r" where
  "poll_initiate fill reason tn n out rng =
     (case send_initiation fill tn n out rng True of
        (Inl e, tn, out, rng) \<Rightarrow> (Inl e, tn, out, rng)
      | (Inr k, tn, out, rng) \<Rightarrow>
        (and_then (ok_or Internal (get_to k out)) (\<lambda>wire. Inr (Send wire reason)), tn, out, rng))"

definition poll_keepalive ::
  "chacha_backend \<Rightarrow> send_reason \<Rightarrow> tunnel \<Rightarrow> now \<Rightarrow> bytes \<Rightarrow> 'r
     \<Rightarrow> poll_output result \<times> tunnel \<times> bytes \<times> 'r" where
  "poll_keepalive C reason tn n out rng =
     (case send_keepalive C tn n out of
        (r, tn, out) \<Rightarrow> (and_then r (\<lambda>wire. Inr (Send wire reason)), tn, out, rng))"

definition persistent_interval :: "u16 \<Rightarrow> u64" where
  "persistent_interval interval = saturating_mul (ucast interval) 1000000000"

definition poll_persistent ::
  "chacha_backend \<Rightarrow> 'r fill \<Rightarrow> bool \<Rightarrow> tunnel \<Rightarrow> now \<Rightarrow> bytes \<Rightarrow> 'r
     \<Rightarrow> poll_output result \<times> tunnel \<times> bytes \<times> 'r" where
  "poll_persistent C fill current_usable tn n out rng =
     (let t = now_ticks n
      in case t_persistent_keepalive tn of
           None \<Rightarrow> (Inr Idle, tn, out, rng)
         | Some interval \<Rightarrow>
           let interval_ns = persistent_interval interval
           in if current_usable then
                let base = (case last_any_tx (t_timers tn) of
                              Some tx \<Rightarrow> tx
                            | None \<Rightarrow> (case t_current tn of Some s \<Rightarrow> s_created s | None \<Rightarrow> 0))
                in if since t base \<ge> interval_ns
                   then poll_keepalive C ReasonPersistentKeepalive tn n out rng
                   else (Inr Idle, tn, out, rng)
              else if t_inflight tn = None \<and> initiation_allowed (t_timers tn) t
                      \<and> persistent_revive_allowed (t_timers tn) t interval_ns
              then poll_initiate fill ReasonInitiation
                     (upd_timers (\<lambda>tm. tm\<lparr> gave_up := False, attempt_started := None \<rparr>) tn) n out rng
              else (Inr Idle, tn, out, rng))"

definition poll_passive ::
  "chacha_backend \<Rightarrow> 'r fill \<Rightarrow> bool \<Rightarrow> tunnel \<Rightarrow> now \<Rightarrow> bytes \<Rightarrow> 'r
     \<Rightarrow> poll_output result \<times> tunnel \<times> bytes \<times> 'r" where
  "poll_passive C fill current_usable tn n out rng =
     (if passive_keepalive_due (t_timers tn) (now_ticks n) then
        if current_usable then poll_keepalive C ReasonKeepalive tn n out rng
        else poll_persistent C fill current_usable
               (upd_timers (\<lambda>tm. tm\<lparr> last_data_rx := None \<rparr>) tn) n out rng
      else poll_persistent C fill current_usable tn n out rng)"

definition poll_confirm ::
  "chacha_backend \<Rightarrow> 'r fill \<Rightarrow> tunnel \<Rightarrow> now \<Rightarrow> bytes \<Rightarrow> 'r
     \<Rightarrow> poll_output result \<times> tunnel \<times> bytes \<times> 'r" where
  "poll_confirm C fill tn n out rng =
     (let current_usable = is_some_and (t_current tn) (\<lambda>s. usable_for_send s (now_ticks n))
      in if confirm_keepalive_due (t_timers tn) then
           if current_usable then poll_keepalive C ReasonKeepalive tn n out rng
           else poll_passive C fill current_usable
                  (upd_timers (\<lambda>tm. tm\<lparr> confirm_keepalive_due := False \<rparr>) tn) n out rng
         else poll_passive C fill current_usable tn n out rng)"

definition poll_dead_peer ::
  "chacha_backend \<Rightarrow> 'r fill \<Rightarrow> tunnel \<Rightarrow> now \<Rightarrow> bytes \<Rightarrow> 'r
     \<Rightarrow> poll_output result \<times> tunnel \<times> bytes \<times> 'r" where
  "poll_dead_peer C fill tn n out rng =
     (if t_inflight tn = None \<and> dead_peer_due (t_timers tn) (now_ticks n)
         \<and> initiation_allowed (t_timers tn) (now_ticks n)
      then poll_initiate fill ReasonInitiation
             (upd_timers (\<lambda>tm. tm\<lparr> attempt_started := None \<rparr>) tn) n out rng
      else poll_confirm C fill tn n out rng)"

definition poll_rekey ::
  "chacha_backend \<Rightarrow> 'r fill \<Rightarrow> tunnel \<Rightarrow> now \<Rightarrow> bytes \<Rightarrow> 'r
     \<Rightarrow> poll_output result \<times> tunnel \<times> bytes \<times> 'r" where
  "poll_rekey C fill tn n out rng =
     (if rekey_due (t_timers tn) then
        if t_inflight tn \<noteq> None then
          poll_dead_peer C fill (upd_timers (\<lambda>tm. tm\<lparr> rekey_due := False \<rparr>) tn) n out rng
        else if initiation_allowed (t_timers tn) (now_ticks n) then
          poll_initiate fill ReasonInitiation
            (upd_timers (\<lambda>tm. tm\<lparr> attempt_started := None \<rparr>) tn) n out rng
        else poll_dead_peer C fill tn n out rng
      else poll_dead_peer C fill tn n out rng)"

definition poll_retransmit ::
  "chacha_backend \<Rightarrow> 'r fill \<Rightarrow> tunnel \<Rightarrow> now \<Rightarrow> bytes \<Rightarrow> 'r
     \<Rightarrow> poll_output result \<times> tunnel \<times> bytes \<times> 'r" where
  "poll_retransmit C fill tn n out rng =
     (if t_inflight tn \<noteq> None \<and> is_some_and (retransmit_at (t_timers tn)) (\<lambda>at. now_ticks n \<ge> at) then
        if attempt_exhausted (t_timers tn) (now_ticks n) then
          (Inr HandshakeExpired, upd_timers note_gave_up (tn\<lparr> t_inflight := None \<rparr>), out, rng)
        else poll_initiate fill ReasonRetransmit tn n out rng
      else poll_rekey C fill tn n out rng)"

definition expire_next :: "tunnel \<Rightarrow> ticks \<Rightarrow> tunnel" where
  "expire_next tn t =
     (if is_some_and (t_next tn) (\<lambda>s. session_age s t \<ge> REJECT_AFTER_TIME)
      then tn\<lparr> t_next := None \<rparr> else tn)"

definition poll ::
  "chacha_backend \<Rightarrow> 'r fill \<Rightarrow> tunnel \<Rightarrow> now \<Rightarrow> bytes \<Rightarrow> 'r
     \<Rightarrow> poll_output result \<times> tunnel \<times> bytes \<times> 'r" where
  "poll C fill tn n out rng =
     (let (n, tn) = clamp_now tn n;
          tn = expire_next tn (now_ticks n)
      in if is_some_and (newest_session_created tn)
              (\<lambda>newest. since (now_ticks n) newest \<ge> SESSION_DISCARD_TIME)
         then (Inr SessionsExpired, discard_all_sessions tn, out, rng)
         else poll_retransmit C fill tn n out rng)"

subsection \<open>\<open>next_wake\<close> and the remaining operations\<close>

definition pacing_at :: "tunnel \<Rightarrow> ticks" where
  "pacing_at tn =
     (case last_initiation_tx (t_timers tn) of None \<Rightarrow> 0 | Some lst \<Rightarrow> add_nanos lst REKEY_TIMEOUT)"

definition wake_immediate :: "tunnel \<Rightarrow> ticks option" where
  "wake_immediate tn =
     (if rekey_due (t_timers tn) \<and> t_inflight tn = None then Some (pacing_at tn)
      else if confirm_keepalive_due (t_timers tn) then Some 0 else None)"

definition wake_retransmit :: "tunnel \<Rightarrow> ticks option" where
  "wake_retransmit tn = (if t_inflight tn \<noteq> None then retransmit_at (t_timers tn) else None)"

definition wake_dead_peer :: "tunnel \<Rightarrow> ticks option" where
  "wake_dead_peer tn =
     (if t_inflight tn = None
      then map_option (\<lambda>at. max at (pacing_at tn)) (dead_peer_at (t_timers tn)) else None)"

definition wake_discard :: "tunnel \<Rightarrow> ticks option" where
  "wake_discard tn = map_option (\<lambda>c. add_nanos c SESSION_DISCARD_TIME) (newest_session_created tn)"

definition wake_next_expire :: "tunnel \<Rightarrow> ticks option" where
  "wake_next_expire tn = map_option (\<lambda>s. add_nanos (s_created s) REJECT_AFTER_TIME) (t_next tn)"

definition wake_revive :: "tunnel \<Rightarrow> u64 \<Rightarrow> ticks option" where
  "wake_revive tn interval_ns =
     (if t_inflight tn = None then
        Some (if gave_up (t_timers tn) then
                (case last_initiation_tx (t_timers tn) of
                   None \<Rightarrow> 0 | Some lst \<Rightarrow> add_nanos lst interval_ns)
              else pacing_at tn)
      else None)"

definition wake_persistent :: "tunnel \<Rightarrow> ticks option" where
  "wake_persistent tn =
     (case t_persistent_keepalive tn of
        None \<Rightarrow> None
      | Some interval \<Rightarrow>
        let interval_ns = persistent_interval interval
        in (case t_current tn of
              Some s \<Rightarrow>
                if usable_for_send s (t_last_now tn) then
                  let base = (case last_any_tx (t_timers tn) of Some tx \<Rightarrow> tx | None \<Rightarrow> s_created s)
                  in Some (add_nanos base interval_ns)
                else wake_revive tn interval_ns
            | None \<Rightarrow> wake_revive tn interval_ns))"

definition next_wake :: "tunnel \<Rightarrow> ticks option" where
  "next_wake tn =
     iter_min (List.map_filter id
       [wake_immediate tn, wake_retransmit tn, wake_dead_peer tn, passive_keepalive_at (t_timers tn),
        wake_discard tn, wake_next_expire tn, wake_persistent tn])"

definition initiate_handshake ::
  "'r fill \<Rightarrow> tunnel \<Rightarrow> now \<Rightarrow> bytes \<Rightarrow> 'r \<Rightarrow> bytes result \<times> tunnel \<times> bytes \<times> 'r" where
  "initiate_handshake fill tn n out rng =
     (let (n, tn) = clamp_now tn n
      in if \<not> initiation_allowed (t_timers tn) (now_ticks n) then
           (Inl HandshakeRateLimited, tn, out, rng)
         else
           let tn = upd_timers (\<lambda>tm. tm\<lparr> gave_up := False, attempt_started := None \<rparr>) tn
           in (case send_initiation fill tn n out rng False of
                 (Inl e, tn, out, rng) \<Rightarrow> (Inl e, tn, out, rng)
               | (Inr k, tn, out, rng) \<Rightarrow> (ok_or Internal (get_to k out), tn, out, rng)))"

definition is_established :: "tunnel \<Rightarrow> bool" where
  "is_established tn = is_some_and (t_current tn) (\<lambda>s. usable_for_send s (t_last_now tn))"

definition set_mtu :: "tunnel \<Rightarrow> u16 option \<Rightarrow> tunnel" where
  "set_mtu tn mtu = tn\<lparr> t_mtu := mtu \<rparr>"

definition tunnel_reset :: "tunnel \<Rightarrow> tunnel" where
  "tunnel_reset tn = discard_all_sessions tn"

end
