(* ===== verification/Tunnel_Ops.thy ===== *)
theory Tunnel_Ops
  imports Tunnel
begin

text \<open>
  What the operations of \<open>tunnel.rs\<close> do, branch by branch: equations and case rules for sending
  initiations, keepalives and data, and for handling each kind of datagram. Each rule lists the
  errors that can occur, with the state and buffer they leave, and the exact datagram and
  state of the success case, in terms of the wire format and of named state changes.
\<close>

subsection \<open>Sending initiations\<close>

lemma fresh_index_cases:
  obtains (err) rng' where "fresh_index fill tn rng = (Inl EntropyFailure, rng')"
    | (ok) index rng' where "fresh_index fill tn rng = (Inr index, rng')" "\<not> index_clash tn index"
proof -
  have "(\<exists>rng'. fresh_index_loop fill tn k rng = (Inl EntropyFailure, rng'))
    \<or> (\<exists>index rng'. fresh_index_loop fill tn k rng = (Inr index, rng') \<and> \<not> index_clash tn index)" for k
  proof (induction k arbitrary: rng)
    case (Suc k)
    obtain r rng' where "fill rng 4 = (r, rng')" by force
    then show ?case using Suc [of rng'] by (cases r) (auto simp: entropy_result_def Let_def)
  qed simp
  then show thesis using err ok unfolding fresh_index_def by blast
qed

text \<open>The 32-byte values an entropy source can deliver.\<close>

definition draws :: "'r fill \<Rightarrow> bytes set" where
  "draws fill = {bs. \<exists>rng rng'. entropy_result (gen32 fill rng) = (Inr bs, rng')}"

lemma gen32_cases:
  obtains (err) rng' where "entropy_result (gen32 fill rng) = (Inl EntropyFailure, rng')"
    | (ok) bs rng' where "entropy_result (gen32 fill rng) = (Inr bs, rng')" "bs \<in> draws fill"
proof (cases "fst (gen32 fill rng)")
  case None
  then show thesis using err by (simp add: entropy_result_def)
next
  case (Some bs)
  then have "entropy_result (gen32 fill rng) = (Inr bs, snd (gen32 fill rng))" by (simp add: entropy_result_def)
  then show thesis using ok unfolding draws_def by blast
qed

lemma draw_jitter_bound:
  assumes "draw_jitter fill timer_driven rng = (jitter, rng')"
  shows "jitter \<le> REKEY_TIMEOUT_JITTER_MAX"
proof -
  have "x mod 333000001 \<le> 333000000" for x :: u64
  proof -
    have "unat (x mod 333000001) < 333000001" by (simp add: unat_mod)
    then show ?thesis by (simp add: word_le_nat_alt)
  qed
  then show ?thesis
    using assms
    by (auto simp: draw_jitter_def REKEY_TIMEOUT_JITTER_MAX_def saturating_add_def split: if_splits option.splits prod.splits)
qed

text \<open>The state after an initiation has gone out.\<close>

definition initiated :: "tunnel \<Rightarrow> ticks \<Rightarrow> u64 \<Rightarrow> tai64n \<Rightarrow> bytes \<Rightarrow> inflight_initiation \<Rightarrow> tunnel" where
  "initiated tn t jitter ts mac1 inflight =
     upd_stats (\<lambda>s. s\<lparr> handshakes_initiated := inc (handshakes_initiated s) \<rparr>)
       (upd_timers (note_initiation_tx t jitter)
         (tn\<lparr> t_last_sent_tai64n := Some ts, t_last_init_mac1 := Some mac1, t_inflight := Some inflight \<rparr>))"

lemma put_0_prefix: "length xs = n \<Longrightarrow> put 0 xs (ys @ zs) = xs @ zs" if "length ys = n"
  using that by (simp add: put_def)

lemma send_initiation_cases:
  assumes "length (t_local_public tn) = 32" and "length (tai_bytes (outbound_timestamp tn n)) = 12"
  obtains (err) e rng' where "send_initiation fill tn n out rng timer_driven = (Inl e, tn, out, rng')"
      "e = EntropyFailure \<or> e = InvalidPublicKey \<or> e = BufferTooSmall \<and> length out < 148"
    | (ok) index eph jitter im rng' where
      "im = ik_initiation (t_constants tn) (t_local_public tn) (t_peer_public tn) (t_precomputed_ss tn) index
         (clamp_scalar eph) (x25519 (clamp_scalar eph) (t_peer_public tn)) (outbound_timestamp tn n)"
      "send_initiation fill tn n out rng timer_driven =
        (Inr 148,
         initiated tn (now_ticks n) jitter (outbound_timestamp tn n)
           (hi_mac1 (stamp_initiation (t_mac_keys tn) (t_cookie tn) (now_ticks n) (snd im))) (fst im),
         packet_bytes (HandshakeInitiation (stamp_initiation (t_mac_keys tn) (t_cookie tn) (now_ticks n) (snd im)))
           @ drop 148 out, rng')"
      "packet_wf (HandshakeInitiation (stamp_initiation (t_mac_keys tn) (t_cookie tn) (now_ticks n) (snd im)))"
      "\<not> index_clash tn index" "if_local_index (fst im) = index" "148 \<le> length out"
      "jitter \<le> REKEY_TIMEOUT_JITTER_MAX"
      "eph \<in> draws fill" "\<not> ct_is_zero (x25519 (clamp_scalar eph) (t_peer_public tn))"
proof (cases rule: fresh_index_cases [of fill tn rng])
  case (err rng')
  then show thesis using that(1) by (simp add: send_initiation_def)
next
  case f: (ok index rng1)
  show thesis
  proof (cases rule: gen32_cases [of fill rng1])
    case (err rng')
    with f show thesis using that(1) by (simp add: send_initiation_def)
  next
    case g: (ok eph rng2)
    obtain jitter rng3 where j: "draw_jitter fill timer_driven rng2 = (jitter, rng3)" by force
    define es im where "es = x25519 (clamp_scalar eph) (t_peer_public tn)"
      and "im = ik_initiation (t_constants tn) (t_local_public tn) (t_peer_public tn) (t_precomputed_ss tn) index
         (clamp_scalar eph) es (outbound_timestamp tn n)"
    note ci = create_initiation_eq [OF assms es_def im_def]
    show thesis
    proof (cases "length out < 148 \<or> ct_is_zero es")
      case True
      define e where "e = (if length out < 148 then BufferTooSmall else InvalidPublicKey)"
      have "create_initiation (t_constants tn) (t_local_public tn) (t_peer_public tn) (t_precomputed_ss tn)
          index eph (outbound_timestamp tn n) out = (Inl e, out)"
        using True ci(1) [of out] by (auto simp: e_def)
      then have "send_initiation fill tn n out rng timer_driven = (Inl e, tn, out, rng3)"
        using f(1) g j by (simp add: send_initiation_def Let_def)
      then show thesis by (rule that(1)) (simp add: e_def)
    next
      case False
      have l: "length (packet_bytes (HandshakeInitiation (snd im))) = 148"
        using ci(2) by simp
      note am = apply_macs_initiation [OF ci(2), of "t_mac_keys tn" "t_cookie tn" "now_ticks n"]
      have l': "length (packet_bytes (HandshakeInitiation (stamp_initiation (t_mac_keys tn) (t_cookie tn) (now_ticks n) (snd im)))) = 148"
        using am(2) by simp
      show thesis
      proof (rule that(2) [OF im_def [unfolded es_def] _ am(2) f(2) _ _ draw_jitter_bound [OF j] g(2)])
        show "if_local_index (fst im) = index" by (simp add: im_def ik_initiation_inflight)
        show "148 \<le> length out" "\<not> ct_is_zero (x25519 (clamp_scalar eph) (t_peer_public tn))"
          using False by (simp_all add: es_def)
        show "send_initiation fill tn n out rng timer_driven =
          (Inr 148,
           initiated tn (now_ticks n) jitter (outbound_timestamp tn n)
             (hi_mac1 (stamp_initiation (t_mac_keys tn) (t_cookie tn) (now_ticks n) (snd im))) (fst im),
           packet_bytes (HandshakeInitiation (stamp_initiation (t_mac_keys tn) (t_cookie tn) (now_ticks n) (snd im)))
             @ drop 148 out, rng3)"
          using False ci(1) f g j l am(1) put_0_prefix [OF l l', of "drop 148 out"]
          by (simp add: send_initiation_def initiated_def get_to_def const_defs Let_def del: packet_bytes.simps)
      qed
    qed
  qed
qed

subsection \<open>Sending transport messages\<close>

lemma REJECT_nat: "unat REJECT_AFTER_MESSAGES = 2 ^ 64 - 2 ^ 13 - 1"
  by (simp add: const_defs)

lemma next_counter_eq:
  "next_counter s =
     (if REJECT_AFTER_MESSAGES \<le> s_send_counter s then (Inl Expired, s)
      else (Inr (s_send_counter s), s\<lparr> s_send_counter := s_send_counter s + 1 \<rparr>))"
proof -
  have "unat (s_send_counter s) + 1 < 2 ^ 64" if "s_send_counter s < REJECT_AFTER_MESSAGES"
    using that REJECT_nat by (simp add: word_less_nat_alt)
  then show ?thesis by (cases "REJECT_AFTER_MESSAGES \<le> s_send_counter s") (simp_all add: next_counter_def checked_add_def)
qed

text \<open>The datagram a session sends next for a plaintext.\<close>

definition transport_wire :: "session \<Rightarrow> bytes \<Rightarrow> bytes" where
  "transport_wire s plain =
     packet_bytes (TransportData
       \<lparr> td_receiver_index = sk_peer_index (s_keys s), td_counter = s_send_counter s,
         td_ciphertext = aead_encrypt scalar_apply_keystream (sk_send (s_keys s))
           (nonce_from_counter (s_send_counter s)) [] plain \<rparr>)"

lemma length_transport_wire [simp, len_simps]: "length (transport_wire s plain) = length plain + 32"
  by (simp add: transport_wire_def)

definition advance :: "session \<Rightarrow> session" where
  "advance s = s\<lparr> s_send_counter := s_send_counter s + 1 \<rparr>"

definition keepalive_sent :: "tunnel \<Rightarrow> ticks \<Rightarrow> session \<Rightarrow> tunnel" where
  "keepalive_sent tn t s =
     note_send_rekey
       (upd_stats (\<lambda>st. st\<lparr> tx_keepalives := inc (tx_keepalives st), tx_transport := inc (tx_transport st) \<rparr>)
         (upd_timers (note_keepalive_tx t) (tn\<lparr> t_current := Some (advance s) \<rparr>)))
       t (advance s)"

definition data_sent :: "tunnel \<Rightarrow> ticks \<Rightarrow> bytes \<Rightarrow> session \<Rightarrow> tunnel" where
  "data_sent tn t payload s =
     (let tn = tn\<lparr> t_current := Some (advance s) \<rparr>;
          tn = (if payload = [] then
                  upd_stats (\<lambda>st. st\<lparr> tx_keepalives := inc (tx_keepalives st) \<rparr>)
                    (upd_timers (note_keepalive_tx t) tn)
                else upd_timers (note_data_tx t) tn);
          tn = upd_stats (\<lambda>st. st\<lparr> tx_transport := inc (tx_transport st),
                 tx_bytes := saturating_add (tx_bytes st) (of_nat (length payload)) \<rparr>) tn
      in note_send_rekey tn t (advance s))"

lemma current_same [simp]: "t_current tn = Some s \<Longrightarrow> tn\<lparr> t_current := Some s \<rparr> = tn"
  by (cases tn) simp

lemma seal_tail:
  assumes "chacha_impl C" and "length plain + 16 \<le> length tail" and "length tail < 2 ^ 64"
    and "take (length plain) tail = plain"
  shows "seal_in_place_with C key nonce [] (length plain) tail =
    (Inr (length plain + 16), aead_encrypt scalar_apply_keystream key nonce [] plain @ drop (length plain + 16) tail)"
proof -
  have "seal_in_place_with C key nonce [] (length plain) tail = seal_with C key nonce [] plain tail"
    using assms by (intro seal_in_place_eq_seal) simp_all
  then show ?thesis
    using assms chacha_impl_unique [OF assms(1)] by (simp add: scalar.seal_with_eq TAG_LEN_def usize_max_def)
qed

lemma send_keepalive_eq:
  assumes "chacha_impl C" and "length out < 2 ^ 63"
  shows "send_keepalive C tn n out =
    (if length out < 32 then (Inl BufferTooSmall, tn, out)
     else case t_current tn of
            None \<Rightarrow> (Inl Internal, tn, out)
          | Some s \<Rightarrow>
            if REJECT_AFTER_MESSAGES \<le> s_send_counter s then (Inl Expired, tn, out)
            else (Inr (transport_wire s []), keepalive_sent tn (now_ticks n) s,
                  transport_wire s [] @ drop 32 out))"
proof (cases "t_current tn")
  case (Some s)
  show ?thesis
  proof (cases "length out < 32 \<or> REJECT_AFTER_MESSAGES \<le> s_send_counter s")
    case True
    then show ?thesis using Some by (auto simp: send_keepalive_def const_defs next_counter_eq)
  next
    case False
    have "seal_in_place_with C (sk_send (s_keys s)) (nonce_from_counter (s_send_counter s)) [] 0 (drop 16 out) =
      (Inr 16, aead_encrypt scalar_apply_keystream (sk_send (s_keys s)) (nonce_from_counter (s_send_counter s)) [] []
         @ drop 16 (drop 16 out))"
      using seal_tail [OF assms(1), of "[]" "drop 16 out"] assms(2) False by auto
    moreover have "16 \<le> length out - 16" "12 \<le> length out - 4" using False by auto
    ultimately show ?thesis
      using False Some
      by (simp add: send_keepalive_def TRANSPORT_OVERHEAD_def next_counter_eq write_transport_header_eq get_from_def get_to_def
          put_def transport_wire_def keepalive_sent_def advance_def Let_def)
  qed
qed (simp add: send_keepalive_def const_defs)

subsection \<open>Padding\<close>

lemma padded_len_bounds:
  assumes "p + 15 \<le> usize_max"
  shows "p \<le> padded_len p mtu" and "padded_len p mtu < p + 16"
proof -
  let ?a = "(p + 15) div 16 * 16"
  have a: "p \<le> ?a" "?a \<le> p + 15" by simp_all
  have "padded_len p mtu = (case mtu of Some m \<Rightarrow> if ?a > unat m then (if unat m > p then unat m else p) else ?a | None \<Rightarrow> ?a)"
    using assms by (simp add: padded_len_def checked_add_usize_def PADDING_MULTIPLE_def Let_def)
  then show "p \<le> padded_len p mtu" "padded_len p mtu < p + 16"
    using a by (auto split: option.splits)
qed

lemma padded_len_small:
  assumes "padded_len p mtu < 2 ^ 63"
  shows "p + 15 \<le> usize_max"
proof (rule ccontr)
  assume "\<not> p + 15 \<le> usize_max"
  then have p: "2 ^ 64 - 16 < p" and n: "checked_add_usize p (PADDING_MULTIPLE - 1) = None"
    by (simp_all add: checked_add_usize_def PADDING_MULTIPLE_def usize_max_def)
  have a: "usize_max div PADDING_MULTIPLE * PADDING_MULTIPLE = 2 ^ 64 - 16"
    by (simp add: usize_max_def PADDING_MULTIPLE_def)
  have "2 ^ 64 - 16 \<le> padded_len p mtu"
    unfolding padded_len_def n a using p by (auto split: option.splits)
  with assms show False by simp
qed

lemma transport_total:
  assumes "length out < 2 ^ 63"
  shows "length out < saturating_add_usize (padded_len p mtu) 32 \<longleftrightarrow> length out < padded_len p mtu + 32"
    and "\<not> length out < padded_len p mtu + 32 \<Longrightarrow> p \<le> padded_len p mtu \<and> padded_len p mtu < p + 16"
    and "\<not> length out < padded_len p mtu + 32 \<Longrightarrow> saturating_add_usize (padded_len p mtu) 32 = padded_len p mtu + 32"
proof -
  show "length out < saturating_add_usize (padded_len p mtu) 32 \<longleftrightarrow> length out < padded_len p mtu + 32"
    using assms by (auto simp: saturating_add_usize_def usize_max_def)
  show "p \<le> padded_len p mtu \<and> padded_len p mtu < p + 16" if "\<not> length out < padded_len p mtu + 32"
    using that assms padded_len_bounds [OF padded_len_small, of p mtu mtu] by auto
  show "saturating_add_usize (padded_len p mtu) 32 = padded_len p mtu + 32" if "\<not> length out < padded_len p mtu + 32"
    using that assms by (simp add: saturating_add_usize_def usize_max_def)
qed

definition padded :: "bytes \<Rightarrow> u16 option \<Rightarrow> bytes" where
  "padded payload mtu = payload @ replicate (padded_len (length payload) mtu - length payload) 0"

lemma length_padded:
  "length payload \<le> padded_len (length payload) mtu \<Longrightarrow> length (padded payload mtu) = padded_len (length payload) mtu"
  by (simp add: padded_def)

lemma encapsulate_transport_sent:
  assumes "chacha_impl C" and "length out < 2 ^ 63" and "t_current tn = Some s"
    and "\<not> REJECT_AFTER_MESSAGES \<le> s_send_counter s"
    and k_def: "k = padded_len (length payload) (t_mtu tn)" and "\<not> length out < k + 32"
  shows "encapsulate_transport C tn n payload out =
     (Inr (Transport (transport_wire s (padded payload (t_mtu tn)))), data_sent tn (now_ticks n) payload s,
      transport_wire s (padded payload (t_mtu tn)) @ drop (k + 32) out)"
proof -
  note tot = transport_total(2,3) [OF assms(2) assms(6) [unfolded k_def], folded k_def]
  have k: "k + 32 \<le> length out" "length payload \<le> k" using assms(6) tot(1) by auto
  have sat: "saturating_add_usize 16 k = 16 + k" "saturating_add_usize (k + 16) 16 = k + 32"
    using k(1) assms(2) by (simp_all add: saturating_add_usize_def usize_max_def)
  define plain where "plain = padded payload (t_mtu tn)"
  define hdr where "hdr = [4, 0, 0, 0] @ le_bytes 4 (sk_peer_index (s_keys s)) @ le_bytes 8 (s_send_counter s)"
  define ct where "ct = aead_encrypt scalar_apply_keystream (sk_send (s_keys s)) (nonce_from_counter (s_send_counter s)) [] plain"
  have lh: "length hdr = 16" by (simp add: hdr_def)
  have lp: "length plain = k" "plain = payload @ replicate (k - length payload) 0"
    using k(2) by (simp_all add: plain_def k_def length_padded padded_def)
  have lc: "length ct = k + 16" using lp(1) by (simp add: ct_def)
  have wd: "transport_wire s plain = hdr @ ct" by (simp add: transport_wire_def hdr_def ct_def)
  have w: "write_transport_header out (sk_peer_index (s_keys s)) (s_send_counter s) = (Inr (), hdr @ drop 16 out)"
    using k(1) by (simp add: write_transport_header_eq hdr_def)
  have b: "Option.bind (get_to (16 + k) (hdr @ drop 16 out)) (get_from 16) = Some (take k (drop 16 out))"
    using k(1) lh by (simp add: get_to_def get_from_def)
  have p: "put 16 (payload @ replicate (k - length payload) 0) (hdr @ drop 16 out) = hdr @ plain @ drop (k + 16) out"
    using lh lp k(1) by (simp add: put_def)
  have sl: "seal_in_place_with C (sk_send (s_keys s)) (nonce_from_counter (s_send_counter s)) [] k (plain @ drop (k + 16) out)
      = (Inr (k + 16), ct @ drop (k + 32) out)"
    using seal_tail [OF assms(1), of plain "plain @ drop (k + 16) out"] lp(1) k assms(2)
    by (simp add: add.commute [of 32] ct_def)
  have sp: "split_at_checked (length payload) (take k (drop 16 out)) =
      Some (take (length payload) (take k (drop 16 out)), drop (length payload) (take k (drop 16 out)))"
    "length (drop (length payload) (take k (drop 16 out))) = k - length payload"
    using k by (simp_all add: split_at_checked_def)
  have g: "get_from 16 (hdr @ plain @ drop (k + 16) out) = Some (plain @ drop (k + 16) out)"
    using lh by (simp add: get_from_def)
  have pt: "put 16 (ct @ drop (k + 32) out) (hdr @ plain @ drop (k + 16) out) = (hdr @ ct) @ drop (k + 32) out"
    using lh lc lp(1) k(1) by (simp add: put_def)
  have gt: "get_to (k + 32) ((hdr @ ct) @ drop (k + 32) out) = Some (hdr @ ct)"
    using lh lc by (simp add: get_to_def)
  show ?thesis
    using k(1) tot(2) assms(3,4) w b p sl sat sp g pt gt
    by (simp add: encapsulate_transport_def TRANSPORT_OVERHEAD_def Let_def next_counter_eq k_def [symmetric]
        plain_def [symmetric] wd data_sent_def advance_def)
qed

lemma encapsulate_transport_eq:
  assumes "chacha_impl C" and "length out < 2 ^ 63"
  shows "encapsulate_transport C tn n payload out =
    (if length out < padded_len (length payload) (t_mtu tn) + 32 then (Inl BufferTooSmall, tn, out)
     else case t_current tn of
            None \<Rightarrow> (Inl Internal, tn, out)
          | Some s \<Rightarrow>
            if REJECT_AFTER_MESSAGES \<le> s_send_counter s then (Inl Expired, tn, out)
            else (Inr (Transport (transport_wire s (padded payload (t_mtu tn)))),
                  data_sent tn (now_ticks n) payload s,
                  transport_wire s (padded payload (t_mtu tn)) @ drop (padded_len (length payload) (t_mtu tn) + 32) out))"
proof (cases "length out < padded_len (length payload) (t_mtu tn) + 32")
  case True
  then show ?thesis
    using transport_total(1) [OF assms(2)] by (simp add: encapsulate_transport_def TRANSPORT_OVERHEAD_def Let_def)
next
  case False
  note tot = transport_total(3) [OF assms(2) False]
  show ?thesis
  proof (cases "\<exists>s. t_current tn = Some s \<and> \<not> REJECT_AFTER_MESSAGES \<le> s_send_counter s")
    case True
    then obtain s where "t_current tn = Some s" "\<not> REJECT_AFTER_MESSAGES \<le> s_send_counter s" by blast
    then show ?thesis using encapsulate_transport_sent [OF assms _ _ refl False] False by simp
  next
    case no: False
    show ?thesis
      using False tot no
      by (cases "t_current tn") (simp_all add: encapsulate_transport_def TRANSPORT_OVERHEAD_def Let_def next_counter_eq)
  qed
qed

subsection \<open>Receiving\<close>

text \<open>The output buffer after an operation: a datagram \<open>w\<close> at its start, or untouched.\<close>

definition wrote :: "bytes option \<Rightarrow> bytes \<Rightarrow> bytes \<Rightarrow> bool" where
  "wrote w out out' \<longleftrightarrow>
     (case w of None \<Rightarrow> out' = out | Some w \<Rightarrow> length w \<le> length out \<and> out' = w @ drop (length w) out)"

lemma reply_cookie_cases:
  obtains (err) e rng' where "reply_cookie fill tn n remote idx mac1 out rng = (Inl e, tn, out, rng')"
      "e = BufferTooSmall \<and> length out < 64 \<or> e = EntropyFailure"
    | (ok) jar wire out' rng' where
      "reply_cookie fill tn n remote idx mac1 out rng =
        (Inr (Reply wire),
         upd_stats (\<lambda>s. s\<lparr> cookies_sent := inc (cookies_sent s) \<rparr>) (tn\<lparr> t_cookie_jar := jar \<rparr>), out', rng')"
      "\<exists>c. parse wire = Inr (CookieReply c) \<and> cr_receiver_index c = idx" "wire = take 64 out'" "wrote (Some wire) out out'"
proof -
  obtain r jar out' rng' where b: "build_cookie_reply fill (t_mac_keys tn) (t_cookie_jar tn) (now_ticks n) rng
      idx mac1 remote out = (r, jar, out', rng')"
    by (cases "build_cookie_reply fill (t_mac_keys tn) (t_cookie_jar tn) (now_ticks n) rng idx mac1 remote out")
  show thesis
  proof (cases r)
    case (Inl e)
    note er = build_cookie_reply_error [OF b [unfolded Inl]]
    have "tn\<lparr> t_cookie_jar := jar \<rparr> = tn" using er by (cases tn) simp
    then show thesis using er b Inl by (intro err [of e rng']) (auto simp: reply_cookie_def)
  next
    case (Inr k)
    note okk = build_cookie_reply_ok [OF b [unfolded Inr]]
    have "64 \<le> length out'" "out' = take 64 out' @ drop 64 out" "64 \<le> length out"
      using b Inr by (auto simp: build_cookie_reply_eq reply_packet_def length_mint split: if_splits prod.splits sum.splits)
    then show thesis
      using okk b Inr by (intro ok [of "take 64 out'" jar out' rng']) (auto simp: reply_cookie_def get_to_def wrote_def Let_def)
  qed
qed

lemma stats_same: "tn\<lparr> t_stats := t_stats tn \<rparr> = tn"
  by (cases tn) simp

lemma consume_initiation_error:
  "consume_initiation c ls lp pp ss m = Inl e \<Longrightarrow> e = InvalidPublicKey \<or> e = AuthFailure \<or> e = UnknownPeer"
  by (auto simp: consume_initiation_def and_then_def shared_secret_def Let_def split: if_splits prod.splits sum.splits)

lemma consume_response_error:
  "consume_response inflight ls psk m = Inl e \<Longrightarrow> e = InvalidPublicKey \<or> e = AuthFailure"
  by (auto simp: consume_response_def and_then_def shared_secret_def Let_def split: if_splits prod.splits sum.splits)

lemma consume_response_keys:
  "consume_response inflight ls psk m = Inr keys \<Longrightarrow>
     sk_local_index keys = if_local_index inflight \<and> sk_peer_index keys = hr_sender_index m \<and> sk_is_initiator keys"
  by (auto simp: consume_response_def and_then_def shared_secret_def Let_def split: if_splits prod.splits sum.splits)

text \<open>The state after an initiation has been answered.\<close>

definition replied :: "tunnel \<Rightarrow> ticks \<Rightarrow> session_keys \<Rightarrow> bytes \<Rightarrow> tai64n \<Rightarrow> tunnel" where
  "replied tn t keys mac1 ts =
     upd_stats (\<lambda>s. s\<lparr> handshakes_responded := inc (handshakes_responded s) \<rparr>)
       (tn\<lparr> t_last_resp_mac1 := Some mac1, t_greatest_timestamp := Some ts,
            t_next := Some (session_new keys t) \<rparr>)"

lemma respond_eq:
  assumes "ee = x25519 (clamp_scalar eph) (ci_eph_public consumed)"
    and "se = x25519 (clamp_scalar eph) (ci_static_public consumed)"
    and "rm = ik_response consumed psk index (clamp_scalar eph) ee se"
    and "m' = stamp_response mkeys cookie t (snd rm)"
  shows "length out < 92 \<or> ct_is_zero ee \<or> ct_is_zero se \<Longrightarrow>
      \<exists>e. (e = BufferTooSmall \<and> length out < 92 \<or> e = InvalidPublicKey) \<and> create_response consumed psk index eph out = (Inl e, out)"
    and "\<not> (length out < 92 \<or> ct_is_zero ee \<or> ct_is_zero se) \<Longrightarrow>
      create_response consumed psk index eph out = (Inr (fst rm), packet_bytes (HandshakeResponse (snd rm)) @ drop 92 out)"
    and "get_to HANDSHAKE_RESPONSE_LEN (packet_bytes (HandshakeResponse (snd rm)) @ rest) = Some (packet_bytes (HandshakeResponse (snd rm)))"
    and "apply_macs mkeys cookie t (packet_bytes (HandshakeResponse (snd rm))) = Inr (hr_mac1 m', packet_bytes (HandshakeResponse m'))"
    and "put 0 (packet_bytes (HandshakeResponse m')) (packet_bytes (HandshakeResponse (snd rm)) @ rest) = packet_bytes (HandshakeResponse m') @ rest"
    and "get_to HANDSHAKE_RESPONSE_LEN (packet_bytes (HandshakeResponse m') @ rest) = Some (packet_bytes (HandshakeResponse m'))"
    and "packet_wf (HandshakeResponse m')"
proof -
  note cr = create_response_eq [OF assms(1-3)]
  note am = apply_macs_response [OF cr(2), of mkeys cookie t, folded assms(4)]
  have l: "length (packet_bytes (HandshakeResponse (snd rm))) = 92" "length (packet_bytes (HandshakeResponse m')) = 92"
    using cr(2) am(2) by simp_all
  show "\<exists>e. (e = BufferTooSmall \<and> length out < 92 \<or> e = InvalidPublicKey) \<and> create_response consumed psk index eph out = (Inl e, out)"
    if "length out < 92 \<or> ct_is_zero ee \<or> ct_is_zero se"
    using cr(1) [of out] that by auto
  show "create_response consumed psk index eph out = (Inr (fst rm), packet_bytes (HandshakeResponse (snd rm)) @ drop 92 out)"
    if "\<not> (length out < 92 \<or> ct_is_zero ee \<or> ct_is_zero se)"
    using cr(1) [of out] that by simp
  show "get_to HANDSHAKE_RESPONSE_LEN (packet_bytes (HandshakeResponse (snd rm)) @ rest) = Some (packet_bytes (HandshakeResponse (snd rm)))"
    "get_to HANDSHAKE_RESPONSE_LEN (packet_bytes (HandshakeResponse m') @ rest) = Some (packet_bytes (HandshakeResponse m'))"
    using l by (simp_all add: get_to_def const_defs del: packet_bytes.simps)
  show "put 0 (packet_bytes (HandshakeResponse m')) (packet_bytes (HandshakeResponse (snd rm)) @ rest) = packet_bytes (HandshakeResponse m') @ rest"
    by (rule put_0_prefix [OF l])
qed (use apply_macs_response [OF create_response_eq(2) [OF assms(1-3)], of mkeys cookie t, folded assms(4)] in simp_all)

lemma handle_initiation_consumed:
  assumes "verify_mac1 (t_mac_keys tn) (hi_alpha m) (hi_mac1 m)"
    and "\<not> (under_load \<and> \<not> verify_mac2 (t_cookie_jar tn) remote (hi_beta m) (hi_mac2 m))"
    and "consume_initiation (t_constants tn) (t_local_static tn) (t_local_public tn) (t_peer_public tn) (t_precomputed_ss tn) m = Inr consumed"
  obtains (err) e rng' where "handle_initiation fill tn n remote under_load m out rng = (Inl e, tn, out, rng')"
      "e = ReplayedTimestamp \<and> is_some_and (t_greatest_timestamp tn) (\<lambda>g. ci_timestamp consumed \<le> g)
       \<or> e = EntropyFailure \<or> e = BufferTooSmall \<and> length out < 92 \<or> e = InvalidPublicKey"
    | (ok) index eph rm m' rng' where
      "\<not> is_some_and (t_greatest_timestamp tn) (\<lambda>g. ci_timestamp consumed \<le> g)"
      "\<not> index_clash tn index"
      "rm = ik_response consumed (t_psk tn) index (clamp_scalar eph) (x25519 (clamp_scalar eph) (ci_eph_public consumed))
         (x25519 (clamp_scalar eph) (ci_static_public consumed))"
      "m' = stamp_response (t_mac_keys tn) (t_cookie tn) (now_ticks n) (snd rm)"
      "handle_initiation fill tn n remote under_load m out rng =
         (Inr (Reply (packet_bytes (HandshakeResponse m'))),
          replied tn (now_ticks n) (fst rm) (hr_mac1 m') (ci_timestamp consumed),
          packet_bytes (HandshakeResponse m') @ drop 92 out, rng')"
      "eph \<in> draws fill" "\<not> ct_is_zero (x25519 (clamp_scalar eph) (ci_eph_public consumed))"
      "\<not> ct_is_zero (x25519 (clamp_scalar eph) (ci_static_public consumed))"
      "wrote (Some (packet_bytes (HandshakeResponse m'))) out (packet_bytes (HandshakeResponse m') @ drop 92 out)"
proof -
  have g: "(under_load \<and> \<not> verify_mac2 (t_cookie_jar tn) remote (hi_beta m) (hi_mac2 m)) = False"
    "(\<not> verify_mac1 (t_mac_keys tn) (hi_alpha m) (hi_mac1 m)) = False"
    using assms(1,2) by blast+
  note h = handle_initiation_def [of fill tn n remote under_load m out rng, unfolded g assms(3) if_False sum.case]
  show thesis
  proof (cases "is_some_and (t_greatest_timestamp tn) (\<lambda>g. ci_timestamp consumed \<le> g)")
    case True
    then show thesis by (intro err [of ReplayedTimestamp rng]) (simp_all add: h)
  next
    case ts: False
    show thesis
  proof (cases rule: fresh_index_cases [of fill tn rng])
    case (err rng')
    then show thesis using ts by (intro that(1) [of EntropyFailure rng']) (simp_all add: h)
  next
    case f: (ok index rng1)
    show thesis
    proof (cases rule: gen32_cases [of fill rng1])
      case (err rng')
      then show thesis using ts f by (intro that(1) [of EntropyFailure rng']) (simp_all add: h)
    next
      case g: (ok eph rng2)
      define ee se where "ee = x25519 (clamp_scalar eph) (ci_eph_public consumed)"
        and "se = x25519 (clamp_scalar eph) (ci_static_public consumed)"
      define rm where "rm = ik_response consumed (t_psk tn) index (clamp_scalar eph) ee se"
      define m' where "m' = stamp_response (t_mac_keys tn) (t_cookie tn) (now_ticks n) (snd rm)"
      note r = respond_eq [OF ee_def se_def rm_def m'_def]
      show thesis
      proof (cases "length out < 92 \<or> ct_is_zero ee \<or> ct_is_zero se")
        case True
        then obtain e where e: "e = BufferTooSmall \<and> length out < 92 \<or> e = InvalidPublicKey"
          "create_response consumed (t_psk tn) index eph out = (Inl e, out)"
          using r(1) by blast
        then show thesis using ts f g by (intro that(1) [of e rng2]) (auto simp: h)
      next
        case False
        have "handle_initiation fill tn n remote under_load m out rng =
         (Inr (Reply (packet_bytes (HandshakeResponse m'))),
          replied tn (now_ticks n) (fst rm) (hr_mac1 m') (ci_timestamp consumed),
          packet_bytes (HandshakeResponse m') @ drop 92 out, rng2)"
          using ts f g r(2) [OF False] r(3,5,6) [of "drop 92 out"] r(4)
          by (simp add: h replied_def Let_def del: packet_bytes.simps)
        moreover have "wrote (Some (packet_bytes (HandshakeResponse m'))) out (packet_bytes (HandshakeResponse m') @ drop 92 out)"
          using False r(7) by (simp add: wrote_def)
        ultimately show thesis
          by (intro that(2) [OF ts f(2) rm_def [unfolded ee_def se_def] m'_def])
            (use False g(2) in \<open>simp_all add: ee_def se_def del: packet_bytes.simps\<close>)
      qed
    qed
  qed
  qed
qed

lemma handle_initiation_cases:
  obtains (err) e st rng' where "handle_initiation fill tn n remote under_load m out rng = (Inl e, tn\<lparr> t_stats := st \<rparr>, out, rng')"
      "e \<noteq> Internal"
    | (cookie) jar wire st out' rng' where
      "handle_initiation fill tn n remote under_load m out rng =
         (Inr (Reply wire), tn\<lparr> t_cookie_jar := jar, t_stats := st \<rparr>, out', rng')" "under_load" "wrote (Some wire) out out'"
    | (ok) consumed index eph rm m' rng' where
      "verify_mac1 (t_mac_keys tn) (hi_alpha m) (hi_mac1 m)"
      "consume_initiation (t_constants tn) (t_local_static tn) (t_local_public tn) (t_peer_public tn) (t_precomputed_ss tn) m = Inr consumed"
      "\<not> is_some_and (t_greatest_timestamp tn) (\<lambda>g. ci_timestamp consumed \<le> g)"
      "\<not> index_clash tn index"
      "rm = ik_response consumed (t_psk tn) index (clamp_scalar eph) (x25519 (clamp_scalar eph) (ci_eph_public consumed))
         (x25519 (clamp_scalar eph) (ci_static_public consumed))"
      "m' = stamp_response (t_mac_keys tn) (t_cookie tn) (now_ticks n) (snd rm)"
      "handle_initiation fill tn n remote under_load m out rng =
         (Inr (Reply (packet_bytes (HandshakeResponse m'))),
          replied tn (now_ticks n) (fst rm) (hr_mac1 m') (ci_timestamp consumed),
          packet_bytes (HandshakeResponse m') @ drop 92 out, rng')"
      "wrote (Some (packet_bytes (HandshakeResponse m'))) out (packet_bytes (HandshakeResponse m') @ drop 92 out)"
proof -
  show thesis
  proof (cases "verify_mac1 (t_mac_keys tn) (hi_alpha m) (hi_mac1 m)")
    case False
    then show thesis by (intro err) (auto simp: handle_initiation_def)
  next
    case v1: True
    show thesis
    proof (cases "under_load \<and> \<not> verify_mac2 (t_cookie_jar tn) remote (hi_beta m) (hi_mac2 m)")
      case True
      then have h: "handle_initiation fill tn n remote under_load m out rng =
          reply_cookie fill tn n remote (hi_sender_index m) (hi_mac1 m) out rng"
        using v1 by (simp add: handle_initiation_def)
      show thesis
      proof (cases rule: reply_cookie_cases [of fill tn n remote "hi_sender_index m" "hi_mac1 m" out rng])
        case (err e rng')
        then show thesis by (intro that(1) [of e "t_stats tn" rng']) (auto simp: h stats_same)
      next
        case (ok jar wire out' rng')
        have u: under_load using True by blast
        have "handle_initiation fill tn n remote under_load m out rng = (Inr (Reply wire),
            tn\<lparr> t_cookie_jar := jar, t_stats := t_stats tn\<lparr> cookies_sent := inc (cookies_sent (t_stats tn)) \<rparr> \<rparr>, out', rng')"
          unfolding h ok(1) by simp
        from that(2) [OF this u ok(4)] show thesis .
      qed
    next
      case v2: False
      show thesis
      proof (cases "consume_initiation (t_constants tn) (t_local_static tn) (t_local_public tn) (t_peer_public tn) (t_precomputed_ss tn) m")
        case (Inl e)
        then have "handle_initiation fill tn n remote under_load m out rng =
            (Inl e, tn\<lparr> t_stats := t_stats tn\<lparr> auth_failures := inc (auth_failures (t_stats tn)) \<rparr> \<rparr>, out, rng)"
          using v1 v2 by (auto simp: handle_initiation_def)
        from err [OF this] show thesis using consume_initiation_error [OF Inl] by blast
      next
        case c: (Inr consumed)
        show thesis
        proof (cases rule: handle_initiation_consumed [OF v1 v2 c, of fill n out rng, consumes 0, case_names err ok])
          case (err e rng')
          then show thesis by (intro that(1) [of e "t_stats tn" rng']) (auto simp: stats_same)
        next
          case (ok index eph rm m' rng')
          show thesis by (rule that(3) [OF v1 c ok(1-5,9)])
        qed
      qed
    qed
  qed
qed


text \<open>The state after a response has been accepted.\<close>

definition completed :: "tunnel \<Rightarrow> ticks \<Rightarrow> session_keys \<Rightarrow> tunnel" where
  "completed tn t keys =
     upd_stats (\<lambda>s. s\<lparr> handshakes_completed := inc (handshakes_completed s), last_handshake_at := Some t \<rparr>)
       (upd_timers (\<lambda>tm. (note_handshake_complete tm)\<lparr> confirm_keepalive_due := True \<rparr>)
         (tn\<lparr> t_inflight := None, t_previous := t_current tn, t_current := Some (session_new keys t),
              t_recv_rekey_done := False \<rparr>))"

lemma handle_response_cases:
  obtains (err) e st rng' where "handle_response fill tn n remote under_load m out rng = (Inl e, tn\<lparr> t_stats := st \<rparr>, out, rng')"
      "e \<noteq> Internal"
    | (cookie) jar wire st out' rng' where
      "handle_response fill tn n remote under_load m out rng =
         (Inr (Reply wire), tn\<lparr> t_cookie_jar := jar, t_stats := st \<rparr>, out', rng')" "under_load" "wrote (Some wire) out out'"
    | (ok) inflight keys where
      "verify_mac1 (t_mac_keys tn) (hr_alpha m) (hr_mac1 m)"
      "t_inflight tn = Some inflight" "if_local_index inflight = hr_receiver_index m"
      "consume_response inflight (t_local_static tn) (t_psk tn) m = Inr keys"
      "handle_response fill tn n remote under_load m out rng =
         (Inr HandshakeComplete, completed tn (now_ticks n) keys, out, rng)"
proof (cases "verify_mac1 (t_mac_keys tn) (hr_alpha m) (hr_mac1 m)")
  case False
  then show thesis by (intro err) (auto simp: handle_response_def)
next
  case v1: True
  show thesis
  proof (cases "\<exists>inflight. t_inflight tn = Some inflight \<and> if_local_index inflight = hr_receiver_index m")
    case False
    then have "handle_response fill tn n remote under_load m out rng = (Inl NoPendingHandshake, tn\<lparr> t_stats := t_stats tn \<rparr>, out, rng)"
      using v1 by (auto simp: handle_response_def stats_same split: option.splits)
    from err [OF this] show thesis by blast
  next
    case True
    then obtain inflight where i: "t_inflight tn = Some inflight" "if_local_index inflight = hr_receiver_index m" by blast
    show thesis
    proof (cases "under_load \<and> \<not> verify_mac2 (t_cookie_jar tn) remote (hr_beta m) (hr_mac2 m)")
      case l: True
      then have h: "handle_response fill tn n remote under_load m out rng =
          reply_cookie fill tn n remote (hr_sender_index m) (hr_mac1 m) out rng"
        using v1 i by (simp add: handle_response_def)
      show thesis
      proof (cases rule: reply_cookie_cases [of fill tn n remote "hr_sender_index m" "hr_mac1 m" out rng])
        case (err e rng')
        then show thesis by (intro that(1) [of e "t_stats tn" rng']) (auto simp: h stats_same)
      next
        case (ok jar wire out' rng')
        have u: under_load using l by blast
        have "handle_response fill tn n remote under_load m out rng = (Inr (Reply wire),
            tn\<lparr> t_cookie_jar := jar, t_stats := t_stats tn\<lparr> cookies_sent := inc (cookies_sent (t_stats tn)) \<rparr> \<rparr>, out', rng')"
          unfolding h ok(1) by simp
        from that(2) [OF this u ok(4)] show thesis .
      qed
    next
      case v2: False
      show thesis
      proof (cases "consume_response inflight (t_local_static tn) (t_psk tn) m")
        case (Inl e)
        then have "handle_response fill tn n remote under_load m out rng =
            (Inl e, tn\<lparr> t_stats := t_stats tn\<lparr> auth_failures := inc (auth_failures (t_stats tn)) \<rparr> \<rparr>, out, rng)"
          using v1 v2 i by (auto simp: handle_response_def)
        from err [OF this] show thesis using consume_response_error [OF Inl] by blast
      next
        case (Inr keys)
        then have "handle_response fill tn n remote under_load m out rng =
            (Inr HandshakeComplete, completed tn (now_ticks n) keys, out, rng)"
          using v1 v2 i by (auto simp: handle_response_def completed_def Let_def)
        from ok [OF v1 i Inr this] show thesis .
      qed
    qed
  qed
qed

lemma handle_cookie_reply_cases:
  obtains (err) e st where "handle_cookie_reply tn n m = (Inl e, tn\<lparr> t_stats := st \<rparr>)" "e \<noteq> Internal"
    | (ok) c st where "handle_cookie_reply tn n m = (Inr CookieStored, tn\<lparr> t_cookie := Some c, t_stats := st \<rparr>)"
      "lc_received_at c = now_ticks n"
proof -
  have r: "lc_received_at c = now_ticks n" if "try_open_cookie tn m (now_ticks n) mac1 = Some c" for c mac1
    using that by (auto simp: try_open_cookie_def consume_cookie_reply_def Let_def split: option.splits sum.splits prod.splits if_splits)
  show thesis
  proof (cases "fst (handle_cookie_reply tn n m)")
    case (Inl e)
    then have "handle_cookie_reply tn n m = (Inl e, tn\<lparr> t_stats := t_stats (snd (handle_cookie_reply tn n m)) \<rparr>)" "e \<noteq> Internal"
      by (auto simp: handle_cookie_reply_def Let_def stats_same split: option.splits if_splits)
    then show thesis by (rule err)
  next
    case (Inr x)
    then obtain c where "handle_cookie_reply tn n m = (Inr CookieStored, tn\<lparr> t_cookie := Some c,
        t_stats := t_stats tn\<lparr> cookies_received := inc (cookies_received (t_stats tn)) \<rparr> \<rparr>)" "lc_received_at c = now_ticks n"
      using r by (auto simp: handle_cookie_reply_def Let_def split: option.splits if_splits)
    then show thesis by (rule ok)
  qed
qed

text \<open>A transport message that authenticated: the session's window and confirmation flag.\<close>

definition received_on :: "session \<Rightarrow> u64 \<Rightarrow> session" where
  "received_on s c = s\<lparr> s_replay := snd (replay_accept (s_replay s) c), s_confirmed := True \<rparr>"

lemma open_with_outcomes:
  "open_with C key nonce aad c out = (Inl AuthFailure, out) \<or> open_with C key nonce aad c out = (Inl BufferTooSmall, out)
   \<or> (aead_accepts key nonce aad c \<and> length c - 16 \<le> length out
      \<and> open_with C key nonce aad c out = (Inr (length c - 16), put 0 (C key nonce 1 (take (length c - 16) c)) out))"
  by (auto simp: open_with_eq TAG_LEN_def)

lemma handle_transport_opened:
  assumes sl: "session_with_index tn (td_receiver_index msg) = Some sl" and s: "slot_get tn sl = Some s"
    and fr: "\<not> REJECT_AFTER_MESSAGES \<le> td_counter msg" "\<not> REJECT_AFTER_TIME \<le> session_age s (now_ticks n)"
    and rc: "replay_check (s_replay s) (td_counter msg)"
    and r: "r = open_with C (sk_recv (s_keys s)) (nonce_from_counter (td_counter msg)) [] (td_ciphertext msg) out"
  shows "r = (Inr k, out') \<Longrightarrow> handle_transport C tn n msg out =
      transport_accepted (slot_put tn sl (received_on s (td_counter msg))) (now_ticks n) sl (\<not> s_confirmed s) k out'"
    and "r = (Inl BufferTooSmall, out') \<Longrightarrow>
      handle_transport C tn n msg out = (Inl BufferTooSmall, tn\<lparr> t_stats := t_stats tn \<rparr>, out')"
    and "r = (Inl AuthFailure, out') \<Longrightarrow> handle_transport C tn n msg out =
      (Inl AuthFailure, tn\<lparr> t_stats := t_stats tn\<lparr> auth_failures := inc (auth_failures (t_stats tn)) \<rparr> \<rparr>, out')"
proof -
  obtain w where "replay_accept (s_replay s) (td_counter msg) = (True, w)"
    using rc replay_accept_result [of "s_replay s" "td_counter msg"] by (cases "replay_accept (s_replay s) (td_counter msg)") simp
  then show "handle_transport C tn n msg out =
      transport_accepted (slot_put tn sl (received_on s (td_counter msg))) (now_ticks n) sl (\<not> s_confirmed s) k out'"
    if "r = (Inr k, out')"
    using sl s fr rc r [unfolded that, symmetric] by (simp add: handle_transport_def received_on_def Let_def)
  show "handle_transport C tn n msg out = (Inl BufferTooSmall, tn\<lparr> t_stats := t_stats tn \<rparr>, out')"
    if "r = (Inl BufferTooSmall, out')"
    using sl s fr rc r [unfolded that, symmetric] by (simp add: handle_transport_def stats_same)
  show "handle_transport C tn n msg out =
      (Inl AuthFailure, tn\<lparr> t_stats := t_stats tn\<lparr> auth_failures := inc (auth_failures (t_stats tn)) \<rparr> \<rparr>, out')"
    if "r = (Inl AuthFailure, out')"
    using sl s fr rc r [unfolded that, symmetric] by (simp add: handle_transport_def)
qed

lemma handle_transport_cases:
  obtains (err) e st where "handle_transport C tn n msg out = (Inl e, tn\<lparr> t_stats := st \<rparr>, out)" "e \<noteq> Internal"
    | (ok) sl s out' where
      "session_with_index tn (td_receiver_index msg) = Some sl" "slot_get tn sl = Some s"
      "td_counter msg < REJECT_AFTER_MESSAGES" "session_age s (now_ticks n) < REJECT_AFTER_TIME"
      "replay_check (s_replay s) (td_counter msg)"
      "aead_accepts (sk_recv (s_keys s)) (nonce_from_counter (td_counter msg)) [] (td_ciphertext msg)"
      "length (td_ciphertext msg) - 16 \<le> length out"
      "out' = put 0 (C (sk_recv (s_keys s)) (nonce_from_counter (td_counter msg)) 1
                 (take (length (td_ciphertext msg) - 16) (td_ciphertext msg))) out"
      "handle_transport C tn n msg out =
         transport_accepted (slot_put tn sl (received_on s (td_counter msg))) (now_ticks n) sl (\<not> s_confirmed s)
           (length (td_ciphertext msg) - 16) out'"
proof (cases "session_with_index tn (td_receiver_index msg)")
  case None
  then have "handle_transport C tn n msg out = (Inl UnknownReceiverIndex, tn\<lparr> t_stats := t_stats tn \<rparr>, out)"
    by (simp add: handle_transport_def stats_same)
  from err [OF this] show thesis by simp
next
  case sl: (Some sl)
  then obtain s where s: "slot_get tn sl = Some s"
    by (auto simp: session_with_index_def is_some_and_def split: if_splits option.splits)
  show thesis
  proof (cases "REJECT_AFTER_MESSAGES \<le> td_counter msg \<or> REJECT_AFTER_TIME \<le> session_age s (now_ticks n)")
    case True
    then have "handle_transport C tn n msg out = (Inl Expired, tn\<lparr> t_stats := t_stats tn \<rparr>, out)"
      using sl s by (auto simp: handle_transport_def stats_same Let_def)
    from err [OF this] show thesis by simp
  next
    case fresh: False
    show thesis
    proof (cases "replay_check (s_replay s) (td_counter msg)")
      case False
      then have "handle_transport C tn n msg out = (Inl Replay,
          tn\<lparr> t_stats := t_stats tn\<lparr> replays_dropped := inc (replays_dropped (t_stats tn)) \<rparr> \<rparr>, out)"
        using sl s fresh by (simp add: handle_transport_def Let_def)
      from err [OF this] show thesis by simp
    next
      case rc: True
      define ct where "ct = td_ciphertext msg"
      define r where "r = open_with C (sk_recv (s_keys s)) (nonce_from_counter (td_counter msg)) [] (td_ciphertext msg) out"
      have fr: "\<not> REJECT_AFTER_MESSAGES \<le> td_counter msg" "\<not> REJECT_AFTER_TIME \<le> session_age s (now_ticks n)"
        using fresh by simp_all
      note h = handle_transport_opened [OF sl s fr rc r_def]
      consider "aead_accepts (sk_recv (s_keys s)) (nonce_from_counter (td_counter msg)) [] ct" "length ct - 16 \<le> length out"
          "r = (Inr (length ct - 16), put 0 (C (sk_recv (s_keys s)) (nonce_from_counter (td_counter msg)) 1 (take (length ct - 16) ct)) out)"
        | "r = (Inl AuthFailure, out)" | "r = (Inl BufferTooSmall, out)"
        using open_with_outcomes [of C _ _ _ "td_ciphertext msg" out] unfolding r_def ct_def by blast
      then show thesis
      proof cases
        case 1
        from h(1) [OF 1(3)] show thesis
          using 1(1,2) sl s fr rc unfolding ct_def by (intro ok [of sl s]) auto
      next
        case 2
        from err [OF h(3) [OF 2]] show thesis by simp
      next
        case 3
        from err [OF h(2) [OF 3]] show thesis by simp
      qed
    qed
  qed
qed

end
