(* ===== verification/Tunnel_Inv.thy ===== *)
theory Tunnel_Inv
  imports Tunnel_Ops
begin

text \<open>
  The invariant of a tunnel and its preservation by every operation of \<open>tunnel.rs\<close>: session slots,
  index distinctness, counters, replay windows and timers. The transition system of a tunnel
  driven by an arbitrary caller, and what holds in all its states and steps.
\<close>

subsection \<open>The invariant\<close>

definition session_ok :: "ticks \<Rightarrow> session \<Rightarrow> bool" where
  "session_ok t s \<longleftrightarrow>
     (\<exists>S. replay_inv (s_replay s) S) \<and> s_send_counter s \<le> REJECT_AFTER_MESSAGES \<and> s_created s \<le> t"

definition index_list :: "tunnel \<Rightarrow> u32 list" where
  "index_list tn =
     map (\<lambda>s. sk_local_index (s_keys s)) (List.map_filter id [t_previous tn, t_current tn, t_next tn])
     @ map if_local_index (List.map_filter id [t_inflight tn])"

definition by_time :: "ticks \<Rightarrow> ticks option \<Rightarrow> bool" where
  "by_time t x \<longleftrightarrow> (\<forall>v. x = Some v \<longrightarrow> v \<le> t)"

text \<open>Sessions: replay windows, counters and creation times are sound, the local indices in use
  are distinct, established sessions are confirmed and a responder session waiting for its first
  message is not and has sent nothing.\<close>

definition sessions_inv :: "tunnel \<Rightarrow> bool" where
  "sessions_inv tn \<longleftrightarrow>
     (\<forall>s. t_previous tn = Some s \<longrightarrow> session_ok (t_last_now tn) s \<and> s_confirmed s)
     \<and> (\<forall>s. t_current tn = Some s \<longrightarrow> session_ok (t_last_now tn) s \<and> s_confirmed s)
     \<and> (\<forall>s. t_next tn = Some s \<longrightarrow> session_ok (t_last_now tn) s \<and> \<not> s_confirmed s \<and> s_send_counter s = 0)
     \<and> distinct (index_list tn)"

text \<open>Timers: nothing happened later than the last clock reading; a handshake in flight has its
  retransmission armed at least \<open>REKEY_TIMEOUT\<close> after the last initiation; a given-up
  attempt leaves the pacing interval already elapsed.\<close>

definition timers_inv :: "tunnel \<Rightarrow> bool" where
  "timers_inv tn \<longleftrightarrow>
     (let tm = t_timers tn; t = t_last_now tn
      in by_time t (last_data_tx tm) \<and> by_time t (last_data_rx tm) \<and> by_time t (last_any_tx tm)
         \<and> by_time t (last_any_rx tm) \<and> by_time t (last_initiation_tx tm)
         \<and> (t_inflight tn \<noteq> None \<longrightarrow>
              (\<exists>l r. last_initiation_tx tm = Some l \<and> retransmit_at tm = Some r
                 \<and> unat l + unat REKEY_TIMEOUT \<le> unat r))
         \<and> (t_inflight tn = None \<and> gave_up tm \<longrightarrow> initiation_allowed tm t))"

definition tunnel_inv :: "tunnel \<Rightarrow> bool" where
  "tunnel_inv tn \<longleftrightarrow>
     sessions_inv tn \<and> timers_inv tn \<and> length (t_local_public tn) = 32
     \<and> (\<forall>ts. t_last_sent_tai64n tn = Some ts \<longrightarrow> tai_wf ts)
     \<and> t_persistent_keepalive tn \<noteq> Some 0 \<and> t_last_now tn < 2 ^ 63"

text \<open>Clock readings below \<open>2^63\<close> nanoseconds, about 292 years of uptime: the range in which no
  deadline saturates.\<close>

definition clock_ok :: "now \<Rightarrow> bool" where
  "clock_ok n \<longleftrightarrow> now_ticks n < 2 ^ 63"

lemma by_time_None [simp]: "by_time t None" and by_time_Some [simp]: "by_time t (Some v) \<longleftrightarrow> v \<le> t"
  by (simp_all add: by_time_def)

lemma by_time_mono: "by_time t x \<Longrightarrow> t \<le> t' \<Longrightarrow> by_time t' x"
  by (auto simp: by_time_def)

lemma session_ok_mono: "session_ok t s \<Longrightarrow> t \<le> t' \<Longrightarrow> session_ok t' s"
  by (auto simp: session_ok_def)

lemma since_mono: "t \<le> t' \<Longrightarrow> since t e \<le> since t' e"
  by (simp add: word_le_nat_alt since_nat)

lemma initiation_allowed_mono: "initiation_allowed tm t \<Longrightarrow> t \<le> t' \<Longrightarrow> initiation_allowed tm t'"
  using since_mono by (auto simp: initiation_allowed_def is_none_or_def split: option.splits intro: order_trans)

lemma index_list_eq:
  "index_list tn =
     (case t_previous tn of None \<Rightarrow> [] | Some s \<Rightarrow> [sk_local_index (s_keys s)])
     @ (case t_current tn of None \<Rightarrow> [] | Some s \<Rightarrow> [sk_local_index (s_keys s)])
     @ (case t_next tn of None \<Rightarrow> [] | Some s \<Rightarrow> [sk_local_index (s_keys s)])
     @ (case t_inflight tn of None \<Rightarrow> [] | Some i \<Rightarrow> [if_local_index i])"
  by (simp add: index_list_def split: option.splits)

lemma index_clash_iff: "index_clash tn i \<longleftrightarrow> i \<in> set (index_list tn)"
  by (auto simp: index_clash_def index_list_eq session_with_index_def is_some_and_def split: option.splits)

subsection \<open>Time moves forward\<close>

lemma clamp_now_eq:
  "clamp_now tn n = (n\<lparr> now_ticks := max (now_ticks n) (t_last_now tn) \<rparr>, tn\<lparr> t_last_now := max (now_ticks n) (t_last_now tn) \<rparr>)"
  by (cases tn) (auto simp: clamp_now_def max_def)

lemma set_now_inv:
  assumes "tunnel_inv tn" and "t_last_now tn \<le> t" and "t < 2 ^ 63"
  shows "tunnel_inv (tn\<lparr> t_last_now := t \<rparr>)"
  using assms by_time_mono [of "t_last_now tn" _ t] session_ok_mono [of "t_last_now tn" _ t]
    initiation_allowed_mono [of _ "t_last_now tn" t]
  by (simp add: tunnel_inv_def sessions_inv_def timers_inv_def index_list_def Let_def)

lemma clamp_now_inv:
  assumes "tunnel_inv tn" and "clock_ok n" and "clamp_now tn n = (n', tn')"
  shows "tunnel_inv tn'" and "now_ticks n' = t_last_now tn'" and "t_last_now tn \<le> t_last_now tn'"
proof -
  have "t_last_now tn < 2 ^ 63" using assms(1) by (simp add: tunnel_inv_def)
  then have "max (now_ticks n) (t_last_now tn) < 2 ^ 63" using assms(2) by (simp add: clock_ok_def)
  then show "tunnel_inv tn'" "now_ticks n' = t_last_now tn'" "t_last_now tn \<le> t_last_now tn'"
    using assms(1,3) set_now_inv [of tn "max (now_ticks n) (t_last_now tn)"] by (auto simp: clamp_now_eq)
qed

subsection \<open>State changes preserve the invariant\<close>

text \<open>Only these fields matter to the invariant.\<close>

lemma inv_irrelevant [simp]:
  "tunnel_inv (tn\<lparr> t_stats := st \<rparr>) = tunnel_inv tn"
  "tunnel_inv (tn\<lparr> t_cookie_jar := jar \<rparr>) = tunnel_inv tn"
  "tunnel_inv (tn\<lparr> t_cookie := ck \<rparr>) = tunnel_inv tn"
  "tunnel_inv (tn\<lparr> t_last_init_mac1 := m1 \<rparr>) = tunnel_inv tn"
  "tunnel_inv (tn\<lparr> t_last_resp_mac1 := m1 \<rparr>) = tunnel_inv tn"
  "tunnel_inv (tn\<lparr> t_greatest_timestamp := ts \<rparr>) = tunnel_inv tn"
  "tunnel_inv (tn\<lparr> t_recv_rekey_done := b \<rparr>) = tunnel_inv tn"
  "tunnel_inv (tn\<lparr> t_mtu := mtu \<rparr>) = tunnel_inv tn"
  by (simp_all add: tunnel_inv_def sessions_inv_def timers_inv_def index_list_def)

lemma tunnel_inv_timers:
  assumes "tunnel_inv tn"
    and "\<And>tm. tm = t_timers tn \<Longrightarrow> by_time (t_last_now tn) (last_data_tx (f tm))
      \<and> by_time (t_last_now tn) (last_data_rx (f tm)) \<and> by_time (t_last_now tn) (last_any_tx (f tm))
      \<and> by_time (t_last_now tn) (last_any_rx (f tm)) \<and> last_initiation_tx (f tm) = last_initiation_tx tm
      \<and> retransmit_at (f tm) = retransmit_at tm \<and> (gave_up (f tm) \<longrightarrow> gave_up tm)"
  shows "tunnel_inv (upd_timers f tn)"
  using assms
  by (simp add: tunnel_inv_def sessions_inv_def timers_inv_def index_list_def Let_def initiation_allowed_def)

lemma inv_times:
  assumes "tunnel_inv tn"
  shows "by_time (t_last_now tn) (last_data_tx (t_timers tn))" "by_time (t_last_now tn) (last_data_rx (t_timers tn))"
    "by_time (t_last_now tn) (last_any_tx (t_timers tn))" "by_time (t_last_now tn) (last_any_rx (t_timers tn))"
    "by_time (t_last_now tn) (last_initiation_tx (t_timers tn))"
  using assms by (simp_all add: tunnel_inv_def timers_inv_def Let_def)

lemma note_inv:
  assumes "tunnel_inv tn" and "t = t_last_now tn"
  shows "tunnel_inv (upd_timers (note_data_tx t) tn)" "tunnel_inv (upd_timers (note_keepalive_tx t) tn)"
    "tunnel_inv (upd_timers (note_rx t ka) tn)"
  by (intro tunnel_inv_timers [OF assms(1)],
      use inv_times [OF assms(1)] assms(2) in \<open>simp add: note_data_tx_def note_keepalive_tx_def note_rx_def Let_def\<close>)+

lemma flags_inv:
  assumes "tunnel_inv tn"
  shows "tunnel_inv (upd_timers (\<lambda>tm. tm\<lparr> rekey_due := b \<rparr>) tn)"
    "tunnel_inv (upd_timers (\<lambda>tm. tm\<lparr> confirm_keepalive_due := b \<rparr>) tn)"
    "tunnel_inv (upd_timers (\<lambda>tm. tm\<lparr> gave_up := False \<rparr>) tn)"
    "tunnel_inv (upd_timers (\<lambda>tm. tm\<lparr> attempt_started := a \<rparr>) tn)"
    "tunnel_inv (upd_timers (\<lambda>tm. tm\<lparr> gave_up := False, attempt_started := a \<rparr>) tn)"
    "tunnel_inv (upd_timers (\<lambda>tm. tm\<lparr> last_data_rx := None \<rparr>) tn)"
  by (intro tunnel_inv_timers [OF assms], use inv_times [OF assms] in simp)+

lemma tai_wf_outbound:
  assumes "tunnel_inv tn"
  shows "tai_wf (outbound_timestamp tn n)"
proof -
  have "tai_wf (now_tai64n n)" by (simp add: now_tai64n_def)
  then show ?thesis
    using assms tai64n_tick_wf by (auto simp: outbound_timestamp_def tunnel_inv_def split: option.splits)
qed

lemma retransmit_after:
  assumes "t < 2 ^ 63" and "jitter \<le> REKEY_TIMEOUT_JITTER_MAX"
  shows "unat (add_nanos (add_nanos t REKEY_TIMEOUT) (min jitter REKEY_TIMEOUT_JITTER_MAX))
    = unat t + unat REKEY_TIMEOUT + unat jitter"
proof -
  have t: "unat t < 2 ^ 63" using assms(1) by (simp add: word_less_nat_alt)
  have j: "unat jitter \<le> 333000000" using assms(2) by (simp add: word_le_nat_alt REKEY_TIMEOUT_JITTER_MAX_def)
  have r: "unat REKEY_TIMEOUT = 5000000000" by (simp add: const_defs)
  show ?thesis using t j r assms(2) by (simp add: add_nanos_nat min_absorb1)
qed

lemma initiated_inv:
  assumes inv: "tunnel_inv tn" and t: "t = t_last_now tn" and "\<not> index_clash tn (if_local_index i)"
    and "tai_wf ts" and "jitter \<le> REKEY_TIMEOUT_JITTER_MAX"
  shows "tunnel_inv (initiated tn t jitter ts mac1 i)"
proof -
  define tn' where "tn' = initiated tn t jitter ts mac1 i"
  have lt: "t_last_now tn < 2 ^ 63" using inv by (simp add: tunnel_inv_def)
  have r: "unat t + unat REKEY_TIMEOUT
      \<le> unat (add_nanos (add_nanos t REKEY_TIMEOUT) (min jitter REKEY_TIMEOUT_JITTER_MAX))"
    using retransmit_after [OF lt [folded t] assms(5)] by simp
  have "distinct (index_list tn')"
    using inv assms(3)
    by (auto simp: tunnel_inv_def sessions_inv_def tn'_def index_clash_iff index_list_eq initiated_def split: option.splits)
  then have s: "sessions_inv tn'"
    using inv by (simp add: tunnel_inv_def sessions_inv_def tn'_def initiated_def)
  have "timers_inv tn'"
    using r inv_times [OF inv] t by (simp add: timers_inv_def tn'_def initiated_def note_initiation_tx_def Let_def)
  with s inv assms(4) show ?thesis by (simp add: tunnel_inv_def tn'_def [symmetric]) (simp add: tn'_def initiated_def)
qed

lemma send_initiation_inv:
  assumes "tunnel_inv tn" and "now_ticks n = t_last_now tn"
    and "send_initiation fill tn n out rng td = (r, tn', out', rng')"
  shows "tunnel_inv tn'" and "t_last_now tn' = t_last_now tn" and "r \<noteq> Inl Internal"
proof -
  have l: "length (t_local_public tn) = 32" using assms(1) by (simp add: tunnel_inv_def)
  have "tunnel_inv tn' \<and> t_last_now tn' = t_last_now tn \<and> r \<noteq> Inl Internal"
  proof (cases rule: send_initiation_cases [OF l tai_wf_outbound [OF assms(1), of n], of fill out rng td, consumes 0, case_names err ok])
    case (err e rng')
    then show ?thesis using assms by auto
  next
    case (ok index eph jitter im rng')
    have "tunnel_inv tn'"
      using ok(2,4,5,7) assms initiated_inv [OF assms(1) refl] tai_wf_outbound [OF assms(1)] by auto
    then show ?thesis using ok(2) assms(3) by (auto simp: initiated_def)
  qed
  then show "tunnel_inv tn'" "t_last_now tn' = t_last_now tn" "r \<noteq> Inl Internal" by simp_all
qed

lemma send_initiation_length:
  assumes "tunnel_inv tn" and "send_initiation fill tn n out rng td = (Inr k, tn', out', rng')"
  shows "k = 148 \<and> k \<le> length out'"
proof -
  have l: "length (t_local_public tn) = 32" using assms(1) by (simp add: tunnel_inv_def)
  show ?thesis
    by (cases rule: send_initiation_cases [OF l tai_wf_outbound [OF assms(1), of n], of fill out rng td, consumes 0, case_names err ok])
      (use assms(2) in auto)
qed

lemma current_inv:
  assumes "tunnel_inv tn" and "t_current tn = Some s" and "s_keys s' = s_keys s" and "s_confirmed s'"
    and "session_ok (t_last_now tn) s'"
  shows "tunnel_inv (tn\<lparr> t_current := Some s' \<rparr>)"
  using assms by (simp add: tunnel_inv_def sessions_inv_def timers_inv_def index_list_eq Let_def)

lemma advance_ok:
  assumes "session_ok t s" and "\<not> REJECT_AFTER_MESSAGES \<le> s_send_counter s"
  shows "session_ok t (advance s)"
proof -
  have "unat (s_send_counter s) < unat REJECT_AFTER_MESSAGES" using assms(2) by (simp add: word_le_nat_alt)
  then have "unat (s_send_counter s + 1) \<le> unat REJECT_AFTER_MESSAGES"
    using REJECT_nat by (simp add: unat_word_ariths)
  then show ?thesis using assms(1) by (simp add: session_ok_def advance_def word_le_nat_alt)
qed

lemma advance_inv:
  assumes "tunnel_inv tn" and "t_current tn = Some s" and "\<not> REJECT_AFTER_MESSAGES \<le> s_send_counter s"
  shows "tunnel_inv (tn\<lparr> t_current := Some (advance s) \<rparr>)"
proof (rule current_inv [OF assms(1,2)])
  have "session_ok (t_last_now tn) s" "s_confirmed s"
    using assms(1,2) by (simp_all add: tunnel_inv_def sessions_inv_def)
  then show "session_ok (t_last_now tn) (advance s)" "s_confirmed (advance s)"
    using advance_ok assms(3) by (auto simp: advance_def)
qed (simp add: advance_def)

lemma note_send_rekey_inv: "tunnel_inv tn \<Longrightarrow> tunnel_inv (note_send_rekey tn t s)"
  by (simp add: note_send_rekey_def flags_inv)

lemma note_send_rekey_now [simp]: "t_last_now (note_send_rekey tn t s) = t_last_now tn"
  by (simp add: note_send_rekey_def)

lemma sent_inv:
  assumes "tunnel_inv tn" and "t_current tn = Some s" and "\<not> REJECT_AFTER_MESSAGES \<le> s_send_counter s"
    and "t = t_last_now tn"
  shows "tunnel_inv (keepalive_sent tn t s)" and "tunnel_inv (data_sent tn t payload s)"
proof -
  let ?tn = "tn\<lparr> t_current := Some (advance s) \<rparr>"
  note a = advance_inv [OF assms(1-3)]
  have "t = t_last_now ?tn" using assms(4) by simp
  note n = note_inv [OF a this]
  show "tunnel_inv (keepalive_sent tn t s)"
    unfolding keepalive_sent_def by (rule note_send_rekey_inv) (use n(2) in simp)
  show "tunnel_inv (data_sent tn t payload s)"
    unfolding data_sent_def Let_def by (rule note_send_rekey_inv) (use n(1,2) in simp)
qed

subsection \<open>Receiving preserves the invariant\<close>

lemma session_new_ok: "session_ok t (session_new keys t)"
  using replay_new_inv by (auto simp: session_ok_def session_new_def)

lemma received_on_ok:
  assumes "session_ok t s" and "replay_check (s_replay s) c"
  shows "session_ok t (received_on s c)"
  using assms replay_accept_inv [of "s_replay s" _ c] by (auto simp: session_ok_def received_on_def)

lemma replied_inv:
  assumes "tunnel_inv tn" and "t = t_last_now tn" and "\<not> index_clash tn (sk_local_index keys)" and "\<not> sk_is_initiator keys"
  shows "tunnel_inv (replied tn t keys mac1 ts)"
  using assms session_new_ok [of t keys]
  by (auto simp: replied_def tunnel_inv_def sessions_inv_def timers_inv_def index_clash_iff index_list_eq Let_def
      session_new_def split: option.splits)

lemma completed_inv:
  assumes "tunnel_inv tn" and "t = t_last_now tn" and "t_inflight tn = Some i"
    and "sk_local_index keys = if_local_index i" and "sk_is_initiator keys"
  shows "tunnel_inv (completed tn t keys)"
proof -
  define tn' where "tn' = completed tn t keys"
  have "distinct (index_list tn')"
    using assms
    by (auto simp: tunnel_inv_def sessions_inv_def tn'_def completed_def index_list_eq session_new_def split: option.splits)
  then have s: "sessions_inv tn'"
    using assms session_new_ok [of t keys]
    by (simp add: tunnel_inv_def sessions_inv_def tn'_def completed_def) (simp add: session_new_def)
  have "timers_inv tn'"
    using inv_times [OF assms(1)]
    by (simp add: timers_inv_def tn'_def completed_def note_handshake_complete_def Let_def)
  with s assms(1) show ?thesis by (simp add: tunnel_inv_def tn'_def [symmetric]) (simp add: tn'_def completed_def)
qed

lemma slot_put_inv:
  assumes "tunnel_inv tn" and "slot_get tn sl = Some s" and "sl \<noteq> Next" and "replay_check (s_replay s) c"
  shows "tunnel_inv (slot_put tn sl (received_on s c))" and "s_confirmed s"
proof -
  have ok: "session_ok (t_last_now tn) s" "s_confirmed s"
    using assms(1-3) by (cases sl; simp add: tunnel_inv_def sessions_inv_def)+
  show "s_confirmed s" by (rule ok(2))
  have "received_on s c = s\<lparr> s_replay := snd (replay_accept (s_replay s) c), s_confirmed := True \<rparr>"
    by (simp add: received_on_def)
  then show "tunnel_inv (slot_put tn sl (received_on s c))"
    using assms received_on_ok [OF ok(1) assms(4)]
    by (cases sl) (simp_all add: tunnel_inv_def sessions_inv_def timers_inv_def index_list_eq Let_def)
qed

lemma promote_inv:
  assumes "tunnel_inv tn" and "t_next tn = Some s" and "replay_check (s_replay s) c"
  shows "tunnel_inv (promote_next (slot_put tn Next (received_on s c)) t)" and "\<not> s_confirmed s"
proof -
  define tn' where "tn' = promote_next (slot_put tn Next (received_on s c)) t"
  have ok: "session_ok (t_last_now tn) s" "\<not> s_confirmed s"
    using assms by (simp_all add: tunnel_inv_def sessions_inv_def)
  show "\<not> s_confirmed s" by (rule ok(2))
  have k: "s_keys (received_on s c) = s_keys s" "s_confirmed (received_on s c)" by (simp_all add: received_on_def)
  have "distinct (index_list tn')"
    using assms k
    by (auto simp: tunnel_inv_def sessions_inv_def tn'_def promote_next_def index_list_eq Let_def split: option.splits)
  then have s: "sessions_inv tn'"
    using assms k received_on_ok [OF ok(1) assms(3)]
    by (simp add: tunnel_inv_def sessions_inv_def tn'_def promote_next_def Let_def)
  have "timers_inv tn'"
    using inv_times [OF assms(1)]
    by (simp add: timers_inv_def tn'_def promote_next_def note_handshake_complete_def Let_def)
  with s assms(1) show "tunnel_inv tn'" by (simp add: tunnel_inv_def tn'_def [symmetric]) (simp add: tn'_def promote_next_def Let_def)
qed

lemma note_recv_rekey_inv: "tunnel_inv tn \<Longrightarrow> tunnel_inv (note_recv_rekey tn t)"
  by (auto simp: note_recv_rekey_def flags_inv split: option.splits)

lemma note_recv_rekey_now [simp]: "t_last_now (note_recv_rekey tn t) = t_last_now tn"
  by (simp add: note_recv_rekey_def split: option.splits)

text \<open>What remains of \<open>transport_accepted\<close> once the session slots are in place.\<close>

lemma transport_accepted_state:
  assumes "transport_accepted tn t sl confirms k out = (r, tn', out')"
  shows "\<exists>st. tn' = (upd_timers (note_rx t (k = 0))
      (note_recv_rekey (if confirms \<and> sl = Next then promote_next tn t else tn) t))\<lparr> t_stats := st \<rparr>"
    and "out' = out" and "k \<le> length out \<Longrightarrow> r = Inr (if k = 0 then Keepalive else Data (take k out))"
  using assms by (auto simp: transport_accepted_def Let_def get_to_def split: if_splits)

lemma received_state_inv:
  assumes "tunnel_inv tn" and "session_with_index tn i = Some sl" and "slot_get tn sl = Some s"
    and "replay_check (s_replay s) c" and "t = t_last_now tn"
    and "transport_accepted (slot_put tn sl (received_on s c)) t sl (\<not> s_confirmed s) k out = (r, tn', out')"
  shows "tunnel_inv tn'" and "t_last_now tn' = t_last_now tn"
proof -
  define tn1 where "tn1 = (if \<not> s_confirmed s \<and> sl = Next
      then promote_next (slot_put tn sl (received_on s c)) t else slot_put tn sl (received_on s c))"
  have inv: "tunnel_inv tn1"
  proof (cases "sl = Next")
    case True
    then show ?thesis using assms(3) promote_inv [OF assms(1) _ assms(4)] by (simp add: tn1_def)
  next
    case False
    then show ?thesis using slot_put_inv [OF assms(1,3) False assms(4)] by (simp add: tn1_def)
  qed
  have now: "t_last_now tn1 = t_last_now tn" by (cases sl) (simp_all add: tn1_def promote_next_def Let_def)
  obtain st where tn': "tn' = (upd_timers (note_rx t (k = 0)) (note_recv_rekey tn1 t))\<lparr> t_stats := st \<rparr>"
    using transport_accepted_state(1) [OF assms(6)] unfolding tn1_def by blast
  show "tunnel_inv tn'"
    unfolding tn' using note_inv(3) [OF note_recv_rekey_inv [OF inv, of t]] now assms(5) by simp
  show "t_last_now tn' = t_last_now tn" by (simp add: tn' now)
qed

lemma inv_length_public: "tunnel_inv tn \<Longrightarrow> length (t_local_public tn) = 32"
  by (simp add: tunnel_inv_def)

lemma handle_transport_inv:
  assumes "tunnel_inv tn" and "now_ticks n = t_last_now tn" and "handle_transport C tn n msg out = (r, tn', out')"
  shows "tunnel_inv tn' \<and> t_last_now tn' = t_last_now tn"
proof (cases rule: handle_transport_cases [of C tn n msg out])
  case (err e st)
  then show ?thesis using assms by auto
next
  case (ok sl s out')
  then show ?thesis using received_state_inv [OF assms(1) ok(1,2,5) assms(2)] assms(3) by metis
qed

lemma handle_initiation_inv:
  assumes "tunnel_inv tn" and "now_ticks n = t_last_now tn"
    and "handle_initiation fill tn n remote ul m out rng = (r, tn', out', rng')"
  shows "tunnel_inv tn' \<and> t_last_now tn' = t_last_now tn"
proof (cases rule: handle_initiation_cases [of fill tn n remote ul m out rng])
  case (ok consumed index eph rm m' rng')
  have "tunnel_inv tn'"
    using replied_inv [OF assms(1) refl, of "fst rm"] ok(4,5,7) assms(2,3) ik_response_keys by auto
  then show ?thesis using ok(7) assms(3) by (auto simp: replied_def)
qed (use assms in auto)

lemma handle_response_inv:
  assumes "tunnel_inv tn" and "now_ticks n = t_last_now tn"
    and "handle_response fill tn n remote ul m out rng = (r, tn', out', rng')"
  shows "tunnel_inv tn' \<and> t_last_now tn' = t_last_now tn"
proof (cases rule: handle_response_cases [of fill tn n remote ul m out rng])
  case (ok inflight keys)
  have "tunnel_inv tn'"
    using completed_inv [OF assms(1) refl ok(2), of keys] consume_response_keys [OF ok(4)] ok(5) assms(2,3) by auto
  then show ?thesis using ok(5) assms(3) by (auto simp: completed_def)
qed (use assms in auto)

lemma handle_cookie_reply_inv:
  assumes "tunnel_inv tn" and "handle_cookie_reply tn n m = (r, tn')"
  shows "tunnel_inv tn' \<and> t_last_now tn' = t_last_now tn"
  by (cases rule: handle_cookie_reply_cases [of tn n m]) (use assms in auto)

lemma decapsulate_inv:
  assumes "tunnel_inv tn" and "clock_ok n" and "decapsulate C fill tn n remote ul d out rng = (r, tn', out', rng')"
  shows "tunnel_inv tn'" and "t_last_now tn \<le> t_last_now tn'"
proof -
  obtain n1 tn1 where c: "clamp_now tn n = (n1, tn1)" by force
  note ci = clamp_now_inv [OF assms(1,2) c]
  have "tunnel_inv tn' \<and> t_last_now tn' = t_last_now tn1"
    using assms(3) c ci(1)
    by (auto simp: decapsulate_def split: sum.splits packet.splits prod.splits
        dest: handle_initiation_inv [OF ci(1,2)] handle_response_inv [OF ci(1,2)]
          handle_cookie_reply_inv [OF ci(1)] handle_transport_inv [OF ci(1,2)])
  then show "tunnel_inv tn'" "t_last_now tn \<le> t_last_now tn'" using ci(3) by simp_all
qed

subsection \<open>Sending and polling preserve the invariant\<close>

lemma encapsulate_inv:
  assumes "tunnel_inv tn" and "clock_ok n" and "chacha_impl C" and "length out < 2 ^ 63"
    and "encapsulate C fill tn n payload out rng = (r, tn', out', rng')"
  shows "tunnel_inv tn'" and "t_last_now tn \<le> t_last_now tn'" and "r \<noteq> Inl Internal"
proof -
  obtain n1 tn1 where c: "clamp_now tn n = (n1, tn1)" by force
  note ci = clamp_now_inv [OF assms(1,2) c]
  have "tunnel_inv tn' \<and> t_last_now tn' = t_last_now tn1 \<and> r \<noteq> Inl Internal"
  proof (cases "is_some_and (t_current tn1) (\<lambda>s. usable_for_send s (now_ticks n1))")
    case True
    then obtain s where s: "t_current tn1 = Some s" by (auto simp: is_some_and_def split: option.splits)
    then have l: "t_last_now (data_sent tn1 t payload s) = t_last_now tn1" for t by (simp add: data_sent_def Let_def)
    show ?thesis
      using True assms(5) c s ci(1) sent_inv(2) [OF ci(1) s _ ci(2)] l
      by (auto simp: encapsulate_def encapsulate_transport_eq [OF assms(3,4)] split: if_splits)
  next
    case False
    then have e: "encapsulate_initiate fill tn1 n1 out rng = (r, tn', out', rng')"
      using assms(5) c by (simp add: encapsulate_def)
    define tn2 where "tn2 = upd_timers (\<lambda>tm. tm\<lparr> gave_up := False \<rparr>) tn1"
    define tn3 where "tn3 = upd_timers (\<lambda>tm. tm\<lparr> attempt_started := None \<rparr>) tn2"
    have i: "tunnel_inv tn2" "tunnel_inv tn3" "t_last_now tn2 = t_last_now tn1" "t_last_now tn3 = t_last_now tn1"
      unfolding tn2_def tn3_def by (intro flags_inv ci(1) | simp)+
    show ?thesis
    proof (cases "t_inflight tn2 \<noteq> None \<or> \<not> initiation_allowed (t_timers tn2) (now_ticks n1)")
      case True
      then show ?thesis
        using e flags_inv(4) [OF i(1)] i(1,3)
        unfolding encapsulate_initiate_def tn2_def [symmetric] Let_def by (auto split: if_splits)
    next
      case False
      obtain r1 tn4 out4 rng4 where s: "send_initiation fill tn3 n1 out rng False = (r1, tn4, out4, rng4)"
        by (cases "send_initiation fill tn3 n1 out rng False")
      have n: "now_ticks n1 = t_last_now tn3" using i ci(2) by simp
      note si = send_initiation_inv [OF i(2) n s]
      have k: "\<exists>w. get_to k out4 = Some w" if "r1 = Inr k" for k
        using send_initiation_length [OF i(2) s [unfolded that]] by (simp add: get_to_def)
      show ?thesis
        using e s False si i k unfolding encapsulate_initiate_def tn2_def [symmetric] Let_def tn3_def [symmetric]
        by (cases r1) (auto split: if_splits)
    qed
  qed
  then show "tunnel_inv tn'" "t_last_now tn \<le> t_last_now tn'" "r \<noteq> Inl Internal" using ci(3) by simp_all
qed

lemma initiate_handshake_inv:
  assumes "tunnel_inv tn" and "clock_ok n" and "initiate_handshake fill tn n out rng = (r, tn', out', rng')"
  shows "tunnel_inv tn'" and "t_last_now tn \<le> t_last_now tn'" and "r \<noteq> Inl Internal"
proof -
  obtain n1 tn1 where c: "clamp_now tn n = (n1, tn1)" by force
  note ci = clamp_now_inv [OF assms(1,2) c]
  define tn2 where "tn2 = upd_timers (\<lambda>tm. tm\<lparr> gave_up := False, attempt_started := None \<rparr>) tn1"
  have i: "tunnel_inv tn2" "t_last_now tn2 = t_last_now tn1"
    unfolding tn2_def by (intro flags_inv ci(1) | simp)+
  obtain r1 tn4 out4 rng4 where s: "send_initiation fill tn2 n1 out rng False = (r1, tn4, out4, rng4)"
    by (cases "send_initiation fill tn2 n1 out rng False")
  have n: "now_ticks n1 = t_last_now tn2" using i ci(2) by simp
  note si = send_initiation_inv [OF i(1) n s]
  have k: "\<exists>w. get_to k out4 = Some w" if "r1 = Inr k" for k
    using send_initiation_length [OF i(1) s [unfolded that]] by (simp add: get_to_def)
  have "tunnel_inv tn' \<and> t_last_now tn' = t_last_now tn1 \<and> r \<noteq> Inl Internal"
    using assms(3) c s si i ci(1) k unfolding initiate_handshake_def
    by (cases r1) (auto simp: tn2_def [symmetric] ok_or_def split: if_splits)
  then show "tunnel_inv tn'" "t_last_now tn \<le> t_last_now tn'" "r \<noteq> Inl Internal" using ci(3) by simp_all
qed

lemma discard_inv:
  assumes "tunnel_inv tn"
  shows "tunnel_inv (discard_all_sessions tn)"
  using assms
  by (simp add: tunnel_inv_def sessions_inv_def timers_inv_def index_list_eq discard_all_sessions_def timers_default_def Let_def)

text \<open>What every stage of \<open>poll\<close> guarantees: the invariant, no internal error, an initiation only when
  the pacing allows one, and a keepalive only as the next message of a usable current session.\<close>

definition is_initiation_reason :: "send_reason \<Rightarrow> bool" where
  "is_initiation_reason reason \<longleftrightarrow> reason = ReasonInitiation \<or> reason = ReasonRetransmit"

text \<open>The identity of a tunnel, which no operation changes, and the greatest timestamp it has
  accepted, which only an accepted initiation changes.\<close>

definition same_ids :: "tunnel \<Rightarrow> tunnel \<Rightarrow> bool" where
  "same_ids tn tn' \<longleftrightarrow>
     t_constants tn' = t_constants tn \<and> t_local_static tn' = t_local_static tn
     \<and> t_local_public tn' = t_local_public tn \<and> t_peer_public tn' = t_peer_public tn
     \<and> t_precomputed_ss tn' = t_precomputed_ss tn \<and> t_mac_keys tn' = t_mac_keys tn
     \<and> t_psk tn' = t_psk tn"

lemma same_ids_refl [simp]: "same_ids tn tn"
  by (simp add: same_ids_def)

lemma same_ids_trans: "same_ids a b \<Longrightarrow> same_ids b c \<Longrightarrow> same_ids a c"
  by (simp add: same_ids_def)

definition poll_good :: "tunnel \<Rightarrow> poll_output result \<times> tunnel \<times> bytes \<times> 'r \<Rightarrow> bool" where
  "poll_good tn res \<longleftrightarrow>
     (case res of (r, tn', out', rng') \<Rightarrow>
        tunnel_inv tn' \<and> t_last_now tn' = t_last_now tn \<and> r \<noteq> Inl Internal
        \<and> (\<forall>w reason. r = Inr (Send w reason) \<and> is_initiation_reason reason \<longrightarrow>
              initiation_allowed (t_timers tn) (t_last_now tn)
              \<and> last_initiation_tx (t_timers tn') = Some (t_last_now tn))
        \<and> ((\<forall>w reason. r = Inr (Send w reason) \<longrightarrow> \<not> is_initiation_reason reason) \<longrightarrow>
              last_initiation_tx (t_timers tn') = last_initiation_tx (t_timers tn))
        \<and> (\<forall>w reason. r = Inr (Send w reason) \<and> \<not> is_initiation_reason reason \<longrightarrow>
              (\<exists>s. t_current tn = Some s \<and> usable_for_send s (t_last_now tn) \<and> w = transport_wire s []
                 \<and> t_current tn' = Some (advance s)))
        \<and> ((\<forall>w reason. r = Inr (Send w reason) \<longrightarrow> is_initiation_reason reason) \<longrightarrow> t_current tn' = t_current tn)
        \<and> t_next tn' = t_next tn \<and> same_ids tn tn' \<and> t_greatest_timestamp tn' = t_greatest_timestamp tn
        \<and> (\<forall>w reason. r = Inr (Send w reason) \<and> is_initiation_reason reason \<longrightarrow>
              (\<exists>n. t_last_sent_tai64n tn' = Some (outbound_timestamp tn n)))
        \<and> ((\<forall>w reason. r = Inr (Send w reason) \<longrightarrow> \<not> is_initiation_reason reason) \<longrightarrow>
              t_last_sent_tai64n tn' = t_last_sent_tai64n tn))"

lemma poll_good_same:
  assumes "poll_good tn1 res" and "t_last_now tn1 = t_last_now tn" and "t_current tn1 = t_current tn"
    and "t_next tn1 = t_next tn" and "last_initiation_tx (t_timers tn1) = last_initiation_tx (t_timers tn)"
    and "same_ids tn tn1" and "t_greatest_timestamp tn1 = t_greatest_timestamp tn"
    and "t_last_sent_tai64n tn1 = t_last_sent_tai64n tn"
  shows "poll_good tn res"
proof (cases res)
  case (fields r tn' out' rng')
  have "outbound_timestamp tn1 = outbound_timestamp tn"
    "initiation_allowed (t_timers tn1) = initiation_allowed (t_timers tn)"
    using assms(5,8) by (simp_all add: fun_eq_iff outbound_timestamp_def initiation_allowed_def)
  moreover have "same_ids tn1 tn' \<Longrightarrow> same_ids tn tn'" by (rule same_ids_trans [OF assms(6)])
  ultimately show ?thesis using assms(1-5,7,8) by (simp add: poll_good_def fields)
qed

lemma poll_good_Idle: "tunnel_inv tn \<Longrightarrow> poll_good tn (Inr Idle, tn, out, rng)"
  by (simp add: poll_good_def)

lemma initiated_fields [simp]:
  "last_initiation_tx (t_timers (initiated tn t jitter ts mac1 i)) = Some t"
  "t_current (initiated tn t jitter ts mac1 i) = t_current tn"
  "t_next (initiated tn t jitter ts mac1 i) = t_next tn"
  "t_last_sent_tai64n (initiated tn t jitter ts mac1 i) = Some ts"
  "t_greatest_timestamp (initiated tn t jitter ts mac1 i) = t_greatest_timestamp tn"
  "same_ids tn (initiated tn t jitter ts mac1 i)"
  by (simp_all add: initiated_def note_initiation_tx_def same_ids_def Let_def)

lemma send_initiation_fields:
  assumes "tunnel_inv tn" and "send_initiation fill tn n out rng td = (r, tn', out', rng')"
  shows "t_current tn' = t_current tn" and "t_next tn' = t_next tn"
    and "r = Inr k \<Longrightarrow> last_initiation_tx (t_timers tn') = Some (now_ticks n)" and "r = Inl e \<Longrightarrow> tn' = tn"
    and "same_ids tn tn'" and "t_greatest_timestamp tn' = t_greatest_timestamp tn"
    and "r = Inr k \<Longrightarrow> t_last_sent_tai64n tn' = Some (outbound_timestamp tn n)"
proof -
  have l: "length (t_local_public tn) = 32" using assms(1) by (simp add: tunnel_inv_def)
  have "t_current tn' = t_current tn \<and> t_next tn' = t_next tn
    \<and> (r = Inr k \<longrightarrow> last_initiation_tx (t_timers tn') = Some (now_ticks n)) \<and> (r = Inl e \<longrightarrow> tn' = tn)
    \<and> same_ids tn tn' \<and> t_greatest_timestamp tn' = t_greatest_timestamp tn
    \<and> (r = Inr k \<longrightarrow> t_last_sent_tai64n tn' = Some (outbound_timestamp tn n))"
    by (cases rule: send_initiation_cases [OF l tai_wf_outbound [OF assms(1), of n], of fill out rng td, consumes 0, case_names err ok])
      (use assms(2) in auto)
  then show "t_current tn' = t_current tn" "t_next tn' = t_next tn"
    "r = Inr k \<Longrightarrow> last_initiation_tx (t_timers tn') = Some (now_ticks n)" "r = Inl e \<Longrightarrow> tn' = tn"
    "same_ids tn tn'" "t_greatest_timestamp tn' = t_greatest_timestamp tn"
    "r = Inr k \<Longrightarrow> t_last_sent_tai64n tn' = Some (outbound_timestamp tn n)" by simp_all
qed

lemma poll_initiate_good:
  assumes "tunnel_inv tn" and "now_ticks n = t_last_now tn" and "is_initiation_reason reason"
    and "initiation_allowed (t_timers tn) (t_last_now tn)"
  shows "poll_good tn (poll_initiate fill reason tn n out rng)"
proof -
  obtain r1 tn1 out1 rng1 where s: "send_initiation fill tn n out rng True = (r1, tn1, out1, rng1)"
    by (cases "send_initiation fill tn n out rng True")
  have "\<exists>w. get_to k out1 = Some w" if "r1 = Inr k" for k
    using send_initiation_length [OF assms(1) s [unfolded that]] by (simp add: get_to_def)
  then show ?thesis
    using send_initiation_inv [OF assms(1,2) s] send_initiation_fields [OF assms(1) s] s assms
    by (cases r1) (auto simp: poll_good_def poll_initiate_def)
qed

lemma note_send_rekey_fields [simp]:
  "t_current (note_send_rekey tn t s) = t_current tn" "t_next (note_send_rekey tn t s) = t_next tn"
  "last_initiation_tx (t_timers (note_send_rekey tn t s)) = last_initiation_tx (t_timers tn)"
  "t_greatest_timestamp (note_send_rekey tn t s) = t_greatest_timestamp tn"
  "t_last_sent_tai64n (note_send_rekey tn t s) = t_last_sent_tai64n tn"
  "same_ids tn0 (note_send_rekey tn t s) = same_ids tn0 tn"
  by (simp_all add: note_send_rekey_def same_ids_def)

lemma sent_fields [simp]:
  "t_current (keepalive_sent tn t s) = Some (advance s)" "t_next (keepalive_sent tn t s) = t_next tn"
  "t_last_now (keepalive_sent tn t s) = t_last_now tn"
  "last_initiation_tx (t_timers (keepalive_sent tn t s)) = last_initiation_tx (t_timers tn)"
  "t_current (data_sent tn t p s) = Some (advance s)" "t_next (data_sent tn t p s) = t_next tn"
  "t_last_now (data_sent tn t p s) = t_last_now tn"
  "last_initiation_tx (t_timers (data_sent tn t p s)) = last_initiation_tx (t_timers tn)"
  "t_greatest_timestamp (keepalive_sent tn t s) = t_greatest_timestamp tn"
  "t_greatest_timestamp (data_sent tn t p s) = t_greatest_timestamp tn"
  "t_last_sent_tai64n (keepalive_sent tn t s) = t_last_sent_tai64n tn"
  "t_last_sent_tai64n (data_sent tn t p s) = t_last_sent_tai64n tn"
  by (simp_all add: keepalive_sent_def data_sent_def note_keepalive_tx_def note_data_tx_def Let_def)

lemma sent_ids [simp]: "same_ids tn (keepalive_sent tn t s)" "same_ids tn (data_sent tn t p s)"
  by (simp_all add: keepalive_sent_def data_sent_def Let_def) (simp_all add: same_ids_def)

lemma poll_keepalive_good:
  assumes "tunnel_inv tn" and "now_ticks n = t_last_now tn" and "chacha_impl C" and "length out < 2 ^ 63"
    and "is_some_and (t_current tn) (\<lambda>s. usable_for_send s (now_ticks n))" and "\<not> is_initiation_reason reason"
  shows "poll_good tn (poll_keepalive C reason tn n out rng)"
proof -
  obtain s where s: "t_current tn = Some s" "\<not> REJECT_AFTER_MESSAGES \<le> s_send_counter s" "usable_for_send s (now_ticks n)"
    using assms(5) by (auto simp: is_some_and_def usable_for_send_def split: option.splits)
  show ?thesis
    using s sent_inv(1) [OF assms(1) s(1,2) assms(2)] assms(1,2,6)
    by (auto simp: poll_good_def poll_keepalive_def send_keepalive_eq [OF assms(3,4)])
qed

lemma reasons [simp]:
  "is_initiation_reason ReasonInitiation" "is_initiation_reason ReasonRetransmit"
  "\<not> is_initiation_reason ReasonKeepalive" "\<not> is_initiation_reason ReasonPersistentKeepalive"
  by (simp_all add: is_initiation_reason_def)

lemma poll_persistent_good:
  assumes "tunnel_inv tn" and "now_ticks n = t_last_now tn" and "chacha_impl C" and "length out < 2 ^ 63"
    and "usable \<longleftrightarrow> is_some_and (t_current tn) (\<lambda>s. usable_for_send s (now_ticks n))"
  shows "poll_good tn (poll_persistent C fill usable tn n out rng)"
proof -
  have k: "poll_good tn (poll_keepalive C ReasonPersistentKeepalive tn n out rng)" if usable
    by (rule poll_keepalive_good [OF assms(1-4)]) (use that assms(5) in simp_all)
  have idle: "poll_good tn (Inr Idle, tn, out, rng)" by (rule poll_good_Idle [OF assms(1)])
  define tn1 where "tn1 = upd_timers (\<lambda>tm. tm\<lparr> gave_up := False, attempt_started := None \<rparr>) tn"
  have i: "poll_good tn (poll_initiate fill ReasonInitiation tn1 n out rng)"
    if "initiation_allowed (t_timers tn) (now_ticks n)"
    by (rule poll_good_same [of tn1], rule poll_initiate_good)
      (use that assms(2) flags_inv(5) [OF assms(1)] in \<open>simp_all add: tn1_def initiation_allowed_def same_ids_def\<close>)
  show ?thesis
    using k i idle
    by (auto simp: poll_persistent_def tn1_def [symmetric] Let_def split: option.splits)
qed

lemma poll_passive_good:
  assumes "tunnel_inv tn" and "now_ticks n = t_last_now tn" and "chacha_impl C" and "length out < 2 ^ 63"
    and "usable \<longleftrightarrow> is_some_and (t_current tn) (\<lambda>s. usable_for_send s (now_ticks n))"
  shows "poll_good tn (poll_passive C fill usable tn n out rng)"
proof -
  have k: "poll_good tn (poll_keepalive C ReasonKeepalive tn n out rng)" if usable
    by (rule poll_keepalive_good [OF assms(1-4)]) (use that assms(5) in simp_all)
  have p: "poll_good tn (poll_persistent C fill usable tn n out rng)" by (rule poll_persistent_good [OF assms])
  define tn1 where "tn1 = upd_timers (\<lambda>tm. tm\<lparr> last_data_rx := None \<rparr>) tn"
  have "poll_good tn1 (poll_persistent C fill usable tn1 n out rng)"
    by (rule poll_persistent_good) (use assms flags_inv(6) [OF assms(1)] in \<open>simp_all add: tn1_def\<close>)
  then have i: "poll_good tn (poll_persistent C fill usable tn1 n out rng)"
    by (rule poll_good_same) (simp_all add: tn1_def same_ids_def)
  show ?thesis
    using k p i by (auto simp: poll_passive_def tn1_def [symmetric])
qed

lemma poll_confirm_good:
  assumes "tunnel_inv tn" and "now_ticks n = t_last_now tn" and "chacha_impl C" and "length out < 2 ^ 63"
  shows "poll_good tn (poll_confirm C fill tn n out rng)"
proof -
  define tn1 where "tn1 = upd_timers (\<lambda>tm. tm\<lparr> confirm_keepalive_due := False \<rparr>) tn"
  let ?u = "is_some_and (t_current tn) (\<lambda>s. usable_for_send s (now_ticks n))"
  have k: "poll_good tn (poll_keepalive C ReasonKeepalive tn n out rng)" if ?u
    by (rule poll_keepalive_good [OF assms that]) simp
  have p: "poll_good tn (poll_passive C fill ?u tn n out rng)" by (rule poll_passive_good [OF assms refl])
  have "poll_good tn1 (poll_passive C fill ?u tn1 n out rng)"
    by (rule poll_passive_good) (use assms flags_inv(2) [OF assms(1)] in \<open>simp_all add: tn1_def\<close>)
  then have i: "poll_good tn (poll_passive C fill ?u tn1 n out rng)"
    by (rule poll_good_same) (simp_all add: tn1_def same_ids_def)
  show ?thesis
    using k p i by (auto simp: poll_confirm_def tn1_def [symmetric] Let_def)
qed

lemma poll_dead_peer_good:
  assumes "tunnel_inv tn" and "now_ticks n = t_last_now tn" and "chacha_impl C" and "length out < 2 ^ 63"
  shows "poll_good tn (poll_dead_peer C fill tn n out rng)"
proof -
  define tn1 where "tn1 = upd_timers (\<lambda>tm. tm\<lparr> attempt_started := None \<rparr>) tn"
  have i: "poll_good tn (poll_initiate fill ReasonInitiation tn1 n out rng)"
    if "initiation_allowed (t_timers tn) (now_ticks n)"
    by (rule poll_good_same [of tn1], rule poll_initiate_good)
      (use that assms(2) flags_inv(4) [OF assms(1)] in \<open>simp_all add: tn1_def initiation_allowed_def same_ids_def\<close>)
  show ?thesis
    using i poll_confirm_good [OF assms, of fill rng] by (auto simp: poll_dead_peer_def tn1_def [symmetric])
qed

lemma poll_rekey_good:
  assumes "tunnel_inv tn" and "now_ticks n = t_last_now tn" and "chacha_impl C" and "length out < 2 ^ 63"
  shows "poll_good tn (poll_rekey C fill tn n out rng)"
proof -
  define tn1 where "tn1 = upd_timers (\<lambda>tm. tm\<lparr> attempt_started := None \<rparr>) tn"
  define tn2 where "tn2 = upd_timers (\<lambda>tm. tm\<lparr> rekey_due := False \<rparr>) tn"
  have i: "poll_good tn (poll_initiate fill ReasonInitiation tn1 n out rng)"
    if "initiation_allowed (t_timers tn) (now_ticks n)"
    by (rule poll_good_same [of tn1], rule poll_initiate_good)
      (use that assms(2) flags_inv(4) [OF assms(1)] in \<open>simp_all add: tn1_def initiation_allowed_def same_ids_def\<close>)
  have "poll_good tn2 (poll_dead_peer C fill tn2 n out rng)"
    by (rule poll_dead_peer_good) (use assms flags_inv(1) [OF assms(1)] in \<open>simp_all add: tn2_def\<close>)
  then have d: "poll_good tn (poll_dead_peer C fill tn2 n out rng)"
    by (rule poll_good_same) (simp_all add: tn2_def same_ids_def)
  show ?thesis
    using i d poll_dead_peer_good [OF assms, of fill rng] by (auto simp: poll_rekey_def tn1_def [symmetric] tn2_def [symmetric])
qed

lemma retransmit_allowed:
  assumes "tunnel_inv tn" and "t_inflight tn \<noteq> None" and "is_some_and (retransmit_at (t_timers tn)) (\<lambda>at. at \<le> t_last_now tn)"
  shows "initiation_allowed (t_timers tn) (t_last_now tn)"
proof -
  obtain l r where "last_initiation_tx (t_timers tn) = Some l" "retransmit_at (t_timers tn) = Some r"
    "unat l + unat REKEY_TIMEOUT \<le> unat r" "r \<le> t_last_now tn"
    using assms by (auto simp: tunnel_inv_def timers_inv_def Let_def is_some_and_def)
  then show ?thesis
    by (auto simp: initiation_allowed_def is_none_or_def since_nat word_le_nat_alt)
qed

lemma gave_up_inv:
  assumes "tunnel_inv tn" and "initiation_allowed (t_timers tn) (t_last_now tn)"
  shows "tunnel_inv (upd_timers note_gave_up (tn\<lparr> t_inflight := None \<rparr>))"
  using assms
  by (auto simp: tunnel_inv_def sessions_inv_def timers_inv_def index_list_eq Let_def note_gave_up_def
      initiation_allowed_def split: option.splits)

lemma poll_retransmit_good:
  assumes "tunnel_inv tn" and "now_ticks n = t_last_now tn" and "chacha_impl C" and "length out < 2 ^ 63"
  shows "poll_good tn (poll_retransmit C fill tn n out rng)"
proof (cases "t_inflight tn \<noteq> None \<and> is_some_and (retransmit_at (t_timers tn)) (\<lambda>at. at \<le> now_ticks n)")
  case True
  then have a: "initiation_allowed (t_timers tn) (t_last_now tn)"
    using retransmit_allowed [OF assms(1)] assms(2) by simp
  have "poll_good tn (Inr HandshakeExpired, upd_timers note_gave_up (tn\<lparr> t_inflight := None \<rparr>), out, rng)"
    using gave_up_inv [OF assms(1) a] by (simp add: poll_good_def note_gave_up_def same_ids_def)
  moreover have "poll_good tn (poll_initiate fill ReasonRetransmit tn n out rng)"
    by (rule poll_initiate_good [OF assms(1,2) _ a]) simp
  ultimately show ?thesis using True by (simp add: poll_retransmit_def)
next
  case False
  then have "poll_retransmit C fill tn n out rng = poll_rekey C fill tn n out rng"
    by (auto simp: poll_retransmit_def)
  then show ?thesis using poll_rekey_good [OF assms, of fill rng] by simp
qed

lemma expire_next_inv: "tunnel_inv tn \<Longrightarrow> tunnel_inv (expire_next tn t)"
  by (auto simp: expire_next_def tunnel_inv_def sessions_inv_def timers_inv_def index_list_eq Let_def split: option.splits)

lemma poll_stage:
  assumes "tunnel_inv tn" and "clock_ok n" and "chacha_impl C" and "length out < 2 ^ 63"
    and "clamp_now tn n = (n1, tn1)" and "tn2 = expire_next tn1 (now_ticks n1)"
    and "poll C fill tn n out rng = (r, tn', out', rng')"
  shows "r = Inr SessionsExpired \<and> tn' = discard_all_sessions tn2 \<or> poll_good tn2 (r, tn', out', rng')"
    and "tunnel_inv tn2" and "t_last_now tn2 = t_last_now tn1"
proof -
  note ci = clamp_now_inv [OF assms(1,2,5)]
  show i: "tunnel_inv tn2" "t_last_now tn2 = t_last_now tn1"
    unfolding assms(6) using expire_next_inv [OF ci(1)] by (simp_all add: expire_next_def)
  have "poll_good tn2 (poll_retransmit C fill tn2 n1 out rng)"
    by (rule poll_retransmit_good) (use i ci(2) assms(3,4) in simp_all)
  then show "r = Inr SessionsExpired \<and> tn' = discard_all_sessions tn2 \<or> poll_good tn2 (r, tn', out', rng')"
    using assms(5,7) by (auto simp: poll_def assms(6) [symmetric] split: if_splits)
qed

lemma poll_inv:
  assumes "tunnel_inv tn" and "clock_ok n" and "chacha_impl C" and "length out < 2 ^ 63"
    and "poll C fill tn n out rng = (r, tn', out', rng')"
  shows "tunnel_inv tn'" and "t_last_now tn \<le> t_last_now tn'" and "r \<noteq> Inl Internal"
proof -
  obtain n1 tn1 where c: "clamp_now tn n = (n1, tn1)" by force
  note ci = clamp_now_inv [OF assms(1,2) c]
  note p = poll_stage [OF assms(1-4) c refl assms(5)]
  have "tunnel_inv tn' \<and> t_last_now tn' = t_last_now tn1 \<and> r \<noteq> Inl Internal"
    using p discard_inv [OF p(2)] by (auto simp: poll_good_def discard_all_sessions_def)
  then show "tunnel_inv tn'" "t_last_now tn \<le> t_last_now tn'" "r \<noteq> Inl Internal" using ci(3) by simp_all
qed

end
