(* ===== verification/Tunnel_Trace.thy ===== *)
theory Tunnel_Trace
  imports Tunnel_Inv
begin

text \<open>
  A tunnel driven by an arbitrary caller, as a labelled transition system: one step per public
  operation of \<open>tunnel.rs\<close>, labelled with what it sends and the error it returns. Reachable states
  satisfy the invariant of \<open>Tunnel_Inv\<close>; runs (sequences of steps) give the properties that hold
  over time: pacing, counters, timestamps and the single acceptance of an initiation.
\<close>

subsection \<open>The transition system\<close>

text \<open>What an operation hands to the network.\<close>

datatype emission = EmitNone | EmitInitiation bytes | EmitTransport bytes | EmitReply bytes

fun encap_emits :: "encapsulated result \<Rightarrow> emission" where
  "encap_emits (Inr (Transport w)) = EmitTransport w"
| "encap_emits (Inr (EncapInitiation w)) = EmitInitiation w"
| "encap_emits (Inl e) = EmitNone"

fun decap_emits :: "received result \<Rightarrow> emission" where
  "decap_emits (Inr (Reply w)) = EmitReply w"
| "decap_emits r = EmitNone"

fun poll_emits :: "poll_output result \<Rightarrow> emission" where
  "poll_emits (Inr (Send w reason)) = (if is_initiation_reason reason then EmitInitiation w else EmitTransport w)"
| "poll_emits r = EmitNone"

fun initiate_emits :: "bytes result \<Rightarrow> emission" where
  "initiate_emits (Inr w) = EmitInitiation w"
| "initiate_emits (Inl e) = EmitNone"

text \<open>One call by an arbitrary caller: any operation, with any arguments, any clock reading in range
  and any buffer of a possible size. The label is what is sent and the error, if any.\<close>

fun err_of :: "'a result \<Rightarrow> error option" where
  "err_of (Inl e) = Some e"
| "err_of (Inr _) = None"

inductive tunnel_step ::
  "chacha_backend \<Rightarrow> 'r fill \<Rightarrow> tunnel \<times> 'r \<Rightarrow> emission \<times> error option \<Rightarrow> tunnel \<times> 'r \<Rightarrow> bool"
  for C fill where
  step_encapsulate:
    "tunnel_step C fill (tn, rng) (encap_emits r, err_of r) (tn', rng')"
    if "encapsulate C fill tn n payload out rng = (r, tn', out', rng')" "clock_ok n" "length out < 2 ^ 63"
| step_decapsulate:
    "tunnel_step C fill (tn, rng) (decap_emits r, err_of r) (tn', rng')"
    if "decapsulate C fill tn n remote under_load d out rng = (r, tn', out', rng')" "clock_ok n" "length out < 2 ^ 63"
| step_poll:
    "tunnel_step C fill (tn, rng) (poll_emits r, err_of r) (tn', rng')"
    if "poll C fill tn n out rng = (r, tn', out', rng')" "clock_ok n" "length out < 2 ^ 63"
| step_initiate:
    "tunnel_step C fill (tn, rng) (initiate_emits r, err_of r) (tn', rng')"
    if "initiate_handshake fill tn n out rng = (r, tn', out', rng')" "clock_ok n" "length out < 2 ^ 63"
| step_set_mtu: "tunnel_step C fill (tn, rng) (EmitNone, None) (set_mtu tn mtu, rng)"
| step_reset: "tunnel_step C fill (tn, rng) (EmitNone, None) (tunnel_reset tn, rng)"

inductive_cases tunnel_step_elim [elim]: "tunnel_step C fill (tn, rng) ev (tn', rng')"

inductive reachable :: "chacha_backend \<Rightarrow> 'r fill \<Rightarrow> config \<Rightarrow> tunnel \<times> 'r \<Rightarrow> bool" for C fill cfg where
  start: "reachable C fill cfg (tunnel_fresh cfg ss, rng)"
| step: "reachable C fill cfg st \<Longrightarrow> tunnel_step C fill st ev st' \<Longrightarrow> reachable C fill cfg st'"

subsection \<open>The invariant holds everywhere\<close>

lemma tunnel_fresh_inv:
  "cfg_persistent_keepalive cfg \<noteq> Some 0 \<Longrightarrow> tunnel_inv (tunnel_fresh cfg ss)"
  by (simp add: tunnel_inv_def sessions_inv_def timers_inv_def index_list_eq tunnel_fresh_def public_key_def
      timers_default_def Let_def)

lemma step_inv:
  assumes "tunnel_inv tn" and "chacha_impl C" and "tunnel_step C fill (tn, rng) ev (tn', rng')"
  shows "tunnel_inv tn' \<and> t_last_now tn \<le> t_last_now tn'"
  using assms(3)
proof cases
  case (step_encapsulate n payload out r out')
  show ?thesis using encapsulate_inv [OF assms(1) step_encapsulate(3) assms(2) step_encapsulate(4,2)] by simp
next
  case (step_decapsulate n remote under_load d out r out')
  show ?thesis using decapsulate_inv [OF assms(1) step_decapsulate(3,2)] by simp
next
  case (step_poll n out r out')
  show ?thesis using poll_inv [OF assms(1) step_poll(3) assms(2) step_poll(4,2)] by simp
next
  case (step_initiate n out r out')
  show ?thesis using initiate_handshake_inv [OF assms(1) step_initiate(3,2)] by simp
next
  case (step_set_mtu mtu)
  then show ?thesis using assms(1) by (simp add: set_mtu_def)
next
  case step_reset
  then show ?thesis using discard_inv [OF assms(1)] by (simp add: tunnel_reset_def discard_all_sessions_def)
qed

lemma reachable_inv:
  assumes "reachable C fill cfg st" and "chacha_impl C" and "cfg_persistent_keepalive cfg \<noteq> Some 0"
  shows "tunnel_inv (fst st)"
  using assms
proof (induction rule: reachable.induct)
  case (start ss rng)
  then show ?case by (simp add: tunnel_fresh_inv)
next
  case (step st ev st')
  then show ?case using step_inv [of "fst st" C fill "snd st" ev "fst st'" "snd st'"] by simp
qed

subsection \<open>What a step sends\<close>

definition current_kept :: "session option \<Rightarrow> session option \<Rightarrow> bool" where
  "current_kept c c' \<longleftrightarrow>
     (\<forall>s'. c' = Some s' \<longrightarrow> s_send_counter s' = 0
        \<or> (\<exists>s. c = Some s \<and> s_keys s' = s_keys s \<and> s_send_counter s' = s_send_counter s))"

definition greatest_kept :: "tunnel \<Rightarrow> tunnel \<Rightarrow> bool" where
  "greatest_kept tn tn' \<longleftrightarrow>
     (\<forall>g. t_greatest_timestamp tn = Some g \<longrightarrow> (\<exists>g'. t_greatest_timestamp tn' = Some g' \<and> g \<le> g'))"

definition send_effect :: "tunnel \<Rightarrow> emission \<Rightarrow> tunnel \<Rightarrow> bool" where
  "send_effect tn e tn' \<longleftrightarrow>
     same_ids tn tn' \<and> greatest_kept tn tn'
     \<and> (case e of
        EmitInitiation w \<Rightarrow>
          initiation_allowed (t_timers tn) (t_last_now tn')
          \<and> last_initiation_tx (t_timers tn') = Some (t_last_now tn') \<and> current_kept (t_current tn) (t_current tn')
          \<and> (\<exists>n. t_last_sent_tai64n tn' = Some (outbound_timestamp tn n))
      | EmitTransport w \<Rightarrow>
          (\<exists>s plain. t_current tn = Some s \<and> usable_for_send s (t_last_now tn') \<and> w = transport_wire s plain
             \<and> t_current tn' = Some (advance s))
          \<and> last_initiation_tx (t_timers tn') = last_initiation_tx (t_timers tn)
          \<and> t_last_sent_tai64n tn' = t_last_sent_tai64n tn
      | _ \<Rightarrow> current_kept (t_current tn) (t_current tn')
          \<and> last_initiation_tx (t_timers tn') = last_initiation_tx (t_timers tn)
          \<and> t_last_sent_tai64n tn' = t_last_sent_tai64n tn)"

lemma greatest_kept_same: "t_greatest_timestamp tn' = t_greatest_timestamp tn \<Longrightarrow> greatest_kept tn tn'"
  by (simp add: greatest_kept_def)

lemma greatest_kept_trans: "greatest_kept a b \<Longrightarrow> greatest_kept b c \<Longrightarrow> greatest_kept a c"
  by (meson greatest_kept_def order_trans)

lemma current_kept_refl [simp]: "current_kept c c"
  by (simp add: current_kept_def)

lemma current_kept_None [simp]: "current_kept c None"
  by (simp add: current_kept_def)

lemma send_effect_same:
  assumes "send_effect tn1 e tn'" and "t_current tn1 = t_current tn"
    and "last_initiation_tx (t_timers tn1) = last_initiation_tx (t_timers tn)"
    and "same_ids tn tn1" and "t_greatest_timestamp tn1 = t_greatest_timestamp tn"
    and "t_last_sent_tai64n tn1 = t_last_sent_tai64n tn"
  shows "send_effect tn e tn'"
proof -
  have "outbound_timestamp tn1 = outbound_timestamp tn"
    "initiation_allowed (t_timers tn1) = initiation_allowed (t_timers tn)"
    using assms(3,6) by (simp_all add: fun_eq_iff outbound_timestamp_def initiation_allowed_def)
  moreover have "same_ids tn1 tn' \<Longrightarrow> same_ids tn tn'" by (rule same_ids_trans [OF assms(4)])
  ultimately show ?thesis
    using assms(1-3,5,6) by (simp add: send_effect_def greatest_kept_def split: emission.splits)
qed

lemma send_initiation_effect:
  assumes "tunnel_inv tn" and "now_ticks n = t_last_now tn" and "initiation_allowed (t_timers tn) (t_last_now tn)"
    and "send_initiation fill tn n out rng td = (r, tn', out', rng')"
  shows "send_effect tn (case r of Inl e \<Rightarrow> EmitNone | Inr k \<Rightarrow> EmitInitiation w) tn'"
  using send_initiation_fields [OF assms(1,4)] send_initiation_inv [OF assms(1,2,4)] assms(2,3)
  by (auto simp: send_effect_def greatest_kept_same split: sum.splits)

lemma encapsulate_effect:
  assumes "tunnel_inv tn" and "clock_ok n" and "chacha_impl C" and "length out < 2 ^ 63"
    and "encapsulate C fill tn n payload out rng = (r, tn', out', rng')"
  shows "send_effect tn (encap_emits r) tn'"
proof -
  obtain n1 tn1 where c: "clamp_now tn n = (n1, tn1)" by force
  note ci = clamp_now_inv [OF assms(1,2) c]
  have same: "t_current tn1 = t_current tn" "t_timers tn1 = t_timers tn" "same_ids tn tn1"
    "t_greatest_timestamp tn1 = t_greatest_timestamp tn" "t_last_sent_tai64n tn1 = t_last_sent_tai64n tn"
    using c by (auto simp: clamp_now_eq same_ids_def)
  show ?thesis
  proof (cases "is_some_and (t_current tn1) (\<lambda>s. usable_for_send s (now_ticks n1))")
    case True
    then obtain s where s: "t_current tn1 = Some s" "usable_for_send s (now_ticks n1)"
      by (auto simp: is_some_and_def split: option.splits)
    then show ?thesis
      using True assms(5) c same ci(2)
      by (auto simp: encapsulate_def encapsulate_transport_eq [OF assms(3,4)] send_effect_def greatest_kept_def split: if_splits
          intro: same_ids_trans [OF same(3)])
  next
    case False
    then have e: "encapsulate_initiate fill tn1 n1 out rng = (r, tn', out', rng')"
      using assms(5) c by (simp add: encapsulate_def)
    define tn2 where "tn2 = upd_timers (\<lambda>tm. tm\<lparr> gave_up := False \<rparr>) tn1"
    define tn3 where "tn3 = upd_timers (\<lambda>tm. tm\<lparr> attempt_started := None \<rparr>) tn2"
    have i: "tunnel_inv tn3" unfolding tn2_def tn3_def by (intro flags_inv ci(1))
    have n: "now_ticks n1 = t_last_now tn3" using ci(2) by (simp add: tn3_def tn2_def)
    obtain r1 tn4 out4 rng4 where s: "send_initiation fill tn3 n1 out rng False = (r1, tn4, out4, rng4)"
      by (cases "send_initiation fill tn3 n1 out rng False")
    show ?thesis
    proof (cases "t_inflight tn2 \<noteq> None \<or> \<not> initiation_allowed (t_timers tn2) (now_ticks n1)")
      case True
      then show ?thesis
        using e same unfolding encapsulate_initiate_def tn2_def [symmetric] Let_def
        by (auto simp: tn2_def send_effect_def greatest_kept_def same_ids_def split: if_splits)
    next
      case False
      have g: "\<exists>w. get_to k out4 = Some w" if "r1 = Inr k" for k
        using send_initiation_length [OF i s [unfolded that]] by (simp add: get_to_def)
      have "\<exists>w. encap_emits r = (case r1 of Inl e \<Rightarrow> EmitNone | Inr k \<Rightarrow> EmitInitiation w) \<and> tn' = tn4"
        using e s False g unfolding encapsulate_initiate_def tn2_def [symmetric] Let_def tn3_def [symmetric]
        by (cases r1) auto
      moreover have "initiation_allowed (t_timers tn3) (t_last_now tn3)"
        using False n by (simp add: tn3_def initiation_allowed_def)
      ultimately have "send_effect tn3 (encap_emits r) tn'"
        using send_initiation_effect [OF i n _ s] by auto
      then show ?thesis
        by (rule send_effect_same) (use same(3) in \<open>simp_all add: tn3_def tn2_def same same_ids_def\<close>)
    qed
  qed
qed

lemma initiate_handshake_effect:
  assumes "tunnel_inv tn" and "clock_ok n" and "initiate_handshake fill tn n out rng = (r, tn', out', rng')"
  shows "send_effect tn (initiate_emits r) tn'"
proof -
  obtain n1 tn1 where c: "clamp_now tn n = (n1, tn1)" by force
  note ci = clamp_now_inv [OF assms(1,2) c]
  have same: "t_current tn1 = t_current tn" "t_timers tn1 = t_timers tn" "same_ids tn tn1"
    "t_greatest_timestamp tn1 = t_greatest_timestamp tn" "t_last_sent_tai64n tn1 = t_last_sent_tai64n tn"
    using c by (auto simp: clamp_now_eq same_ids_def)
  define tn2 where "tn2 = upd_timers (\<lambda>tm. tm\<lparr> gave_up := False, attempt_started := None \<rparr>) tn1"
  have i: "tunnel_inv tn2" unfolding tn2_def by (intro flags_inv ci(1))
  have n: "now_ticks n1 = t_last_now tn2" using ci(2) by (simp add: tn2_def)
  obtain r1 tn4 out4 rng4 where s: "send_initiation fill tn2 n1 out rng False = (r1, tn4, out4, rng4)"
    by (cases "send_initiation fill tn2 n1 out rng False")
  show ?thesis
  proof (cases "initiation_allowed (t_timers tn1) (now_ticks n1)")
    case False
    then show ?thesis using assms(3) c same by (auto simp: initiate_handshake_def send_effect_def greatest_kept_same)
  next
    case True
    have g: "\<exists>w. get_to k out4 = Some w" if "r1 = Inr k" for k
      using send_initiation_length [OF i s [unfolded that]] by (simp add: get_to_def)
    have "\<exists>w. initiate_emits r = (case r1 of Inl e \<Rightarrow> EmitNone | Inr k \<Rightarrow> EmitInitiation w) \<and> tn' = tn4"
      using assms(3) c s True g by (cases r1) (auto simp: initiate_handshake_def tn2_def [symmetric])
    moreover have "initiation_allowed (t_timers tn2) (t_last_now tn2)"
      using True n by (simp add: tn2_def initiation_allowed_def)
    ultimately have "send_effect tn2 (initiate_emits r) tn'"
      using send_initiation_effect [OF i n _ s] by auto
    then show ?thesis
      by (rule send_effect_same) (use same(3) in \<open>simp_all add: tn2_def same same_ids_def\<close>)
  qed
qed

lemma poll_effect:
  assumes "tunnel_inv tn" and "clock_ok n" and "chacha_impl C" and "length out < 2 ^ 63"
    and "poll C fill tn n out rng = (r, tn', out', rng')"
  shows "send_effect tn (poll_emits r) tn'"
proof -
  obtain n1 tn1 where c: "clamp_now tn n = (n1, tn1)" by force
  define tn2 where "tn2 = expire_next tn1 (now_ticks n1)"
  have same: "t_current tn2 = t_current tn" "t_timers tn2 = t_timers tn" "same_ids tn tn2"
    "t_greatest_timestamp tn2 = t_greatest_timestamp tn" "t_last_sent_tai64n tn2 = t_last_sent_tai64n tn"
    using c by (auto simp: clamp_now_eq tn2_def expire_next_def same_ids_def)
  note p = poll_stage [OF assms(1-4) c tn2_def assms(5)]
  have "send_effect tn2 (poll_emits r) tn'"
    using p(1)
  proof
    assume "r = Inr SessionsExpired \<and> tn' = discard_all_sessions tn2"
    then show ?thesis by (simp add: send_effect_def discard_all_sessions_def greatest_kept_def same_ids_def)
  next
    assume "poll_good tn2 (r, tn', out', rng')"
    then show ?thesis by (cases r rule: poll_emits.cases) (auto simp: send_effect_def poll_good_def greatest_kept_same)
  qed
  then show ?thesis by (rule send_effect_same) (simp_all add: same)
qed

definition kept :: "tunnel \<Rightarrow> tunnel \<Rightarrow> bool" where
  "kept tn tn' \<longleftrightarrow> current_kept (t_current tn) (t_current tn')
     \<and> last_initiation_tx (t_timers tn') = last_initiation_tx (t_timers tn)
     \<and> t_last_sent_tai64n tn' = t_last_sent_tai64n tn \<and> same_ids tn tn' \<and> greatest_kept tn tn'"

lemma kept_refl [simp]: "kept tn tn"
  by (simp add: kept_def greatest_kept_def)

lemma handle_initiation_kept:
  "handle_initiation fill tn n remote ul m out rng = (r, tn', out', rng') \<Longrightarrow> kept tn tn'"
  by (cases rule: handle_initiation_cases [of fill tn n remote ul m out rng]) (auto simp: kept_def replied_def same_ids_def greatest_kept_def is_some_and_def split: option.splits)

lemma handle_response_kept:
  "handle_response fill tn n remote ul m out rng = (r, tn', out', rng') \<Longrightarrow> kept tn tn'"
  by (cases rule: handle_response_cases [of fill tn n remote ul m out rng])
    (auto simp: kept_def completed_def note_handshake_complete_def current_kept_def session_new_def
      same_ids_def greatest_kept_def)

lemma handle_cookie_reply_kept: "handle_cookie_reply tn n m = (r, tn') \<Longrightarrow> kept tn tn'"
  by (cases rule: handle_cookie_reply_cases [of tn n m]) (auto simp: kept_def same_ids_def greatest_kept_def)

lemma received_kept:
  assumes "tunnel_inv tn" and "slot_get tn sl = Some s"
    and "transport_accepted (slot_put tn sl (received_on s c)) t sl (\<not> s_confirmed s) k out = (r, tn', out')"
  shows "kept tn tn'"
proof -
  define tn1 where "tn1 = (if \<not> s_confirmed s \<and> sl = Next
      then promote_next (slot_put tn sl (received_on s c)) t else slot_put tn sl (received_on s c))"
  obtain st where "tn' = (upd_timers (note_rx t (k = 0)) (note_recv_rekey tn1 t))\<lparr> t_stats := st \<rparr>"
    using transport_accepted_state(1) [OF assms(3)] unfolding tn1_def by blast
  then have f: "t_current tn' = t_current tn1" "last_initiation_tx (t_timers tn') = last_initiation_tx (t_timers tn1)"
    "t_last_sent_tai64n tn' = t_last_sent_tai64n tn1" "same_ids tn0 tn' = same_ids tn0 tn1"
    "t_greatest_timestamp tn' = t_greatest_timestamp tn1" for tn0
    by (simp_all add: note_recv_rekey_def note_rx_def Let_def same_ids_def split: option.splits)
  have "sl = Next \<Longrightarrow> s_send_counter s = 0" using assms(1,2) by (simp add: tunnel_inv_def sessions_inv_def)
  then have "kept tn tn1"
    using assms(2)
    by (cases sl) (auto simp: tn1_def kept_def promote_next_def note_handshake_complete_def Let_def current_kept_def received_on_def
        same_ids_def greatest_kept_def)
  then show ?thesis by (simp add: kept_def f greatest_kept_def)
qed

lemma handle_transport_kept:
  assumes "tunnel_inv tn" and "handle_transport C tn n msg out = (r, tn', out')"
  shows "kept tn tn'"
proof (cases rule: handle_transport_cases [of C tn n msg out])
  case (err e st)
  then show ?thesis using assms by (auto simp: kept_def same_ids_def greatest_kept_def)
next
  case (ok sl s out')
  then show ?thesis using received_kept [OF assms(1) ok(2)] assms(2) by metis
qed

lemma decapsulate_effect:
  assumes "tunnel_inv tn" and "clock_ok n" and "decapsulate C fill tn n remote ul d out rng = (r, tn', out', rng')"
  shows "send_effect tn (decap_emits r) tn'"
proof -
  obtain n1 tn1 where c: "clamp_now tn n = (n1, tn1)" by force
  note ci = clamp_now_inv [OF assms(1,2) c]
  have "kept tn1 tn'"
    using assms(3) c
    by (auto simp: decapsulate_def split: sum.splits packet.splits prod.splits
        dest: handle_initiation_kept handle_response_kept handle_cookie_reply_kept handle_transport_kept [OF ci(1)])
  then show ?thesis
    using c by (cases r rule: decap_emits.cases) (auto simp: send_effect_def kept_def clamp_now_eq same_ids_def greatest_kept_def)
qed

lemma step_effect:
  assumes "tunnel_inv tn" and "chacha_impl C" and "tunnel_step C fill (tn, rng) (e, er) (tn', rng')"
  shows "send_effect tn e tn'"
  using assms(3)
proof cases
  case (step_encapsulate n payload out r out')
  then show ?thesis using encapsulate_effect [OF assms(1) step_encapsulate(4) assms(2) step_encapsulate(5,3)] by simp
next
  case (step_decapsulate n remote under_load d out r out')
  then show ?thesis using decapsulate_effect [OF assms(1) step_decapsulate(4,3)] by simp
next
  case (step_poll n out r out')
  then show ?thesis using poll_effect [OF assms(1) step_poll(4) assms(2) step_poll(5,3)] by simp
next
  case (step_initiate n out r out')
  then show ?thesis using initiate_handshake_effect [OF assms(1) step_initiate(4,3)] by simp
qed (simp_all add: send_effect_def set_mtu_def tunnel_reset_def discard_all_sessions_def same_ids_def greatest_kept_def)

subsection \<open>Errors\<close>

lemma handle_transport_outcome:
  assumes "chacha_impl C" and "handle_transport C tn n msg out = (r, tn', out')"
  shows "(\<exists>e st. r = Inl e \<and> e \<noteq> Internal \<and> tn' = tn\<lparr> t_stats := st \<rparr> \<and> out' = out)
    \<or> r = Inr Keepalive \<or> (\<exists>p. r = Inr (Data p))"
proof (cases rule: handle_transport_cases [of C tn n msg out])
  case (err e st)
  then show ?thesis using assms(2) by auto
next
  case (ok sl s out1)
  define k where "k = length (td_ciphertext msg) - 16"
  have "length out1 = length out"
    using ok(7,8) chacha_impl.keystream_length [OF assms(1)] by (simp add: put_def)
  then show ?thesis
    using transport_accepted_state(3) [of _ _ _ _ k out1 r tn' out'] ok(7,9) assms(2) by (auto simp: k_def)
qed

lemma decapsulate_error:
  assumes "chacha_impl C" and "decapsulate C fill tn n remote ul d out rng = (Inl e, tn', out', rng')"
  shows "\<exists>st. tn' = tn\<lparr> t_last_now := max (now_ticks n) (t_last_now tn), t_stats := st \<rparr>" and "out' = out" and "e \<noteq> Internal"
proof -
  define tn1 where "tn1 = tn\<lparr> t_last_now := max (now_ticks n) (t_last_now tn) \<rparr>"
  define n1 where "n1 = n\<lparr> now_ticks := max (now_ticks n) (t_last_now tn) \<rparr>"
  have c: "clamp_now tn n = (n1, tn1)" by (simp add: clamp_now_eq n1_def tn1_def)
  define goal where "goal \<longleftrightarrow> (\<exists>st. tn' = tn1\<lparr> t_stats := st \<rparr>) \<and> out' = out \<and> e \<noteq> Internal"
  have goal
  proof (cases "parse d")
    case (Inl e')
    then have "tn' = tn1" "out' = out" "e = e'" using assms(2) c by (simp_all add: decapsulate_def)
    moreover have "tn1 = tn1\<lparr> t_stats := t_stats tn1 \<rparr>" by (simp add: stats_same)
    ultimately show ?thesis unfolding goal_def using parse_error [OF Inl] by blast
  next
    case (Inr p)
    show ?thesis
    proof (cases p)
      case (HandshakeInitiation m)
      then have h: "handle_initiation fill tn1 n1 remote ul m out rng = (Inl e, tn', out', rng')"
        using assms(2) c Inr by (simp add: decapsulate_def)
      show ?thesis
        by (cases rule: handle_initiation_cases [of fill tn1 n1 remote ul m out rng]) (use h in \<open>auto simp: goal_def\<close>)
    next
      case (HandshakeResponse m)
      then have h: "handle_response fill tn1 n1 remote ul m out rng = (Inl e, tn', out', rng')"
        using assms(2) c Inr by (simp add: decapsulate_def)
      show ?thesis
        by (cases rule: handle_response_cases [of fill tn1 n1 remote ul m out rng]) (use h in \<open>auto simp: goal_def\<close>)
    next
      case (CookieReply m)
      then have h: "handle_cookie_reply tn1 n1 m = (Inl e, tn')" "out' = out"
        using assms(2) c Inr by (auto simp: decapsulate_def split: prod.splits)
      show ?thesis
        by (cases rule: handle_cookie_reply_cases [of tn1 n1 m]) (use h in \<open>auto simp: goal_def\<close>)
    next
      case (TransportData m)
      then have "handle_transport C tn1 n1 m out = (Inl e, tn', out')"
        using assms(2) c Inr by (auto simp: decapsulate_def split: prod.splits)
      from handle_transport_outcome [OF assms(1) this] show ?thesis by (auto simp: goal_def)
    qed
  qed
  then show "\<exists>st. tn' = tn\<lparr> t_last_now := max (now_ticks n) (t_last_now tn), t_stats := st \<rparr>" "out' = out" "e \<noteq> Internal"
    by (auto simp: goal_def tn1_def)
qed

lemma step_no_internal:
  assumes "tunnel_inv tn" and "chacha_impl C" and "tunnel_step C fill (tn, rng) (e, er) (tn', rng')"
  shows "er \<noteq> Some Internal"
  using assms(3)
proof cases
  case (step_encapsulate n payload out r out')
  then show ?thesis
    using encapsulate_inv(3) [OF assms(1) step_encapsulate(4) assms(2) step_encapsulate(5,3)] by (cases r) auto
next
  case (step_decapsulate n remote under_load d out r out')
  then show ?thesis
    using decapsulate_error(3) [OF assms(2), of fill tn n remote under_load d out rng] by (cases r) auto
next
  case (step_poll n out r out')
  then show ?thesis
    using poll_inv(3) [OF assms(1) step_poll(4) assms(2) step_poll(5,3)] by (cases r) auto
next
  case (step_initiate n out r out')
  then show ?thesis
    using initiate_handshake_inv(3) [OF assms(1) step_initiate(4,3)] by (cases r) auto
qed simp_all

subsection \<open>Runs\<close>

text \<open>A run records, for each step, the state before, what was sent, and the state after.\<close>

inductive run ::
  "chacha_backend \<Rightarrow> 'r fill \<Rightarrow> tunnel \<times> 'r \<Rightarrow> (tunnel \<times> emission \<times> tunnel) list \<Rightarrow> tunnel \<times> 'r \<Rightarrow> bool"
  for C fill st0 where
  run_nil: "run C fill st0 [] st0"
| run_snoc: "run C fill st0 tr (tn, rng) \<Longrightarrow> tunnel_step C fill (tn, rng) (e, er) (tn', rng') \<Longrightarrow>
     run C fill st0 (tr @ [(tn, e, tn')]) (tn', rng')"

lemma run_inv:
  assumes "run C fill st0 tr st" and "tunnel_inv (fst st0)" and "chacha_impl C"
  shows "tunnel_inv (fst st)"
  using assms by (induction rule: run.induct) (auto dest: step_inv)

lemma run_ids:
  assumes "run C fill st0 tr st" and "tunnel_inv (fst st0)" and "chacha_impl C"
  shows "same_ids (fst st0) (fst st) \<and> greatest_kept (fst st0) (fst st)"
  using assms
proof (induction rule: run.induct)
  case (run_snoc tr tn rng e er tn' rng')
  have "send_effect tn e tn'"
    using step_effect [OF _ run_snoc.prems(2) run_snoc.hyps(2)] run_inv [OF run_snoc.hyps(1) run_snoc.prems] by simp
  then show ?case
    using run_snoc same_ids_trans greatest_kept_trans by (auto simp: send_effect_def)
qed (simp add: greatest_kept_def)

fun initiation_time :: "tunnel \<times> emission \<times> tunnel \<Rightarrow> ticks option" where
  "initiation_time (tn, EmitInitiation w, tn') = Some (t_last_now tn')"
| "initiation_time _ = None"

fun initiation_stamp :: "tunnel \<times> emission \<times> tunnel \<Rightarrow> tai64n option" where
  "initiation_stamp (tn, EmitInitiation w, tn') = t_last_sent_tai64n tn'"
| "initiation_stamp _ = None"

fun sending_session :: "tunnel \<times> emission \<times> tunnel \<Rightarrow> session option" where
  "sending_session (tn, EmitTransport w, tn') = t_current tn"
| "sending_session _ = None"

definition paced :: "ticks \<Rightarrow> ticks \<Rightarrow> bool" where
  "paced a b \<longleftrightarrow> unat a + unat REKEY_TIMEOUT \<le> unat b"

definition follows :: "session \<Rightarrow> session \<Rightarrow> bool" where
  "follows a b \<longleftrightarrow>
     s_send_counter b = 0 \<or> s_keys b = s_keys a \<and> unat (s_send_counter b) = unat (s_send_counter a) + 1"

lemma map_filter_snoc: "List.map_filter f (xs @ [x]) = List.map_filter f xs @ (case f x of None \<Rightarrow> [] | Some y \<Rightarrow> [y])"
  by (induction xs) (auto split: option.splits)

lemma initiation_allowed_paced:
  assumes "initiation_allowed tm t" and "last_initiation_tx tm = Some l"
  shows "paced l t"
proof -
  have "unat REKEY_TIMEOUT \<le> unat t - unat l" "0 < unat REKEY_TIMEOUT"
    using assms by (simp_all add: initiation_allowed_def is_none_or_def since_ge_iff) (simp add: const_defs)
  then show ?thesis by (simp add: paced_def)
qed

lemma paced_trans: "paced a b \<Longrightarrow> paced b c \<Longrightarrow> paced a c"
  by (simp add: paced_def)

lemma sorted_wrt_last: "sorted_wrt P xs \<Longrightarrow> x \<in> set xs \<Longrightarrow> x = last xs \<or> P x (last xs)"
  by (induction xs rule: rev_induct) (auto simp: sorted_wrt_append)

lemma run_paced:
  assumes "run C fill st0 tr st" and "tunnel_inv (fst st0)" and "chacha_impl C"
  shows "sorted_wrt paced (List.map_filter initiation_time tr)
    \<and> (List.map_filter initiation_time tr \<noteq> [] \<longrightarrow>
         last_initiation_tx (t_timers (fst st)) = Some (last (List.map_filter initiation_time tr)))"
  using assms
proof (induction rule: run.induct)
  case (run_snoc tr tn rng e er tn' rng')
  let ?ts = "List.map_filter initiation_time tr"
  note IH = run_snoc.IH [OF run_snoc.prems]
  have eff: "send_effect tn e tn'"
    using step_effect [OF _ run_snoc.prems(2) run_snoc.hyps(2)] run_inv [OF run_snoc.hyps(1) run_snoc.prems] by simp
  show ?case
  proof (cases "\<exists>w. e = EmitInitiation w")
    case True
    then have l: "initiation_allowed (t_timers tn) (t_last_now tn')" "last_initiation_tx (t_timers tn') = Some (t_last_now tn')"
      "initiation_time (tn, e, tn') = Some (t_last_now tn')"
      using eff by (auto simp: send_effect_def)
    have "paced x (t_last_now tn')" if "x \<in> set ?ts" for x
    proof -
      have ne: "?ts \<noteq> []" using that by auto
      then have p: "paced (last ?ts) (t_last_now tn')" using initiation_allowed_paced [OF l(1)] IH by simp
      have "x = last ?ts \<or> paced x (last ?ts)"
        using sorted_wrt_last [of paced ?ts x] that IH by blast
      then show ?thesis using p paced_trans by blast
    qed
    then show ?thesis using IH l by (simp add: map_filter_snoc sorted_wrt_append)
  next
    case False
    then have "last_initiation_tx (t_timers tn') = last_initiation_tx (t_timers tn)" "initiation_time (tn, e, tn') = None"
      using eff by (cases e; simp add: send_effect_def)+
    then show ?thesis using IH by (simp add: map_filter_snoc)
  qed
qed simp

lemma run_counters:
  assumes "run C fill st0 tr st" and "tunnel_inv (fst st0)" and "chacha_impl C"
  shows "successively follows (List.map_filter sending_session tr)
    \<and> (List.map_filter sending_session tr \<noteq> [] \<longrightarrow>
        (\<forall>c. t_current (fst st) = Some c \<longrightarrow> follows (last (List.map_filter sending_session tr)) c))"
  using assms
proof (induction rule: run.induct)
  case (run_snoc tr tn rng e er tn' rng')
  let ?ss = "List.map_filter sending_session tr"
  note IH = run_snoc.IH [OF run_snoc.prems]
  have inv: "tunnel_inv tn" using run_inv [OF run_snoc.hyps(1) run_snoc.prems] by simp
  have eff: "send_effect tn e tn'" using step_effect [OF inv run_snoc.prems(2) run_snoc.hyps(2)] .
  show ?case
  proof (cases "\<exists>w. e = EmitTransport w")
    case True
    then obtain s where s: "t_current tn = Some s" "usable_for_send s (t_last_now tn')" "t_current tn' = Some (advance s)"
      "sending_session (tn, e, tn') = Some s"
      using eff by (auto simp: send_effect_def)
    have "unat (s_send_counter s) < unat REJECT_AFTER_MESSAGES" using s(2) by (simp add: usable_for_send_def word_less_nat_alt)
    then have "unat (s_send_counter s + 1) = unat (s_send_counter s) + 1"
      using REJECT_nat by (simp add: unat_word_ariths)
    then have "follows s (advance s)" by (simp add: follows_def advance_def)
    then show ?thesis using IH s by (auto simp: map_filter_snoc successively_append_iff)
  next
    case False
    then have "current_kept (t_current tn) (t_current tn')" "sending_session (tn, e, tn') = None"
      using eff by (cases e; simp add: send_effect_def)+
    then show ?thesis using IH by (fastforce simp: map_filter_snoc current_kept_def follows_def)
  qed
qed simp

text \<open>The timestamp sent with an initiation is later than every earlier one, unless the 96-bit
  timestamp has saturated.\<close>

definition stamp_before :: "tai64n \<Rightarrow> tai64n \<Rightarrow> bool" where
  "stamp_before a b \<longleftrightarrow> a < b \<or> b = Tai64N (replicate 12 0xff)"

lemma outbound_after:
  assumes "tunnel_inv tn" and "t_last_sent_tai64n tn = Some a"
  shows "stamp_before a (outbound_timestamp tn n)"
proof -
  have wf: "tai_wf a" using assms by (simp add: tunnel_inv_def)
  have "a < tai64n_tick a \<or> tai64n_tick a = Tai64N (replicate 12 0xff)"
  proof (cases "tai_nat a < 2 ^ 96 - 1")
    case True
    then show ?thesis using tai64n_tick_nat [OF wf] tai_less_iff [OF wf tai64n_tick_wf [OF wf]] by simp
  next
    case False
    then have "tai_nat a = 2 ^ 96 - 1" using tai_nat_less [OF wf] by simp
    then show ?thesis using tai64n_tick_saturates [OF wf] tai_nat_all_ones [OF wf] by (cases a) simp
  qed
  then show ?thesis using assms(2) by (auto simp: outbound_timestamp_def stamp_before_def)
qed

lemma run_stamps:
  assumes "run C fill st0 tr st" and "tunnel_inv (fst st0)" and "chacha_impl C"
  shows "successively stamp_before (List.map_filter initiation_stamp tr)
    \<and> (List.map_filter initiation_stamp tr \<noteq> [] \<longrightarrow>
         t_last_sent_tai64n (fst st) = Some (last (List.map_filter initiation_stamp tr)))"
  using assms
proof (induction rule: run.induct)
  case (run_snoc tr tn rng e er tn' rng')
  let ?ts = "List.map_filter initiation_stamp tr"
  note IH = run_snoc.IH [OF run_snoc.prems]
  have inv: "tunnel_inv tn" using run_inv [OF run_snoc.hyps(1) run_snoc.prems] by simp
  have eff: "send_effect tn e tn'" using step_effect [OF inv run_snoc.prems(2) run_snoc.hyps(2)] .
  show ?case
  proof (cases "\<exists>w. e = EmitInitiation w")
    case True
    then obtain n where "t_last_sent_tai64n tn' = Some (outbound_timestamp tn n)"
      "initiation_stamp (tn, e, tn') = Some (outbound_timestamp tn n)"
      using eff by (auto simp: send_effect_def)
    then show ?thesis using IH outbound_after [OF inv] by (auto simp: map_filter_snoc successively_append_iff)
  next
    case False
    then have "t_last_sent_tai64n tn' = t_last_sent_tai64n tn" "initiation_stamp (tn, e, tn') = None"
      using eff by (cases e; simp add: send_effect_def)+
    then show ?thesis using IH by (simp add: map_filter_snoc)
  qed
qed simp

lemma decapsulate_initiation:
  assumes "parse d = Inr (HandshakeInitiation m)"
    and "decapsulate C fill tn n remote ul d out rng = (r, tn', out', rng')"
  shows "t_greatest_timestamp tn' = t_greatest_timestamp tn \<and> t_next tn' = t_next tn
    \<or> (\<exists>consumed. consume_initiation (t_constants tn) (t_local_static tn) (t_local_public tn) (t_peer_public tn)
          (t_precomputed_ss tn) m = Inr consumed
        \<and> \<not> is_some_and (t_greatest_timestamp tn) (\<lambda>g. ci_timestamp consumed \<le> g)
        \<and> t_greatest_timestamp tn' = Some (ci_timestamp consumed))"
proof -
  obtain n1 tn1 where c: "clamp_now tn n = (n1, tn1)" by force
  have f: "t_constants tn1 = t_constants tn" "t_local_static tn1 = t_local_static tn" "t_local_public tn1 = t_local_public tn"
    "t_peer_public tn1 = t_peer_public tn" "t_precomputed_ss tn1 = t_precomputed_ss tn"
    "t_greatest_timestamp tn1 = t_greatest_timestamp tn" "t_next tn1 = t_next tn"
    using c by (auto simp: clamp_now_eq)
  have h: "handle_initiation fill tn1 n1 remote ul m out rng = (r, tn', out', rng')"
    using assms c by (simp add: decapsulate_def)
  show ?thesis
  proof (cases rule: handle_initiation_cases [of fill tn1 n1 remote ul m out rng])
    case (ok consumed index eph rm m' rng')
    then show ?thesis using h f by (auto simp: replied_def)
  qed (use h f in auto)
qed

lemma run_effects:
  assumes "run C fill st0 tr st" and "tunnel_inv (fst st0)" and "chacha_impl C"
  shows "\<forall>(tn, e, tn') \<in> set tr. send_effect tn e tn'"
  using assms
proof (induction rule: run.induct)
  case (run_snoc tr tn rng e er tn' rng')
  have "tunnel_inv tn" using run_inv [OF run_snoc.hyps(1) run_snoc.prems] by simp
  from step_effect [OF this run_snoc.prems(2) run_snoc.hyps(2)] show ?case
    using run_snoc.IH [OF run_snoc.prems] by auto
qed simp

subsection \<open>Properties\<close>

text \<open>C4: the tunnel invariant. In every state a caller can bring a tunnel into, by any sequence of
  calls with any datagrams, buffers, clock readings (below \<open>2^63\<close> ns) and entropy: replay windows,
  counters and creation times are sound, the local indices in use (three session slots and the
  handshake in flight) are pairwise distinct, established sessions are confirmed and a pending
  responder session is not, a handshake in flight has its retransmission armed at least
  \<open>REKEY_TIMEOUT\<close> after the last initiation, and no recorded event lies in the future.\<close>

theorem tunnel_invariant:
  assumes "reachable C fill cfg (tn, rng)" and "chacha_impl C" and "cfg_persistent_keepalive cfg \<noteq> Some 0"
  shows "tunnel_inv tn"
  using reachable_inv [OF assms] by simp

definition example_config :: config where
  "example_config = config_new (replicate 32 1) (replicate 32 2)"

definition const_fill :: "unit fill" where
  "const_fill r n = (Some (replicate n 7), r)"

lemma example_config_ok: "cfg_persistent_keepalive example_config \<noteq> Some 0"
  by (simp add: example_config_def config_new_def)

text \<open>A run of two steps: a handshake is requested at 5 ns and the timers are polled at 6 s.\<close>

definition example_now :: "ticks \<Rightarrow> now" where
  "example_now t = \<lparr> now_ticks = t, unix_secs = 0, unix_nanos = 0 \<rparr>"

definition example_tn0 :: tunnel where
  "example_tn0 = tunnel_fresh example_config (replicate 32 3)"

definition example_call1 :: "bytes result \<times> tunnel \<times> bytes \<times> unit" where
  "example_call1 = initiate_handshake const_fill example_tn0 (example_now 5) (replicate 148 0) ()"

definition example_call2 :: "poll_output result \<times> tunnel \<times> bytes \<times> unit" where
  "example_call2 = poll scalar_apply_keystream const_fill (fst (snd example_call1)) (example_now 6000000000) (replicate 148 0) ()"

definition example_trace :: "(tunnel \<times> emission \<times> tunnel) list" where
  "example_trace =
     [(example_tn0, initiate_emits (fst example_call1), fst (snd example_call1)),
      (fst (snd example_call1), poll_emits (fst example_call2), fst (snd example_call2))]"

lemma tuple4_unit: "p = (fst p, fst (snd p), fst (snd (snd p)), ())"
  by (simp add: prod_eq_iff)

lemma example_step1:
  "tunnel_step scalar_apply_keystream const_fill (example_tn0, ())
     (initiate_emits (fst example_call1), err_of (fst example_call1)) (fst (snd example_call1), ())"
proof -
  have "initiate_handshake const_fill example_tn0 (example_now 5) (replicate 148 0) ()
      = (fst example_call1, fst (snd example_call1), fst (snd (snd example_call1)), ())"
    unfolding example_call1_def by (rule tuple4_unit)
  then show ?thesis by (rule step_initiate) (simp_all add: example_now_def clock_ok_def)
qed

lemma example_step2:
  "tunnel_step scalar_apply_keystream const_fill (fst (snd example_call1), ())
     (poll_emits (fst example_call2), err_of (fst example_call2)) (fst (snd example_call2), ())"
proof -
  have "poll scalar_apply_keystream const_fill (fst (snd example_call1)) (example_now 6000000000) (replicate 148 0) ()
      = (fst example_call2, fst (snd example_call2), fst (snd (snd example_call2)), ())"
    unfolding example_call2_def by (rule tuple4_unit)
  then show ?thesis by (rule step_poll) (simp_all add: example_now_def clock_ok_def)
qed

lemma example_start: "reachable scalar_apply_keystream const_fill example_config (example_tn0, ())"
  unfolding example_tn0_def by (rule reachable.start)

lemma example_run:
  "run scalar_apply_keystream const_fill (example_tn0, ()) example_trace (fst (snd example_call2), ())"
  using run_snoc [OF run_snoc [OF run_nil example_step1] example_step2] by (simp add: example_trace_def)

theorem tunnel_invariant_witness: "tunnel_inv (fst (snd example_call1))"
  by (rule tunnel_invariant [OF reachable.step [OF example_start example_step1] scalar.chacha_impl_axioms example_config_ok])

text \<open>C9: no operation ever returns \<open>Internal\<close>. In every reachable state, whatever the datagram, the
  payload, the buffer and the entropy, the branches that the code marks as unreachable are.\<close>

theorem no_internal_error:
  assumes "reachable C fill cfg (tn, rng)" and "chacha_impl C" and "cfg_persistent_keepalive cfg \<noteq> Some 0"
    and "tunnel_step C fill (tn, rng) (e, er) (tn', rng')"
  shows "er \<noteq> Some Internal"
  using step_no_internal [OF _ assms(2,4)] reachable_inv [OF assms(1-3)] by simp

theorem no_internal_error_witness: "err_of (fst example_call2) \<noteq> Some Internal"
  by (rule no_internal_error [OF reachable.step [OF example_start example_step1] scalar.chacha_impl_axioms
      example_config_ok example_step2])

text \<open>C6: a datagram that is not accepted changes nothing. Whenever \<open>decapsulate\<close> returns an error, for
  any tunnel state at all, the tunnel is as before except for its statistics and its clock
  reading, and the output buffer is untouched: no session, window, timer, cookie or handshake
  state can be affected by a forged, replayed, malformed or misdirected datagram.\<close>

theorem decapsulate_error_harmless:
  assumes "chacha_impl C" and "decapsulate C fill tn n remote ul d out rng = (Inl e, tn', out', rng')"
  shows "tn'\<lparr> t_stats := t_stats tn, t_last_now := t_last_now tn \<rparr> = tn \<and> out' = out
    \<and> t_last_now tn' = max (now_ticks n) (t_last_now tn)"
proof -
  obtain st where "tn' = tn\<lparr> t_last_now := max (now_ticks n) (t_last_now tn), t_stats := st \<rparr>"
    using decapsulate_error(1) [OF assms] by blast
  then show ?thesis using decapsulate_error(2) [OF assms] by simp
qed

theorem decapsulate_error_harmless_witness:
  "\<exists>tn'. decapsulate scalar_apply_keystream const_fill (tunnel_fresh example_config (replicate 32 3))
        \<lparr> now_ticks = 5, unix_secs = 0, unix_nanos = 0 \<rparr> [] False [1, 2, 3] [7] () = (Inl InvalidPacket, tn', [7], ())
     \<and> t_last_now tn' = 5 \<and> t_timers tn' = timers_default"
proof -
  define tn where "tn = tunnel_fresh example_config (replicate 32 3)"
  have z: "t_last_now tn = 0" "t_timers tn = timers_default" by (simp_all add: tn_def tunnel_fresh_def Let_def)
  have "decapsulate scalar_apply_keystream const_fill tn
        \<lparr> now_ticks = 5, unix_secs = 0, unix_nanos = 0 \<rparr> [] False [1, 2, 3] [7] () = (Inl InvalidPacket, tn\<lparr> t_last_now := 5 \<rparr>, [7], ())"
    by (simp add: decapsulate_def parse_eq clamp_now_eq z)
  from this decapsulate_error_harmless [OF scalar.chacha_impl_axioms this] show ?thesis
    using z by (auto simp: tn_def)
qed

text \<open>C10: initiations are paced. Along any run from a reachable state, whatever the operations that
  send them (data, timers, retransmissions, explicit requests), the times at which handshake
  initiations go out are pairwise at least \<open>REKEY_TIMEOUT\<close>, five seconds, apart.\<close>

theorem initiations_paced:
  assumes "reachable C fill cfg st0" and "chacha_impl C" and "cfg_persistent_keepalive cfg \<noteq> Some 0"
    and "run C fill st0 tr st"
  shows "sorted_wrt (\<lambda>a b. unat a + 5000000000 \<le> unat b) (List.map_filter initiation_time tr)"
proof -
  have "unat REKEY_TIMEOUT = 5000000000" by (simp add: const_defs)
  then show ?thesis
    using run_paced [OF assms(4) reachable_inv [OF assms(1-3)] assms(2)] by (simp add: paced_def [abs_def])
qed

theorem initiations_paced_witness:
  "sorted_wrt (\<lambda>a b. unat a + 5000000000 \<le> unat b) (List.map_filter initiation_time example_trace)"
  by (rule initiations_paced [OF example_start scalar.chacha_impl_axioms example_config_ok example_run])





text \<open>C7: a handshake initiation is accepted at most once. If the same datagram is delivered to a tunnel
  in two states of one run, however far apart, at most one of the deliveries can advance the
  accepted timestamp or install a pending session; a captured initiation cannot be replayed.\<close>

theorem initiation_accepted_once:
  assumes "reachable C fill cfg (tn, rng)" and "chacha_impl C" and "cfg_persistent_keepalive cfg \<noteq> Some 0"
    and "parse d = Inr (HandshakeInitiation m)"
    and "decapsulate C fill tn n remote ul d out rng = (r, tn1, out1, rng1)" and "clock_ok n"
    and "run C fill (tn1, rng1) tr (tn2, rng2)"
    and "decapsulate C fill tn2 n2 remote2 ul2 d out2 rng3 = (r3, tn3, out3, rng4)"
  shows "t_greatest_timestamp tn1 = t_greatest_timestamp tn \<and> t_next tn1 = t_next tn
    \<or> t_greatest_timestamp tn3 = t_greatest_timestamp tn2 \<and> t_next tn3 = t_next tn2"
proof (rule ccontr)
  assume no: "\<not> ?thesis"
  note inv = reachable_inv [OF assms(1-3), simplified]
  obtain c where c: "consume_initiation (t_constants tn) (t_local_static tn) (t_local_public tn) (t_peer_public tn)
      (t_precomputed_ss tn) m = Inr c" "t_greatest_timestamp tn1 = Some (ci_timestamp c)"
    using decapsulate_initiation [OF assms(4,5)] no by blast
  have ids: "same_ids tn tn2" "greatest_kept tn1 tn2"
    using decapsulate_effect [OF inv assms(6,5)] run_ids [OF assms(7) _ assms(2)] decapsulate_inv(1) [OF inv assms(6,5)]
      same_ids_trans [of tn tn1 tn2] by (simp_all add: send_effect_def)
  obtain g where g: "t_greatest_timestamp tn2 = Some g" "ci_timestamp c \<le> g"
    using ids(2) c(2) by (auto simp: greatest_kept_def)
  have "consume_initiation (t_constants tn2) (t_local_static tn2) (t_local_public tn2) (t_peer_public tn2)
      (t_precomputed_ss tn2) m = Inr c"
    using c(1) ids(1) by (simp add: same_ids_def)
  then show False
    using decapsulate_initiation [OF assms(4,8)] no g by (auto simp: is_some_and_def)
qed

theorem initiation_accepted_once_witness:
  "\<exists>tn1 tn3. fst (snd (decapsulate scalar_apply_keystream const_fill example_tn0 (example_now 5) [] False
        (packet_bytes (HandshakeInitiation blank_initiation)) (replicate 92 0) ())) = tn1
     \<and> fst (snd (decapsulate scalar_apply_keystream const_fill tn1 (example_now 6) [] False
        (packet_bytes (HandshakeInitiation blank_initiation)) (replicate 92 0) ())) = tn3
     \<and> (t_greatest_timestamp tn1 = t_greatest_timestamp example_tn0 \<or> t_greatest_timestamp tn3 = t_greatest_timestamp tn1)"
proof -
  let ?d = "packet_bytes (HandshakeInitiation blank_initiation)"
  define R1 where "R1 = decapsulate scalar_apply_keystream const_fill example_tn0 (example_now 5) [] False ?d (replicate 92 0) ()"
  define R3 where "R3 = decapsulate scalar_apply_keystream const_fill (fst (snd R1)) (example_now 6) [] False ?d (replicate 92 0) ()"
  have e1: "decapsulate scalar_apply_keystream const_fill example_tn0 (example_now 5) [] False ?d (replicate 92 0) ()
      = (fst R1, fst (snd R1), fst (snd (snd R1)), ())" unfolding R1_def by (rule tuple4_unit)
  have e3: "decapsulate scalar_apply_keystream const_fill (fst (snd R1)) (example_now 6) [] False ?d (replicate 92 0) ()
      = (fst R3, fst (snd R3), fst (snd (snd R3)), ())" unfolding R3_def by (rule tuple4_unit)
  have ck: "clock_ok (example_now 5)" by (simp add: clock_ok_def example_now_def)
  from initiation_accepted_once [OF example_start scalar.chacha_impl_axioms example_config_ok blank_initiation_parses e1 ck run_nil e3]
  show ?thesis unfolding R3_def R1_def by blast
qed

end
