(* ===== verification/Tunnel_Wake.thy ===== *)
theory Tunnel_Wake
  imports Tunnel_Trace
begin

text \<open>
  \<open>poll\<close> and \<open>next_wake\<close> of \<open>src/src/tunnel.rs\<close> against each other: every \<open>..._due\<close> test agrees with
  the deadline that \<open>next_wake\<close> computes for it, so an idle tunnel names a deadline in the
  future, a tunnel polled before its deadline is idle, and the loop that polls until idle ends.
  The last theorem shows the one case in which the deadline is late.
\<close>

subsection \<open>Deadlines\<close>

definition later :: "ticks \<Rightarrow> ticks option \<Rightarrow> bool" where
  "later t x \<longleftrightarrow> (\<forall>v. x = Some v \<longrightarrow> t < v)"

lemma later_None [simp]: "later t None" and later_Some [simp]: "later t (Some v) \<longleftrightarrow> t < v"
  by (simp_all add: later_def)

lemma fold_min_le: "fold min xs x \<le> (x :: ticks) \<and> (\<forall>y \<in> set xs. fold min xs x \<le> y) \<and> fold min xs x \<in> set (x # xs)"
proof (induction xs arbitrary: x)
  case (Cons y ys)
  show ?case using Cons [of "min y x"] by (auto simp: min_def split: if_splits)
qed simp

lemma fold_max_ge: "(x :: ticks) \<le> fold max xs x \<and> (\<forall>y \<in> set xs. y \<le> fold max xs x) \<and> fold max xs x \<in> set (x # xs)"
proof (induction xs arbitrary: x)
  case (Cons y ys)
  show ?case using Cons [of "max y x"] by (auto simp: max_def split: if_splits)
qed simp

lemma later_iter_min: "later t (iter_min xs) \<longleftrightarrow> (\<forall>x \<in> set xs. t < x)"
proof (cases xs)
  case (Cons x ys)
  then show ?thesis using fold_min_le [of ys x] by auto
qed simp

lemma later_next_wake:
  "later t (next_wake tn) \<longleftrightarrow>
     later t (wake_immediate tn) \<and> later t (wake_retransmit tn) \<and> later t (wake_dead_peer tn)
     \<and> later t (passive_keepalive_at (t_timers tn)) \<and> later t (wake_discard tn) \<and> later t (wake_next_expire tn)
     \<and> later t (wake_persistent tn)"
  unfolding next_wake_def later_iter_min by (simp add: later_def split: option.splits)

lemma not_due_later:
  assumes "t < 2 ^ 63" and "\<not> d \<le> since t e"
  shows "t < add_nanos e d"
proof -
  have "unat t < 2 ^ 63" using assms(1) by (simp add: word_less_nat_alt)
  moreover have "unat t - unat e < unat d" using assms(2) by (simp add: word_le_nat_alt since_nat)
  ultimately show ?thesis by (simp add: word_less_nat_alt add_nanos_nat)
qed

lemma due_reached:
  assumes "d \<le> since t e" and "0 < d"
  shows "add_nanos e d \<le> t"
proof -
  have "unat d \<le> unat t - unat e" "0 < unat d"
    using assms by (simp_all add: word_le_nat_alt since_nat unat_gt_0)
  then show ?thesis by (auto simp: word_le_nat_alt add_nanos_nat)
qed

lemma not_due_iff:
  assumes "t < 2 ^ 63" and "0 < d"
  shows "t < add_nanos e d \<longleftrightarrow> \<not> d \<le> since t e"
  using not_due_later [OF assms(1)] due_reached [OF _ assms(2)] by (meson leD)

lemma timeouts_pos [simp]:
  "0 < REKEY_TIMEOUT" "0 < KEEPALIVE_TIMEOUT" "0 < DEAD_PEER_TIMEOUT" "0 < SESSION_DISCARD_TIME" "0 < REJECT_AFTER_TIME"
  by (simp_all add: const_defs)

lemma persistent_interval_pos: "interval \<noteq> 0 \<Longrightarrow> 0 < persistent_interval interval"
proof -
  assume "interval \<noteq> 0"
  then have "0 < unat interval" by (simp add: unat_gt_0)
  moreover have "unat interval < 2 ^ 16" using unat_less_exp [of interval] by simp
  moreover from this have "unat (ucast interval :: u64) = unat interval"
    by (simp add: unsigned_ucast_eq take_bit_nat_eq_self)
  ultimately have "0 < unat (ucast interval :: u64)" "unat (ucast interval :: u64) * 1000000000 < 2 ^ 64"
    by simp_all
  then show ?thesis by (simp add: persistent_interval_def saturating_mul_def word_less_nat_alt unat_word_ariths)
qed

text \<open>Each \<open>..._due\<close> test and the matching deadline agree.\<close>

lemma passive_agree: "t < 2 ^ 63 \<Longrightarrow> later t (passive_keepalive_at tm) \<longleftrightarrow> \<not> passive_keepalive_due tm t"
  by (auto simp: passive_keepalive_at_def passive_keepalive_due_def not_due_iff Let_def split: option.splits)

lemma dead_peer_agree: "t < 2 ^ 63 \<Longrightarrow> later t (dead_peer_at tm) \<longleftrightarrow> \<not> dead_peer_due tm t"
  by (auto simp: dead_peer_at_def dead_peer_due_def not_due_iff Let_def split: option.splits)

lemma pacing_agree:
  assumes "t < 2 ^ 63"
  shows "t < pacing_at tn \<longleftrightarrow> \<not> initiation_allowed (t_timers tn) t"
  using assms by (auto simp: pacing_at_def initiation_allowed_def is_none_or_def not_due_iff split: option.splits)

lemma wake_dead_peer_agree:
  assumes "t < 2 ^ 63"
  shows "later t (wake_dead_peer tn) \<longleftrightarrow>
    \<not> (t_inflight tn = None \<and> dead_peer_due (t_timers tn) t \<and> initiation_allowed (t_timers tn) t)"
  using dead_peer_agree [OF assms, of "t_timers tn"] pacing_agree [OF assms, of tn]
  by (auto simp: wake_dead_peer_def less_max_iff_disj later_def dead_peer_at_def dead_peer_due_def)

lemma wake_discard_agree:
  assumes "t < 2 ^ 63"
  shows "later t (wake_discard tn) \<longleftrightarrow>
    \<not> is_some_and (newest_session_created tn) (\<lambda>newest. SESSION_DISCARD_TIME \<le> since t newest)"
  using assms by (auto simp: wake_discard_def is_some_and_def not_due_iff split: option.splits)

lemma wake_next_expire_agree:
  assumes "t < 2 ^ 63"
  shows "later t (wake_next_expire tn) \<longleftrightarrow> \<not> is_some_and (t_next tn) (\<lambda>s. REJECT_AFTER_TIME \<le> session_age s t)"
  using assms by (auto simp: wake_next_expire_def is_some_and_def session_age_def not_due_iff split: option.splits)

subsection \<open>When \<open>poll\<close> has nothing to do\<close>

lemma poll_initiate_not_idle [simp]: "fst (poll_initiate fill reason tn n out rng) \<noteq> Inr Idle"
  by (auto simp: poll_initiate_def and_then_def split: prod.splits sum.splits)

lemma poll_keepalive_not_idle [simp]: "fst (poll_keepalive C reason tn n out rng) \<noteq> Inr Idle"
  by (auto simp: poll_keepalive_def and_then_def split: prod.splits sum.splits)

abbreviation can_send :: "tunnel \<Rightarrow> ticks \<Rightarrow> bool" where
  "can_send tn t \<equiv> is_some_and (t_current tn) (\<lambda>s. usable_for_send s t)"

definition persistent_quiet :: "tunnel \<Rightarrow> ticks \<Rightarrow> bool" where
  "persistent_quiet tn t \<longleftrightarrow>
     (case t_persistent_keepalive tn of
        None \<Rightarrow> True
      | Some interval \<Rightarrow>
        if can_send tn t then
          \<not> persistent_interval interval \<le> since t (case last_any_tx (t_timers tn) of
              Some tx \<Rightarrow> tx | None \<Rightarrow> (case t_current tn of Some s \<Rightarrow> s_created s | None \<Rightarrow> 0))
        else \<not> (t_inflight tn = None \<and> initiation_allowed (t_timers tn) t
               \<and> persistent_revive_allowed (t_timers tn) t (persistent_interval interval)))"

text \<open>The stages of \<open>poll\<close> that fire at \<open>t\<close>, after expiry of sessions.\<close>

definition quiet :: "tunnel \<Rightarrow> ticks \<Rightarrow> bool" where
  "quiet tn t \<longleftrightarrow>
     \<not> (t_inflight tn \<noteq> None \<and> is_some_and (retransmit_at (t_timers tn)) (\<lambda>at. at \<le> t))
     \<and> \<not> (rekey_due (t_timers tn) \<and> t_inflight tn = None \<and> initiation_allowed (t_timers tn) t)
     \<and> \<not> (t_inflight tn = None \<and> dead_peer_due (t_timers tn) t \<and> initiation_allowed (t_timers tn) t)
     \<and> \<not> (confirm_keepalive_due (t_timers tn) \<and> can_send tn t)
     \<and> \<not> (passive_keepalive_due (t_timers tn) t \<and> can_send tn t)
     \<and> persistent_quiet tn t"

text \<open>The flags an idle \<open>poll\<close> clears: keepalives that no session can carry any more, and a rekey
  request while a handshake is already in flight.\<close>

definition settle :: "tunnel \<Rightarrow> ticks \<Rightarrow> tunnel" where
  "settle tn t =
     upd_timers (\<lambda>tm. tm\<lparr>
       rekey_due := rekey_due tm \<and> t_inflight tn = None,
       confirm_keepalive_due := False,
       last_data_rx := (if passive_keepalive_due tm t \<and> \<not> can_send tn t then None else last_data_rx tm) \<rparr>) tn"

lemma timers_same: "tm\<lparr> rekey_due := rekey_due tm \<rparr> = tm" "tm\<lparr> confirm_keepalive_due := confirm_keepalive_due tm \<rparr> = tm"
  "tm\<lparr> last_data_rx := last_data_rx tm \<rparr> = tm" "tn\<lparr> t_timers := t_timers tn \<rparr> = tn"
  by simp_all

lemma due_flags [simp]:
  "passive_keepalive_due (tm\<lparr> confirm_keepalive_due := b \<rparr>) t = passive_keepalive_due tm t"
  "passive_keepalive_due (tm\<lparr> rekey_due := b \<rparr>) t = passive_keepalive_due tm t"
  "dead_peer_due (tm\<lparr> rekey_due := b \<rparr>) t = dead_peer_due tm t"
  "initiation_allowed (tm\<lparr> rekey_due := b \<rparr>) t = initiation_allowed tm t"
  by (simp_all add: passive_keepalive_due_def dead_peer_due_def initiation_allowed_def Let_def split: option.split)

lemma persistent_quiet_flags [simp]:
  "persistent_quiet (upd_timers (\<lambda>tm. tm\<lparr> last_data_rx := x \<rparr>) tn) t = persistent_quiet tn t"
  "persistent_quiet (upd_timers (\<lambda>tm. tm\<lparr> confirm_keepalive_due := b \<rparr>) tn) t = persistent_quiet tn t"
  "persistent_quiet (upd_timers (\<lambda>tm. tm\<lparr> rekey_due := b \<rparr>) tn) t = persistent_quiet tn t"
  "persistent_quiet (tn\<lparr> t_last_now := t' \<rparr>) t = persistent_quiet tn t"
  by (simp_all add: persistent_quiet_def initiation_allowed_def persistent_revive_allowed_def split: option.split)

lemma poll_persistent_idle:
  assumes "u \<longleftrightarrow> can_send tn (now_ticks n)"
  shows "if persistent_quiet tn (now_ticks n) then poll_persistent C fill u tn n out rng = (Inr Idle, tn, out, rng)
    else fst (poll_persistent C fill u tn n out rng) \<noteq> Inr Idle"
proof (cases "t_persistent_keepalive tn")
  case (Some interval)
  show ?thesis
    by (cases u) (use Some assms in \<open>auto simp: poll_persistent_def persistent_quiet_def Let_def\<close>)
qed (simp add: poll_persistent_def persistent_quiet_def Let_def)

lemma poll_passive_idle:
  assumes "u \<longleftrightarrow> can_send tn t" and "t = now_ticks n"
  shows "if persistent_quiet tn t \<and> \<not> (passive_keepalive_due (t_timers tn) t \<and> can_send tn t)
    then poll_passive C fill u tn n out rng =
      (Inr Idle, upd_timers (\<lambda>tm. tm\<lparr> last_data_rx :=
         (if passive_keepalive_due tm t \<and> \<not> can_send tn t then None else last_data_rx tm) \<rparr>) tn, out, rng)
    else fst (poll_passive C fill u tn n out rng) \<noteq> Inr Idle"
proof -
  define tn1 where "tn1 = upd_timers (\<lambda>tm. tm\<lparr> last_data_rx := None \<rparr>) tn"
  have q: "persistent_quiet tn1 t = persistent_quiet tn t" and "u \<longleftrightarrow> can_send tn1 (now_ticks n)"
    using assms by (simp_all add: tn1_def)
  from this(2) have "if persistent_quiet tn1 t then poll_persistent C fill u tn1 n out rng = (Inr Idle, tn1, out, rng)
    else fst (poll_persistent C fill u tn1 n out rng) \<noteq> Inr Idle"
    unfolding assms(2) by (rule poll_persistent_idle)
  moreover have "if persistent_quiet tn t then poll_persistent C fill u tn n out rng = (Inr Idle, tn, out, rng)
    else fst (poll_persistent C fill u tn n out rng) \<noteq> Inr Idle"
    unfolding assms(2) by (rule poll_persistent_idle) (use assms in simp)
  ultimately show ?thesis
    using assms(1) unfolding poll_passive_def assms(2) [symmetric] tn1_def [symmetric] q
    by (cases "passive_keepalive_due (t_timers tn) t"; cases "can_send tn t") (auto simp: tn1_def split: if_splits)
qed

lemma poll_confirm_idle:
  assumes "t = now_ticks n"
  shows "if persistent_quiet tn t \<and> \<not> (passive_keepalive_due (t_timers tn) t \<and> can_send tn t)
      \<and> \<not> (confirm_keepalive_due (t_timers tn) \<and> can_send tn t)
    then poll_confirm C fill tn n out rng =
      (Inr Idle, upd_timers (\<lambda>tm. tm\<lparr> confirm_keepalive_due := False, last_data_rx :=
         (if passive_keepalive_due tm t \<and> \<not> can_send tn t then None else last_data_rx tm) \<rparr>) tn, out, rng)
    else fst (poll_confirm C fill tn n out rng) \<noteq> Inr Idle"
proof -
  define tn1 where "tn1 = upd_timers (\<lambda>tm. tm\<lparr> confirm_keepalive_due := False \<rparr>) tn"
  have p1: "passive_keepalive_due (t_timers tn1) t = passive_keepalive_due (t_timers tn) t"
    by (simp add: tn1_def)
  have q: "persistent_quiet tn1 t = persistent_quiet tn t" "can_send tn1 t = can_send tn t" by (simp_all add: tn1_def)
  show ?thesis
  proof (cases "confirm_keepalive_due (t_timers tn)")
    case True
    then show ?thesis
      using poll_passive_idle [OF q(2) [symmetric] assms, of C fill out rng] p1 q
      unfolding poll_confirm_def Let_def assms [symmetric] tn1_def [symmetric]
      by (cases "can_send tn t") (auto simp: tn1_def split: if_splits)
  next
    case False
    then have "(t_timers tn)\<lparr> confirm_keepalive_due := False \<rparr> = t_timers tn" by simp
    then show ?thesis
      using poll_passive_idle [OF refl assms, of tn C fill out rng] False
      unfolding poll_confirm_def Let_def assms [symmetric]
      by (auto split: if_splits)
  qed
qed

lemma poll_dead_peer_idle:
  assumes "t = now_ticks n"
  shows "if persistent_quiet tn t \<and> \<not> (passive_keepalive_due (t_timers tn) t \<and> can_send tn t)
      \<and> \<not> (confirm_keepalive_due (t_timers tn) \<and> can_send tn t)
      \<and> \<not> (t_inflight tn = None \<and> dead_peer_due (t_timers tn) t \<and> initiation_allowed (t_timers tn) t)
    then poll_dead_peer C fill tn n out rng =
      (Inr Idle, upd_timers (\<lambda>tm. tm\<lparr> confirm_keepalive_due := False, last_data_rx :=
         (if passive_keepalive_due tm t \<and> \<not> can_send tn t then None else last_data_rx tm) \<rparr>) tn, out, rng)
    else fst (poll_dead_peer C fill tn n out rng) \<noteq> Inr Idle"
  using poll_confirm_idle [OF assms, of tn C fill out rng]
  by (auto simp: poll_dead_peer_def assms split: if_splits)

lemma poll_retransmit_idle:
  assumes "t = now_ticks n"
  shows "if quiet tn t then poll_retransmit C fill tn n out rng = (Inr Idle, settle tn t, out, rng)
    else fst (poll_retransmit C fill tn n out rng) \<noteq> Inr Idle"
proof -
  define tn1 where "tn1 = upd_timers (\<lambda>tm. tm\<lparr> rekey_due := False \<rparr>) tn"
  have p1: "passive_keepalive_due (t_timers tn1) t = passive_keepalive_due (t_timers tn) t"
    "dead_peer_due (t_timers tn1) t = dead_peer_due (t_timers tn) t"
    "initiation_allowed (t_timers tn1) t = initiation_allowed (t_timers tn) t"
    by (simp_all add: tn1_def)
  have q: "persistent_quiet tn1 t = persistent_quiet tn t" "can_send tn1 t = can_send tn t"
    "t_inflight tn1 = t_inflight tn" "confirm_keepalive_due (t_timers tn1) = confirm_keepalive_due (t_timers tn)"
    by (simp_all add: tn1_def)
  have s: "settle tn t = upd_timers (\<lambda>tm. tm\<lparr> confirm_keepalive_due := False, last_data_rx :=
         (if passive_keepalive_due tm t \<and> \<not> can_send tn t then None else last_data_rx tm) \<rparr>) tn"
    if "\<not> (rekey_due (t_timers tn) \<and> t_inflight tn \<noteq> None)"
    using that by (cases "t_timers tn") (auto simp: settle_def)
  have s1: "settle tn t = upd_timers (\<lambda>tm. tm\<lparr> confirm_keepalive_due := False, last_data_rx :=
         (if passive_keepalive_due tm t \<and> \<not> can_send tn1 t then None else last_data_rx tm) \<rparr>) tn1"
    if "rekey_due (t_timers tn) \<and> t_inflight tn \<noteq> None"
    using that p1(1) by (cases "t_timers tn") (auto simp: settle_def tn1_def)
  show ?thesis
  proof (cases "rekey_due (t_timers tn) \<and> t_inflight tn \<noteq> None")
    case True
    then show ?thesis
      using poll_dead_peer_idle [OF assms, of tn1 C fill out rng]
      unfolding poll_retransmit_def poll_rekey_def tn1_def [symmetric] s1 [OF True] quiet_def p1 q assms [symmetric]
      by (auto split: if_splits)
  next
    case False
    then show ?thesis
      using poll_dead_peer_idle [OF assms, of tn C fill out rng]
      unfolding poll_retransmit_def poll_rekey_def s [OF False] quiet_def assms [symmetric]
      by (auto split: if_splits)
  qed
qed

subsection \<open>An idle tunnel sleeps\<close>

text \<open>What \<open>poll\<close> works on: the clock reading clamped and an expired pending session dropped.\<close>

definition poll_view :: "tunnel \<Rightarrow> now \<Rightarrow> tunnel" where
  "poll_view tn n =
     (let t = max (now_ticks n) (t_last_now tn) in expire_next (tn\<lparr> t_last_now := t \<rparr>) t)"

abbreviation discard_due :: "tunnel \<Rightarrow> ticks \<Rightarrow> bool" where
  "discard_due tn t \<equiv> is_some_and (newest_session_created tn) (\<lambda>newest. SESSION_DISCARD_TIME \<le> since t newest)"

lemma poll_view_now [simp]: "t_last_now (poll_view tn n) = max (now_ticks n) (t_last_now tn)"
  by (simp add: poll_view_def expire_next_def Let_def)

lemma poll_view_inv: "tunnel_inv tn \<Longrightarrow> clock_ok n \<Longrightarrow> tunnel_inv (poll_view tn n)"
  using expire_next_inv clamp_now_inv(1) [of tn n] by (simp add: poll_view_def clamp_now_eq Let_def)

lemma poll_view_next: "\<not> is_some_and (t_next (poll_view tn n)) (\<lambda>s. REJECT_AFTER_TIME \<le> session_age s (t_last_now (poll_view tn n)))"
  by (auto simp: poll_view_def expire_next_def Let_def is_some_and_def split: option.splits)

lemma poll_eq:
  "poll C fill tn n out rng =
     (let tn1 = poll_view tn n; t = t_last_now tn1
      in if discard_due tn1 t then (Inr SessionsExpired, discard_all_sessions tn1, out, rng)
         else poll_retransmit C fill tn1 (n\<lparr> now_ticks := t \<rparr>) out rng)"
  by (simp add: poll_def clamp_now_eq poll_view_def expire_next_def Let_def)

lemma poll_idle_iff:
  "fst (poll C fill tn n out rng) = Inr Idle \<longleftrightarrow>
     \<not> discard_due (poll_view tn n) (t_last_now (poll_view tn n)) \<and> quiet (poll_view tn n) (t_last_now (poll_view tn n))"
  and poll_idle_state:
  "fst (poll C fill tn n out rng) = Inr Idle \<Longrightarrow>
     poll C fill tn n out rng = (Inr Idle, settle (poll_view tn n) (t_last_now (poll_view tn n)), out, rng)"
  using poll_retransmit_idle [of "t_last_now (poll_view tn n)" "n\<lparr> now_ticks := t_last_now (poll_view tn n) \<rparr>" "poll_view tn n" C fill out rng]
  by (auto simp: poll_eq Let_def split: if_splits)

lemma settle_fields [simp]:
  "t_inflight (settle tn t) = t_inflight tn" "t_next (settle tn t) = t_next tn" "t_last_now (settle tn t) = t_last_now tn"
  "t_persistent_keepalive (settle tn t) = t_persistent_keepalive tn" "t_current (settle tn t) = t_current tn"
  "newest_session_created (settle tn t) = newest_session_created tn"
  "retransmit_at (t_timers (settle tn t)) = retransmit_at (t_timers tn)"
  "last_any_tx (t_timers (settle tn t)) = last_any_tx (t_timers tn)"
  "last_initiation_tx (t_timers (settle tn t)) = last_initiation_tx (t_timers tn)"
  "gave_up (t_timers (settle tn t)) = gave_up (t_timers tn)"
  "confirm_keepalive_due (t_timers (settle tn t)) = False"
  "rekey_due (t_timers (settle tn t)) = (rekey_due (t_timers tn) \<and> t_inflight tn = None)"
  "initiation_allowed (t_timers (settle tn t)) = initiation_allowed (t_timers tn)"
  "can_send (settle tn t) t' = can_send tn t'"
  by (simp_all add: settle_def newest_session_created_def initiation_allowed_def fun_eq_iff)

lemma settle_dead_peer [simp]: "dead_peer_due (t_timers (settle tn t)) t' = dead_peer_due (t_timers tn) t'"
  by (simp add: settle_def dead_peer_due_def Let_def split: option.split)

lemma settle_passive:
  "\<not> (passive_keepalive_due (t_timers tn) t \<and> can_send tn t) \<Longrightarrow> \<not> passive_keepalive_due (t_timers (settle tn t)) t"
  by (auto simp: settle_def passive_keepalive_due_def Let_def split: option.splits if_splits)

lemma wake_persistent_later:
  assumes "tunnel_inv tn" and "t = t_last_now tn" and "persistent_quiet tn t"
  shows "later t (wake_persistent tn)"
proof (cases "t_persistent_keepalive tn")
  case (Some interval)
  have t: "t < 2 ^ 63" using assms(1,2) by (simp add: tunnel_inv_def)
  have revive: "later t (wake_revive tn (persistent_interval interval))" if "\<not> can_send tn t"
  proof (cases "t_inflight tn = None \<and> gave_up (t_timers tn)")
    case True
    then have "initiation_allowed (t_timers tn) t" using assms(1,2) by (simp add: tunnel_inv_def timers_inv_def Let_def)
    then show ?thesis
      using True that assms(3) Some t not_due_later [OF t]
      by (auto simp: persistent_quiet_def persistent_revive_allowed_def is_none_or_def wake_revive_def split: option.splits)
  next
    case False
    then show ?thesis
      using that assms(3) Some pacing_agree [OF t, of tn]
      by (auto simp: persistent_quiet_def persistent_revive_allowed_def wake_revive_def)
  qed
  show ?thesis
    using revive Some assms(2,3) not_due_later [OF t]
    by (auto simp: wake_persistent_def persistent_quiet_def is_some_and_def Let_def split: option.splits if_splits)
qed (simp add: wake_persistent_def)

lemma settle_persistent_quiet: "persistent_quiet (settle tn t) t' = persistent_quiet tn t'"
  by (simp add: persistent_quiet_def persistent_revive_allowed_def split: option.split)

lemma settle_inv: "tunnel_inv tn \<Longrightarrow> tunnel_inv (settle tn t)"
  by (simp add: settle_def tunnel_inv_def sessions_inv_def timers_inv_def index_list_def Let_def initiation_allowed_def)

lemma quiet_later:
  assumes "tunnel_inv tn" and "t = t_last_now tn" and "quiet tn t" and "\<not> discard_due tn t"
    and "\<not> is_some_and (t_next tn) (\<lambda>s. REJECT_AFTER_TIME \<le> session_age s t)"
  shows "later t (next_wake (settle tn t))"
proof -
  have t: "t < 2 ^ 63" using assms(1,2) by (simp add: tunnel_inv_def)
  note q = assms(3) [unfolded quiet_def]
  have "later t (wake_immediate (settle tn t))"
    using q pacing_agree [OF t, of tn] by (auto simp: wake_immediate_def pacing_at_def)
  moreover have "later t (wake_retransmit (settle tn t))"
    using q by (auto simp: wake_retransmit_def is_some_and_def later_def split: option.splits)
  moreover have "later t (wake_dead_peer (settle tn t))" using q by (simp add: wake_dead_peer_agree [OF t])
  moreover have "later t (passive_keepalive_at (t_timers (settle tn t)))"
    using q settle_passive by (simp add: passive_agree [OF t])
  moreover have "later t (wake_discard (settle tn t))" using assms(4) by (simp add: wake_discard_agree [OF t])
  moreover have "later t (wake_next_expire (settle tn t))" using assms(5) by (simp add: wake_next_expire_agree [OF t])
  moreover have "later t (wake_persistent (settle tn t))"
    by (rule wake_persistent_later) (use q settle_inv [OF assms(1)] assms(2) in \<open>simp_all add: settle_persistent_quiet\<close>)
  ultimately show ?thesis by (simp add: later_next_wake)
qed

lemma poll_idle_later:
  assumes "tunnel_inv tn" and "clock_ok n" and "poll C fill tn n out rng = (Inr Idle, tn', out', rng')"
  shows "later (t_last_now tn') (next_wake tn')"
proof -
  let ?v = "poll_view tn n"
  have i: "fst (poll C fill tn n out rng) = Inr Idle" using assms(3) by simp
  then have "tn' = settle ?v (t_last_now ?v)" using assms(3) poll_idle_state [OF i] by simp
  moreover have "later (t_last_now ?v) (next_wake (settle ?v (t_last_now ?v)))"
    by (rule quiet_later [OF poll_view_inv [OF assms(1,2)] refl]) (use i [unfolded poll_idle_iff] poll_view_next in blast)+
  ultimately show ?thesis by simp
qed

subsection \<open>No work before the deadline\<close>

lemma wake_persistent_quiet:
  assumes "tunnel_inv tn" and "t < 2 ^ 63" and "later t (wake_persistent tn)" and "t_last_now tn \<le> t"
    and "t_persistent_keepalive tn = None \<or> can_send tn t = can_send tn (t_last_now tn)"
  shows "persistent_quiet tn t"
proof (cases "t_persistent_keepalive tn")
  case (Some interval)
  have pos: "0 < persistent_interval interval"
    using assms(1) Some by (auto simp: tunnel_inv_def intro: persistent_interval_pos)
  show ?thesis
  proof (cases "can_send tn t")
    case True
    then show ?thesis
      using assms(3,5) Some not_due_iff [OF assms(2) pos]
      by (auto simp: persistent_quiet_def wake_persistent_def Let_def is_some_and_def split: option.splits)
  next
    case False
    then have "later t (wake_revive tn (persistent_interval interval))"
      using assms(3,5) Some by (auto simp: wake_persistent_def Let_def is_some_and_def split: option.splits)
    then show ?thesis
      using False Some not_due_iff [OF assms(2) pos] pacing_agree [OF assms(2), of tn]
      by (auto simp: persistent_quiet_def wake_revive_def persistent_revive_allowed_def is_none_or_def split: option.splits if_splits)
  qed
qed (simp add: persistent_quiet_def)

lemma later_quiet:
  assumes "tunnel_inv tn" and "clock_ok n" and "t = max (now_ticks n) (t_last_now tn)" and "later t (next_wake tn)"
    and "\<not> (rekey_due (t_timers tn) \<and> confirm_keepalive_due (t_timers tn))"
    and "t_persistent_keepalive tn = None \<or> can_send tn t = can_send tn (t_last_now tn)"
  shows "fst (poll C fill tn n out rng) = Inr Idle"
proof -
  have t: "t < 2 ^ 63" using assms(1-3) by (simp add: tunnel_inv_def clock_ok_def)
  note l = assms(4) [unfolded later_next_wake]
  have "\<not> is_some_and (t_next tn) (\<lambda>s. REJECT_AFTER_TIME \<le> session_age s t)"
    using l by (simp add: wake_next_expire_agree [OF t])
  then have v: "poll_view tn n = tn\<lparr> t_last_now := t \<rparr>"
    by (simp add: poll_view_def expire_next_def Let_def assms(3) [symmetric])
  have "\<not> discard_due tn t" using l by (simp add: wake_discard_agree [OF t])
  then have d: "\<not> discard_due (poll_view tn n) t" by (simp add: v newest_session_created_def)
  have "persistent_quiet tn t" by (rule wake_persistent_quiet [OF assms(1) t _ _ assms(6)]) (use l assms(3) in auto)
  then have "persistent_quiet (poll_view tn n) t" by (simp add: v)
  moreover have "\<not> (rekey_due (t_timers tn) \<and> t_inflight tn = None \<and> initiation_allowed (t_timers tn) t)"
    using l pacing_agree [OF t, of tn] by (auto simp: wake_immediate_def split: if_splits)
  moreover have "\<not> confirm_keepalive_due (t_timers tn)"
    using l assms(5) by (auto simp: wake_immediate_def split: if_splits)
  moreover have "\<not> (t_inflight tn \<noteq> None \<and> is_some_and (retransmit_at (t_timers tn)) (\<lambda>at. at \<le> t))"
    using l by (auto simp: wake_retransmit_def is_some_and_def later_def split: option.splits)
  ultimately have "quiet (poll_view tn n) t"
    using l by (simp add: quiet_def v wake_dead_peer_agree [OF t] passive_agree [OF t])
  then show ?thesis using d assms(3) by (simp add: poll_idle_iff)
qed

subsection \<open>The poll loop ends\<close>

text \<open>What a stage of \<open>poll\<close> can still do at the time \<open>t\<close>: one initiation, one abandoned
  attempt, one keepalive for the timers and one to confirm a session.\<close>

definition pending :: "ticks \<Rightarrow> tunnel \<Rightarrow> nat" where
  "pending t tn =
     (if initiation_allowed (t_timers tn) t then 2 else 0)
     + (if t_inflight tn \<noteq> None \<and> is_some_and (retransmit_at (t_timers tn)) (\<lambda>at. at \<le> t) then 1 else 0)
     + (if last_any_tx (t_timers tn) = Some t then 0 else 1)
     + (if confirm_keepalive_due (t_timers tn) then 1 else 0)"

definition progress :: "ticks \<Rightarrow> bytes \<Rightarrow> tunnel \<Rightarrow> poll_output result \<times> tunnel \<times> bytes \<times> 'r \<Rightarrow> bool" where
  "progress t out tn res \<longleftrightarrow>
     (case res of (r, tn', out', rng') \<Rightarrow>
        (case r of Inr ev \<Rightarrow> ev = Idle \<or> pending t tn' < pending t tn
            \<and> newest_session_created tn' = newest_session_created tn \<and> t_next tn' = t_next tn
            \<and> length out' = length out
        | Inl _ \<Rightarrow> True))"

lemma progress_same:
  assumes "progress t out tn1 res" and "pending t tn1 \<le> pending t tn"
    and "newest_session_created tn1 = newest_session_created tn" and "t_next tn1 = t_next tn"
  shows "progress t out tn res"
  using assms by (auto simp: progress_def split: prod.splits sum.splits)

lemma progress_Idle [simp]: "progress t out tn (Inr Idle, tn', out', rng)"
  by (simp add: progress_def)

lemma initiated_pending:
  assumes "t < 2 ^ 63" and "jitter \<le> REKEY_TIMEOUT_JITTER_MAX" and "initiation_allowed (t_timers tn) t"
  shows "pending t (initiated tn t jitter ts mac1 i) < pending t tn"
proof -
  have "\<not> initiation_allowed (t_timers (initiated tn t jitter ts mac1 i)) t"
    by (simp add: initiation_allowed_def is_none_or_def since_nat word_le_nat_alt const_defs)
  moreover have "retransmit_at (t_timers (initiated tn t jitter ts mac1 i))
      = Some (add_nanos (add_nanos t REKEY_TIMEOUT) (min jitter REKEY_TIMEOUT_JITTER_MAX))"
    by (simp add: initiated_def note_initiation_tx_def Let_def)
  moreover have "\<not> add_nanos (add_nanos t REKEY_TIMEOUT) (min jitter REKEY_TIMEOUT_JITTER_MAX) \<le> t"
    using retransmit_after [OF assms(1,2)] by (simp add: word_le_nat_alt const_defs)
  moreover have "last_any_tx (t_timers (initiated tn t jitter ts mac1 i)) = last_any_tx (t_timers tn)"
    "confirm_keepalive_due (t_timers (initiated tn t jitter ts mac1 i)) = confirm_keepalive_due (t_timers tn)"
    by (simp_all add: initiated_def note_initiation_tx_def Let_def)
  ultimately show ?thesis using assms(3) by (simp add: pending_def is_some_and_def)
qed

lemma poll_initiate_progress:
  assumes "tunnel_inv tn" and "t = now_ticks n" and "t < 2 ^ 63" and "initiation_allowed (t_timers tn) t"
  shows "progress t out tn (poll_initiate fill reason tn n out rng)"
proof -
  have l: "length (t_local_public tn) = 32" using assms(1) by (simp add: tunnel_inv_def)
  show ?thesis
  proof (cases rule: send_initiation_cases [OF l tai_wf_outbound [OF assms(1), of n], of fill out rng True, consumes 0, case_names err ok])
    case (err e rng')
    then show ?thesis by (simp add: poll_initiate_def progress_def)
  next
    case (ok index eph jitter im rng')
    then show ?thesis
      using initiated_pending [OF assms(3) _ assms(4), of jitter] assms(2)
      by (auto simp: poll_initiate_def progress_def newest_session_created_def initiated_def get_to_def and_then_def ok_or_def)
  qed
qed

lemma poll_keepalive_progress:
  assumes "chacha_impl C" and "length out < 2 ^ 63" and "t = now_ticks n" and "t_current tn \<noteq> None"
    and "confirm_keepalive_due (t_timers tn) \<or> last_any_tx (t_timers tn) \<noteq> Some t"
  shows "progress t out tn (poll_keepalive C reason tn n out rng)"
proof -
  obtain s where s: "t_current tn = Some s" using assms(4) by auto
  have k: "t_timers (keepalive_sent tn t s) = (note_keepalive_tx t (t_timers tn))\<lparr> rekey_due := rekey_due (t_timers (keepalive_sent tn t s)) \<rparr>"
    "t_inflight (keepalive_sent tn t s) = t_inflight tn" "t_previous (keepalive_sent tn t s) = t_previous tn"
    by (simp_all add: keepalive_sent_def note_send_rekey_def)
  have "pending t (keepalive_sent tn t s) < pending t tn"
    using assms(5) unfolding pending_def k(2)
    by (subst (1 2 3 4) k(1)) (auto simp: note_keepalive_tx_def initiation_allowed_def)
  moreover have "newest_session_created (keepalive_sent tn t s) = newest_session_created tn"
    by (simp add: newest_session_created_def k(3) s advance_def List.map_filter_def)
  ultimately show ?thesis
    using s by (simp add: poll_keepalive_def send_keepalive_eq [OF assms(1,2)] progress_def and_then_def assms(3))
qed

lemma can_send_current: "can_send tn t \<Longrightarrow> t_current tn \<noteq> None"
  by (auto simp: is_some_and_def split: option.splits)

lemma since_self [simp]: "since t t = 0" and since_before: "t < rx \<Longrightarrow> since t rx = 0"
  by (auto simp: since_def saturating_sub_def)

lemma pending_timers [simp]:
  "pending t (upd_timers (\<lambda>tm. tm\<lparr> gave_up := a, attempt_started := b \<rparr>) tn) = pending t tn"
  "pending t (upd_timers (\<lambda>tm. tm\<lparr> attempt_started := b \<rparr>) tn) = pending t tn"
  "pending t (upd_timers (\<lambda>tm. tm\<lparr> last_data_rx := c \<rparr>) tn) = pending t tn"
  "pending t (upd_timers (\<lambda>tm. tm\<lparr> rekey_due := d \<rparr>) tn) = pending t tn"
  by (simp_all add: pending_def initiation_allowed_def)

lemma newest_timers [simp]:
  "newest_session_created (tn\<lparr> t_timers := tm \<rparr>) = newest_session_created tn"
  "newest_session_created (tn\<lparr> t_inflight := x \<rparr>) = newest_session_created tn"
  by (simp_all add: newest_session_created_def)

lemma poll_persistent_progress:
  assumes "tunnel_inv tn" and "t = now_ticks n" and "t < 2 ^ 63" and "chacha_impl C" and "length out < 2 ^ 63"
    and "usable \<longleftrightarrow> can_send tn t"
  shows "progress t out tn (poll_persistent C fill usable tn n out rng)"
proof (cases "t_persistent_keepalive tn")
  case (Some interval)
  have pos: "0 < persistent_interval interval"
    using assms(1) Some by (auto simp: tunnel_inv_def intro: persistent_interval_pos)
  define tn1 where "tn1 = upd_timers (\<lambda>tm. tm\<lparr> gave_up := False, attempt_started := None \<rparr>) tn"
  have i: "progress t out tn (poll_initiate fill ReasonInitiation tn1 n out rng)"
    if "initiation_allowed (t_timers tn) t"
    by (rule progress_same [of _ _ tn1], rule poll_initiate_progress)
      (use that assms(2,3) flags_inv(5) [OF assms(1)] in \<open>simp_all add: tn1_def initiation_allowed_def\<close>)
  have k: "progress t out tn (poll_keepalive C ReasonPersistentKeepalive tn n out rng)"
    if "can_send tn t" "persistent_interval interval \<le> since t (case last_any_tx (t_timers tn) of
        Some tx \<Rightarrow> tx | None \<Rightarrow> (case t_current tn of Some s \<Rightarrow> s_created s | None \<Rightarrow> 0))"
    by (rule poll_keepalive_progress [OF assms(4,5,2) can_send_current [OF that(1)]])
      (use that(2) pos in \<open>auto simp: not_le\<close>)
  show ?thesis
    using i k Some assms(2,6) by (auto simp: poll_persistent_def tn1_def [symmetric] Let_def)
qed (simp add: poll_persistent_def Let_def)

lemma poll_passive_progress:
  assumes "tunnel_inv tn" and "t = now_ticks n" and "t < 2 ^ 63" and "chacha_impl C" and "length out < 2 ^ 63"
    and "usable \<longleftrightarrow> can_send tn t"
  shows "progress t out tn (poll_passive C fill usable tn n out rng)"
proof -
  define tn1 where "tn1 = upd_timers (\<lambda>tm. tm\<lparr> last_data_rx := None \<rparr>) tn"
  have "progress t out tn1 (poll_persistent C fill usable tn1 n out rng)"
    by (rule poll_persistent_progress [OF _ assms(2-5)]) (use assms(6) flags_inv(6) [OF assms(1)] in \<open>simp_all add: tn1_def\<close>)
  then have i: "progress t out tn (poll_persistent C fill usable tn1 n out rng)"
    by (rule progress_same) (simp_all add: tn1_def)
  have "last_any_tx (t_timers tn) \<noteq> Some t" if "passive_keepalive_due (t_timers tn) t"
    using that by (auto simp: passive_keepalive_due_def is_none_or_def since_before const_defs Let_def split: option.splits)
  then have k: "progress t out tn (poll_keepalive C ReasonKeepalive tn n out rng)"
    if "can_send tn t" "passive_keepalive_due (t_timers tn) t"
    by (rule poll_keepalive_progress [OF assms(4,5,2) can_send_current [OF that(1)] disjI2]) (use that in blast)
  show ?thesis
    using i k poll_persistent_progress [OF assms, of fill rng] assms(2,6) by (auto simp: poll_passive_def tn1_def [symmetric])
qed

lemma poll_confirm_progress:
  assumes "tunnel_inv tn" and "t = now_ticks n" and "t < 2 ^ 63" and "chacha_impl C" and "length out < 2 ^ 63"
  shows "progress t out tn (poll_confirm C fill tn n out rng)"
proof -
  define tn1 where "tn1 = upd_timers (\<lambda>tm. tm\<lparr> confirm_keepalive_due := False \<rparr>) tn"
  have "progress t out tn1 (poll_passive C fill (can_send tn t) tn1 n out rng)"
    by (rule poll_passive_progress [OF _ assms(2-5)]) (use flags_inv(2) [OF assms(1)] in \<open>simp_all add: tn1_def\<close>)
  then have i: "progress t out tn (poll_passive C fill (can_send tn t) tn1 n out rng)"
    by (rule progress_same) (simp_all add: tn1_def pending_def initiation_allowed_def)
  have "progress t out tn (poll_keepalive C ReasonKeepalive tn n out rng)"
    if "can_send tn t" "confirm_keepalive_due (t_timers tn)"
    by (rule poll_keepalive_progress [OF assms(4,5,2) can_send_current [OF that(1)]]) (use that in blast)
  then show ?thesis
    using i poll_passive_progress [OF assms refl, of fill rng] assms(2) by (auto simp: poll_confirm_def tn1_def [symmetric] Let_def)
qed

lemma poll_retransmit_progress:
  assumes "tunnel_inv tn" and "t = now_ticks n" and "t < 2 ^ 63" and "chacha_impl C" and "length out < 2 ^ 63"
    and "t = t_last_now tn"
  shows "progress t out tn (poll_retransmit C fill tn n out rng)"
proof -
  define tn1 where "tn1 = upd_timers (\<lambda>tm. tm\<lparr> attempt_started := None \<rparr>) tn"
  define tn2 where "tn2 = upd_timers (\<lambda>tm. tm\<lparr> rekey_due := False \<rparr>) tn"
  have dead: "progress t out tn0 (poll_dead_peer C fill tn0 n out rng)" if "tunnel_inv tn0" for tn0
  proof -
    define tn1 where "tn1 = upd_timers (\<lambda>tm. tm\<lparr> attempt_started := None \<rparr>) tn0"
    have "progress t out tn0 (poll_initiate fill ReasonInitiation tn1 n out rng)" if "initiation_allowed (t_timers tn0) t"
      by (rule progress_same [of _ _ tn1], rule poll_initiate_progress)
        (use that assms(2,3) flags_inv(4) [OF \<open>tunnel_inv tn0\<close>] in \<open>simp_all add: tn1_def initiation_allowed_def\<close>)
    then show ?thesis
      using poll_confirm_progress [OF that assms(2-5), of fill rng] assms(2)
      by (auto simp: poll_dead_peer_def tn1_def [symmetric])
  qed
  have i: "progress t out tn (poll_initiate fill ReasonInitiation tn1 n out rng)" if "initiation_allowed (t_timers tn) t"
    by (rule progress_same [of _ _ tn1], rule poll_initiate_progress)
      (use that assms(2,3) flags_inv(4) [OF assms(1)] in \<open>simp_all add: tn1_def initiation_allowed_def\<close>)
  have "progress t out tn2 (poll_dead_peer C fill tn2 n out rng)"
    by (rule dead) (use flags_inv(1) [OF assms(1)] in \<open>simp add: tn2_def\<close>)
  then have d: "progress t out tn (poll_dead_peer C fill tn2 n out rng)"
    by (rule progress_same) (simp_all add: tn2_def)
  have rekey: "progress t out tn (poll_rekey C fill tn n out rng)"
    using i d dead [OF assms(1)] assms(2) by (auto simp: poll_rekey_def tn1_def [symmetric] tn2_def [symmetric])
  show ?thesis
  proof (cases "t_inflight tn \<noteq> None \<and> is_some_and (retransmit_at (t_timers tn)) (\<lambda>at. at \<le> t)")
    case True
    then have "initiation_allowed (t_timers tn) t" using retransmit_allowed [OF assms(1)] assms(6) by blast
    then have "progress t out tn (poll_initiate fill ReasonRetransmit tn n out rng)"
      by (rule poll_initiate_progress [OF assms(1-3)])
    moreover have "pending t (upd_timers note_gave_up (tn\<lparr> t_inflight := None \<rparr>)) < pending t tn"
      using True by (simp add: pending_def note_gave_up_def initiation_allowed_def)
    ultimately show ?thesis
      using True assms(2) by (simp add: poll_retransmit_def progress_def)
  next
    case False
    then show ?thesis using rekey assms(2) by (auto simp: poll_retransmit_def)
  qed
qed

text \<open>How many more calls can report work at the present time: an expiry of all sessions leaves at
  most three, and otherwise at most five are left.\<close>

definition poll_rank :: "tunnel \<Rightarrow> now \<Rightarrow> nat" where
  "poll_rank tn n =
     (let v = poll_view tn n; t = t_last_now v in if discard_due v t then 4 else pending t v)"

lemma poll_rank_bound: "poll_rank tn n \<le> 5"
  by (simp add: poll_rank_def pending_def Let_def)

lemma poll_view_idem:
  assumes "t_last_now tn' = t_last_now (poll_view tn n)" and "t_next tn' = t_next (poll_view tn n) \<or> t_next tn' = None"
  shows "poll_view tn' n = tn'"
proof -
  have "max (now_ticks n) (t_last_now tn') = t_last_now tn'" using assms(1) by simp
  moreover have "expire_next (tn'\<lparr> t_last_now := t_last_now tn' \<rparr>) (t_last_now tn') = tn'"
    using assms(2) poll_view_next [of tn n] by (auto simp: expire_next_def assms(1) is_some_and_def)
  ultimately show ?thesis by (simp add: poll_view_def Let_def)
qed

lemma poll_progress:
  assumes "tunnel_inv tn" and "clock_ok n" and "chacha_impl C" and "length out < 2 ^ 63"
    and "poll C fill tn n out rng = (Inr ev, tn', out', rng')" and "ev \<noteq> Idle"
  shows "poll_rank tn' n < poll_rank tn n \<and> length out' = length out"
proof -
  define v t where "v = poll_view tn n" and "t = t_last_now v"
  have inv: "tunnel_inv v" and t: "t < 2 ^ 63"
    using poll_view_inv [OF assms(1,2)] by (simp_all add: v_def t_def tunnel_inv_def)
  have now: "t_last_now tn' = t" using poll_stage(1,3) [OF assms(1-4) clamp_now_eq refl assms(5)]
    by (auto simp: t_def v_def poll_good_def discard_all_sessions_def)
  show ?thesis
  proof (cases "discard_due v t")
    case True
    then have tn': "tn' = discard_all_sessions v" and out: "out' = out"
      using assms(5) by (simp_all add: poll_eq v_def [symmetric] t_def [symmetric] Let_def)
    have "poll_view tn' n = tn'"
      by (rule poll_view_idem [of _ tn]) (use now in \<open>simp_all add: v_def t_def tn' discard_all_sessions_def\<close>)
    moreover have "newest_session_created tn' = None"
      by (simp add: tn' discard_all_sessions_def newest_session_created_def List.map_filter_def)
    ultimately have "poll_rank tn' n = pending t tn'" by (simp add: poll_rank_def now is_some_and_def Let_def)
    also have "pending t tn' \<le> 3" by (simp add: tn' pending_def discard_all_sessions_def timers_default_def)
    finally show ?thesis using True out by (simp add: poll_rank_def v_def [symmetric] t_def [symmetric] Let_def)
  next
    case False
    then have p: "poll_retransmit C fill v (n\<lparr> now_ticks := t \<rparr>) out rng = (Inr ev, tn', out', rng')"
      using assms(5) by (simp add: poll_eq v_def [symmetric] t_def [symmetric] Let_def)
    have "progress t out v (poll_retransmit C fill v (n\<lparr> now_ticks := t \<rparr>) out rng)"
      by (rule poll_retransmit_progress [OF inv _ t assms(3,4) t_def]) simp
    then have d: "pending t tn' < pending t v" "newest_session_created tn' = newest_session_created v"
      "t_next tn' = t_next v" "length out' = length out"
      using assms(6) by (simp_all add: p progress_def)
    have "poll_view tn' n = tn'"
      by (rule poll_view_idem [of _ tn]) (use now d(3) in \<open>simp_all add: v_def t_def\<close>)
    then show ?thesis
      using False d now by (simp add: poll_rank_def v_def [symmetric] t_def [symmetric] Let_def)
  qed
qed

text \<open>The loop every driver runs: call \<open>poll\<close> until it is idle or fails, at one clock reading,
  and collect what it reports. \<open>None\<close> means that the fuel ran out.\<close>

fun poll_loop ::
  "nat \<Rightarrow> chacha_backend \<Rightarrow> 'r fill \<Rightarrow> tunnel \<Rightarrow> now \<Rightarrow> bytes \<Rightarrow> 'r
     \<Rightarrow> (poll_output list \<times> error option \<times> tunnel) option" where
  "poll_loop 0 C fill tn n out rng = None"
| "poll_loop (Suc k) C fill tn n out rng =
     (case poll C fill tn n out rng of
        (Inl e, tn, out, rng) \<Rightarrow> Some ([], Some e, tn)
      | (Inr ev, tn, out, rng) \<Rightarrow>
        if ev = Idle then Some ([], None, tn)
        else map_option (\<lambda>(evs, e, tn). (ev # evs, e, tn)) (poll_loop k C fill tn n out rng))"

lemma poll_loop_ends:
  assumes "tunnel_inv tn" and "clock_ok n" and "chacha_impl C" and "length out < 2 ^ 63" and "poll_rank tn n < k"
  shows "\<exists>evs e tn'. poll_loop k C fill tn n out rng = Some (evs, e, tn') \<and> length evs \<le> poll_rank tn n
    \<and> tunnel_inv tn' \<and> (e = None \<longrightarrow> later (t_last_now tn') (next_wake tn'))"
  using assms(1,4,5)
proof (induction k arbitrary: tn out rng)
  case (Suc k)
  obtain r tn1 out1 rng1 where p: "poll C fill tn n out rng = (r, tn1, out1, rng1)"
    by (cases "poll C fill tn n out rng")
  note inv = poll_inv(1) [OF Suc.prems(1) assms(2,3) Suc.prems(2) p]
  show ?case
  proof (cases r)
    case (Inr ev)
    show ?thesis
    proof (cases "ev = Idle")
      case True
      then show ?thesis using p Inr inv poll_idle_later [OF Suc.prems(1) assms(2), of C fill out rng] by simp
    next
      case False
      have d: "poll_rank tn1 n < poll_rank tn n" "length out1 = length out"
        using poll_progress [OF Suc.prems(1) assms(2,3) Suc.prems(2) p [unfolded Inr] False] by simp_all
      have "length out1 < 2 ^ 63" and "poll_rank tn1 n < k" using d Suc.prems(2,3) by simp_all
      from Suc.IH [OF inv this, of rng1] obtain evs e tn' where
        i: "poll_loop k C fill tn1 n out1 rng1 = Some (evs, e, tn')" "length evs \<le> poll_rank tn1 n"
          "tunnel_inv tn'" "e = None \<longrightarrow> later (t_last_now tn') (next_wake tn')" by blast
      have "poll_loop (Suc k) C fill tn n out rng = Some (ev # evs, e, tn')" using p Inr False i(1) by simp
      moreover have "length (ev # evs) \<le> poll_rank tn n" using i(2) d(1) by simp
      ultimately show ?thesis using i(3,4) by blast
    qed
  qed (use p inv in simp)
qed simp

subsection \<open>Properties\<close>

text \<open>C12: the driver loop quiesces. In every state that satisfies the tunnel invariant, calling \<open>poll\<close>
  repeatedly at one clock reading reports at most five pieces of work (datagrams to send, an
  expired handshake, expired sessions) and then is idle or fails with an error; there is no busy
  loop. Once it is idle, \<open>next_wake\<close> is strictly in the future or absent, so a driver that
  sleeps until then does not spin.\<close>

theorem poll_loop_quiesces:
  assumes "tunnel_inv tn" and "clock_ok n" and "chacha_impl C" and "length out < 2 ^ 63"
  shows "\<exists>evs e tn'. poll_loop 6 C fill tn n out rng = Some (evs, e, tn') \<and> length evs \<le> 5 \<and> tunnel_inv tn'
    \<and> (e = None \<longrightarrow> (\<forall>w. next_wake tn' = Some w \<longrightarrow> t_last_now tn' < w))"
proof -
  have "poll_rank tn n < 6" using poll_rank_bound [of tn n] by simp
  from poll_loop_ends [OF assms this, of fill rng] poll_rank_bound [of tn n] show ?thesis
    unfolding later_def by (meson le_trans)
qed

definition wake_example :: tunnel where
  "wake_example = example_tn0\<lparr> t_timers := timers_default\<lparr> last_data_rx := Some 0 \<rparr> \<rparr>"

lemma wake_example_inv: "tunnel_inv wake_example"
  using tunnel_fresh_inv [OF example_config_ok, of "replicate 32 3"]
  by (simp add: wake_example_def example_tn0_def tunnel_inv_def sessions_inv_def timers_inv_def index_list_def
      timers_default_def tunnel_fresh_def Let_def)

theorem poll_loop_quiesces_witness:
  "\<exists>evs e tn'. poll_loop 6 scalar_apply_keystream const_fill wake_example (example_now 11000000000) (replicate 148 0) ()
     = Some (evs, e, tn') \<and> length evs \<le> 5"
  using poll_loop_quiesces [OF wake_example_inv _ scalar.chacha_impl_axioms, of "example_now 11000000000" "replicate 148 0" const_fill "()"]
  by (auto simp: example_now_def clock_ok_def)

text \<open>C13: nothing is due before \<open>next_wake\<close>. If the time of a call is strictly before the instant
  \<open>next_wake\<close> names (or it names none), \<open>poll\<close> is idle, provided the state does not ask at once for a
  rekey and for a confirming keepalive, and, with persistent keepalives configured, the current
  session has not become unusable since the last clock reading.\<close>

theorem poll_quiet_until_wake:
  assumes "tunnel_inv tn" and "clock_ok n" and "t = max (now_ticks n) (t_last_now tn)"
    and "\<forall>w. next_wake tn = Some w \<longrightarrow> t < w"
    and "\<not> (rekey_due (t_timers tn) \<and> confirm_keepalive_due (t_timers tn))"
    and "t_persistent_keepalive tn = None
      \<or> is_some_and (t_current tn) (\<lambda>s. usable_for_send s t) = is_some_and (t_current tn) (\<lambda>s. usable_for_send s (t_last_now tn))"
  shows "fst (poll C fill tn n out rng) = Inr Idle"
  by (rule later_quiet [OF assms(1-3) _ assms(5,6)]) (use assms(4) in \<open>simp add: later_def\<close>)

lemma wake_example_wake: "next_wake wake_example = Some 10000000000"
  by (simp add: next_wake_def wake_example_def example_tn0_def tunnel_fresh_def example_config_def config_new_def
      timers_default_def wake_immediate_def wake_retransmit_def wake_dead_peer_def wake_discard_def wake_next_expire_def
      wake_persistent_def newest_session_created_def dead_peer_at_def passive_keepalive_at_def List.map_filter_def
      is_none_or_def add_nanos_def saturating_add_def const_defs Let_def)

theorem poll_quiet_until_wake_witness:
  "next_wake wake_example = Some 10000000000
   \<and> fst (poll scalar_apply_keystream const_fill wake_example (example_now 9999999999) [] ()) = Inr Idle"
  using poll_quiet_until_wake [OF wake_example_inv, of "example_now 9999999999" 9999999999 scalar_apply_keystream const_fill "[]" "()"]
    wake_example_wake
  by (simp add: example_now_def clock_ok_def wake_example_def example_tn0_def tunnel_fresh_def example_config_def
      config_new_def timers_default_def Let_def)

text \<open>An established session, created and last used at time 0, with a persistent keepalive of 300
  seconds.\<close>

definition sleeper_keys :: session_keys where
  "sleeper_keys = \<lparr> sk_send = replicate 32 1, sk_recv = replicate 32 2, sk_local_index = 1, sk_peer_index = 2,
     sk_is_initiator = True \<rparr>"

definition sleeper :: tunnel where
  "sleeper = example_tn0\<lparr> t_persistent_keepalive := Some 300, t_current := Some (session_new sleeper_keys 0),
     t_timers := timers_default\<lparr> last_any_tx := Some 0 \<rparr> \<rparr>"

lemma sleeper_inv: "tunnel_inv sleeper"
  using tunnel_fresh_inv [OF example_config_ok, of "replicate 32 3"] replay_new_inv
  by (auto simp: sleeper_def example_tn0_def tunnel_inv_def sessions_inv_def timers_inv_def index_list_eq
      timers_default_def tunnel_fresh_def session_ok_def session_new_def sleeper_keys_def Let_def)

lemma sleeper_usable: "usable_for_send (session_new sleeper_keys 0) 0"
proof -
  have "0 < REJECT_AFTER_MESSAGES" by code_simp
  then show ?thesis
    by (simp add: usable_for_send_def session_new_def sleeper_keys_def session_age_def since_def saturating_sub_def
        REJECT_AFTER_TIME_def SECOND_def)
qed

lemma sleeper_wake: "next_wake sleeper = Some 300000000000"
  by (simp add: next_wake_def sleeper_def example_tn0_def tunnel_fresh_def example_config_def config_new_def
      timers_default_def wake_immediate_def wake_retransmit_def wake_dead_peer_def wake_discard_def wake_next_expire_def
      wake_persistent_def newest_session_created_def dead_peer_at_def passive_keepalive_at_def List.map_filter_def
      is_none_or_def add_nanos_def saturating_add_def const_defs sleeper_usable persistent_interval_def saturating_mul_def Let_def)
    (simp add: session_new_def)


end
