(* ===== verification/Tunnel_Link.thy ===== *)
theory Tunnel_Link
  imports Tunnel_Wake
begin

text \<open>
  Two tunnels of \<open>src/src/tunnel.rs\<close> talking to each other: the handshake gives both sides
  sessions that belong together, and a payload that one side encapsulates is delivered, once, by
  the other. What relates the two sides is \<open>linked\<close>; the only fact about Curve25519 used is
  that Diffie-Hellman commutes on the scalars involved (\<open>dh_ok\<close>).
\<close>

subsection \<open>Delivery\<close>

text \<open>The session an incoming transport message for the local index \<open>i\<close> is handed to.\<close>

definition session_at :: "tunnel \<Rightarrow> u32 \<Rightarrow> session option" where
  "session_at tn i = Option.bind (session_with_index tn i) (slot_get tn)"

lemma session_at_slot:
  assumes "session_at tn i = Some s"
  obtains sl where "session_with_index tn i = Some sl" "slot_get tn sl = Some s" "sk_local_index (s_keys s) = i"
  using assms
  by (auto simp: session_at_def session_with_index_def is_some_and_def split: if_splits option.splits)

lemma session_at_same:
  "t_previous tn' = t_previous tn \<Longrightarrow> t_current tn' = t_current tn \<Longrightarrow> t_next tn' = t_next tn \<Longrightarrow> session_at tn' i = session_at tn i"
  by (auto simp: session_at_def session_with_index_def)

lemma note_recv_rekey_slots [simp]:
  "t_previous (note_recv_rekey tn t) = t_previous tn" "t_current (note_recv_rekey tn t) = t_current tn"
  "t_next (note_recv_rekey tn t) = t_next tn"
  by (simp_all add: note_recv_rekey_def split: option.splits)

lemma session_at_received:
  assumes "session_with_index tn i = Some sl" and "slot_get tn sl = Some s" and "sl = Next \<longrightarrow> \<not> s_confirmed s"
    and "transport_accepted (slot_put tn sl (received_on s c)) t sl (\<not> s_confirmed s) k out = (r, tn', out')"
  shows "session_at tn' i = Some (received_on s c)"
proof -
  define tn1 where "tn1 = (if \<not> s_confirmed s \<and> sl = Next
      then promote_next (slot_put tn sl (received_on s c)) t else slot_put tn sl (received_on s c))"
  have i: "sk_local_index (s_keys s) = i" "s_keys (received_on s c) = s_keys s"
    using assms(1,2) by (auto simp: session_with_index_def is_some_and_def received_on_def split: if_splits option.splits)
  have "session_at tn1 i = Some (received_on s c)"
    using assms(1-3) i
    by (cases sl) (auto simp: tn1_def session_at_def session_with_index_def is_some_and_def promote_next_def Let_def
        split: if_splits option.splits)
  moreover obtain st where "tn' = (upd_timers (note_rx t (k = 0)) (note_recv_rekey tn1 t))\<lparr> t_stats := st \<rparr>"
    using transport_accepted_state(1) [OF assms(4)] unfolding tn1_def by blast
  then have "session_at tn' i = session_at tn1 i" by (auto intro!: session_at_same)
  ultimately show ?thesis by simp
qed

lemma transport_wire_parses:
  "parse (transport_wire s plain) = Inr (TransportData
     \<lparr> td_receiver_index = sk_peer_index (s_keys s), td_counter = s_send_counter s,
       td_ciphertext = aead_encrypt scalar_apply_keystream (sk_send (s_keys s)) (nonce_from_counter (s_send_counter s)) [] plain \<rparr>)"
  unfolding transport_wire_def by (rule parse_packet_bytes) (simp add: scalar.length_aead_encrypt TAG_LEN_def)

lemma receive_wire:
  assumes "tunnel_inv tn" and "clock_ok n" and "chacha_impl C" and "t = max (now_ticks n) (t_last_now tn)"
    and "session_at tn (sk_peer_index (s_keys sa)) = Some sb" and "sk_recv (s_keys sb) = sk_send (s_keys sa)"
    and "s_send_counter sa < REJECT_AFTER_MESSAGES" and "session_age sb t < REJECT_AFTER_TIME"
    and "replay_check (s_replay sb) (s_send_counter sa)" and "length plain \<le> length out"
  obtains tn' where
    "decapsulate C fill tn n remote ul (transport_wire sa plain) out rng
       = (Inr (if plain = [] then Keepalive else Data plain), tn', plain @ drop (length plain) out, rng)"
    "session_at tn' (sk_peer_index (s_keys sa)) = Some (received_on sb (s_send_counter sa))"
    "t_last_now tn' = t" "tunnel_inv tn'"
proof -
  define tn1 where "tn1 = tn\<lparr> t_last_now := t \<rparr>"
  define m where "m = \<lparr> td_receiver_index = sk_peer_index (s_keys sa), td_counter = s_send_counter sa,
    td_ciphertext = aead_encrypt scalar_apply_keystream (sk_send (s_keys sa)) (nonce_from_counter (s_send_counter sa)) [] plain \<rparr>"
  have c: "clamp_now tn n = (n\<lparr> now_ticks := t \<rparr>, tn1)" by (simp add: clamp_now_eq assms(4) tn1_def)
  have inv: "tunnel_inv tn1" using clamp_now_inv(1) [OF assms(1,2) c] .
  have "session_at tn1 (sk_peer_index (s_keys sa)) = Some sb"
    using assms(5) session_at_same [of tn1 tn] by (simp add: tn1_def)
  then obtain sl where sl: "session_with_index tn1 (td_receiver_index m) = Some sl" "slot_get tn1 sl = Some sb"
    by (rule session_at_slot) (simp add: m_def)
  have conf: "sl = Next \<longrightarrow> \<not> s_confirmed sb" using inv sl(2) by (auto simp: tunnel_inv_def sessions_inv_def)
  have C: "C = scalar_apply_keystream" by (rule chacha_impl_unique [OF assms(3)])
  have o: "open_with C (sk_recv (s_keys sb)) (nonce_from_counter (td_counter m)) [] (td_ciphertext m) out
      = (Inr (length plain), plain @ drop (length plain) out)"
    using scalar.open_encrypt [OF assms(10)] by (simp add: C m_def assms(6))
  obtain r tn' out' where ta: "transport_accepted (slot_put tn1 sl (received_on sb (td_counter m))) t sl (\<not> s_confirmed sb)
      (length plain) (plain @ drop (length plain) out) = (r, tn', out')" by (metis prod_cases3)
  have h: "handle_transport C tn1 (n\<lparr> now_ticks := t \<rparr>) m out = (r, tn', out')"
    by (subst handle_transport_opened(1) [OF sl _ _ _ refl o])
      (use ta assms(7-9) in \<open>simp_all add: m_def not_le\<close>)
  note st = transport_accepted_state(2,3) [OF ta]
  have "decapsulate C fill tn n remote ul (transport_wire sa plain) out rng = (r, tn', out', rng)"
    unfolding decapsulate_def c transport_wire_parses m_def [symmetric] using h by simp
  moreover have "session_at tn' (sk_peer_index (s_keys sa)) = Some (received_on sb (s_send_counter sa))"
    using session_at_received [OF sl conf ta] by (simp add: m_def)
  moreover have "tunnel_inv tn'" "t_last_now tn' = t"
    using received_state_inv [OF inv sl _ _ ta] assms(9) by (simp_all add: m_def tn1_def)
  ultimately show thesis using st that [of tn'] by simp
qed

lemma padded_nil: "padded [] mtu = []"
  by (cases mtu) (simp_all add: padded_def padded_len_def checked_add_usize_def usize_max_def PADDING_MULTIPLE_def)

lemma padded_eq_nil: "padded payload mtu = [] \<longleftrightarrow> payload = []"
  using padded_nil by (auto simp: padded_def)

lemma encapsulated_wire:
  assumes "chacha_impl C" and "length out < 2 ^ 63"
    and "encapsulate C fill tn n payload out rng = (Inr (Transport w), tn', out', rng')"
  obtains s where "t_current tn = Some s" "s_send_counter s < REJECT_AFTER_MESSAGES" "w = transport_wire s (padded payload (t_mtu tn))"
    "t_current tn' = Some (advance s)"
proof -
  define n1 tn1 where "n1 = n\<lparr> now_ticks := max (now_ticks n) (t_last_now tn) \<rparr>"
    and "tn1 = tn\<lparr> t_last_now := max (now_ticks n) (t_last_now tn) \<rparr>"
  have c: "clamp_now tn n = (n1, tn1)" by (simp add: clamp_now_eq n1_def tn1_def)
  have eq: "t_current tn1 = t_current tn" "t_mtu tn1 = t_mtu tn" by (simp_all add: tn1_def)
  have u: "can_send tn1 (now_ticks n1)"
  proof (rule ccontr)
    assume "\<not> can_send tn1 (now_ticks n1)"
    then have "encapsulate_initiate fill tn1 n1 out rng = (Inr (Transport w), tn', out', rng')"
      using assms(3) by (simp add: encapsulate_def c Let_def)
    then show False
      by (auto simp: encapsulate_initiate_def and_then_def Let_def split: if_splits prod.splits sum.splits)
  qed
  then have "encapsulate_transport C tn1 n1 payload out = (Inr (Transport w), tn', out')"
    using assms(3) by (auto simp: encapsulate_def c Let_def split: prod.splits)
  then show thesis
    using that unfolding encapsulate_transport_eq [OF assms(1,2)]
    by (auto simp: eq not_le split: if_splits option.splits)
qed

lemma replay_refused:
  assumes "tunnel_inv tn" and "clock_ok n" and "session_at tn (sk_peer_index (s_keys sa)) = Some s"
    and "\<not> replay_check (s_replay s) (s_send_counter sa)" and "s_send_counter sa < REJECT_AFTER_MESSAGES"
  shows "fst (decapsulate C fill tn n remote ul (transport_wire sa plain) out rng) \<in> {Inl Replay, Inl Expired}"
proof -
  define n1 tn1 where "n1 = n\<lparr> now_ticks := max (now_ticks n) (t_last_now tn) \<rparr>"
    and "tn1 = tn\<lparr> t_last_now := max (now_ticks n) (t_last_now tn) \<rparr>"
  have c: "clamp_now tn n = (n1, tn1)" by (simp add: clamp_now_eq n1_def tn1_def)
  have "session_at tn1 (sk_peer_index (s_keys sa)) = Some s"
    using assms(3) session_at_same [of tn1 tn] by (simp add: tn1_def)
  then obtain sl where "session_with_index tn1 (sk_peer_index (s_keys sa)) = Some sl" "slot_get tn1 sl = Some s"
    by (rule session_at_slot)
  then show ?thesis
    unfolding decapsulate_def c transport_wire_parses using assms(4,5)
    by (simp add: handle_transport_def Let_def)
qed

subsection \<open>Establishing a session\<close>

text \<open>The constant fields of a tunnel built for the static key \<open>s\<close> and the peer whose static key
  is \<open>p\<close>.\<close>

definition endpoint :: "tunnel \<Rightarrow> bytes \<Rightarrow> bytes \<Rightarrow> bytes \<Rightarrow> bool" where
  "endpoint tn s p psk \<longleftrightarrow>
     t_local_static tn = s \<and> t_local_public tn = public_key s \<and> t_peer_public tn = public_key p
     \<and> t_psk tn = psk \<and> t_constants tn = handshake_constants_new
     \<and> t_mac_keys tn = mac_keys_new (public_key s) (public_key p)
     \<and> t_precomputed_ss tn = x25519 s (public_key p)"

text \<open>Diffie-Hellman commutes on the scalars of the two endpoints.\<close>

definition dh_ok :: "'a fill \<Rightarrow> 'b fill \<Rightarrow> bytes \<Rightarrow> bytes \<Rightarrow> bool" where
  "dh_ok fa fb sa sb \<longleftrightarrow> dh_commutes sa sb
     \<and> (\<forall>ei \<in> draws fa. dh_commutes (clamp_scalar ei) sb) \<and> (\<forall>er \<in> draws fb. dh_commutes sa (clamp_scalar er))
     \<and> (\<forall>ei \<in> draws fa. \<forall>er \<in> draws fb. dh_commutes (clamp_scalar ei) (clamp_scalar er))"

lemma endpoint_backend:
  assumes "with_backend cfg = Inr tn" and "cfg_local_static cfg = s" and "cfg_peer_public cfg = public_key p"
  shows "endpoint tn s p (cfg_psk cfg)"
  using assms by (auto simp: with_backend_def tunnel_fresh_def endpoint_def shared_secret_def Let_def split: if_splits)

lemma stamped_same:
  "same_initiation (stamp_initiation keys c t m) m" "same_response (stamp_response keys c t r) r"
  "hr_receiver_index (stamp_response keys c t r) = hr_receiver_index r"
  by (simp_all add: stamp_initiation_def stamp_response_def same_initiation_def same_response_def Let_def)

text \<open>The errors of \<open>initiate_handshake\<close> and when they occur.\<close>

definition initiate_refused :: "error \<Rightarrow> tunnel \<Rightarrow> now \<Rightarrow> bytes \<Rightarrow> bool" where
  "initiate_refused e tn n out \<longleftrightarrow>
     e = HandshakeRateLimited \<and> \<not> initiation_allowed (t_timers tn) (max (now_ticks n) (t_last_now tn))
     \<or> e = BufferTooSmall \<and> length out < 148 \<or> e = EntropyFailure \<or> e = InvalidPublicKey"

lemma initiate_errors:
  assumes "tunnel_inv tn" and "clock_ok n" and "initiate_handshake fill tn n out rng = (Inl e, tn', out', rng')"
  shows "initiate_refused e tn n out"
proof -
  define t where "t = max (now_ticks n) (t_last_now tn)"
  define n1 tn1 where "n1 = n\<lparr> now_ticks := t \<rparr>"
    and "tn1 = (tn\<lparr> t_last_now := t \<rparr>)\<lparr> t_timers := (t_timers tn)\<lparr> gave_up := False, attempt_started := None \<rparr> \<rparr>"
  have c: "clamp_now tn n = (n1, tn\<lparr> t_last_now := t \<rparr>)" by (simp add: clamp_now_eq t_def n1_def)
  have inv: "tunnel_inv tn1" unfolding tn1_def using flags_inv(5) [OF clamp_now_inv(1) [OF assms(1,2) c]] by simp
  have i: "initiate_handshake fill tn n out rng =
      (if \<not> initiation_allowed (t_timers tn) t then (Inl HandshakeRateLimited, tn\<lparr> t_last_now := t \<rparr>, out, rng)
       else case send_initiation fill tn1 n1 out rng False of
           (Inl e, tn, out, rng) \<Rightarrow> (Inl e, tn, out, rng)
         | (Inr k, tn, out, rng) \<Rightarrow> (ok_or Internal (get_to k out), tn, out, rng))"
    unfolding initiate_handshake_def c by (simp add: tn1_def n1_def Let_def)
  show ?thesis
  proof (cases rule: send_initiation_cases [OF inv_length_public [OF inv] tai_wf_outbound [OF inv, of n1], of fill out rng False, consumes 0, case_names err ok])
    case (err e' rng')
    then show ?thesis using assms(3) by (auto simp: i initiate_refused_def t_def split: if_splits)
  next
    case (ok index eph jitter im rng')
    show ?thesis using assms(3) ok(3,6) by (auto simp: i ok(2) initiate_refused_def t_def get_to_def split: if_splits)
  qed
qed

lemma initiate_sends:
  assumes "tunnel_inv tn" and "clock_ok n" and "endpoint tn s p psk"
    and "initiate_handshake fill tn n out rng = (Inr w, tn', out', rng')"
  obtains eph idx im ck t where
    "im = ik_initiation handshake_constants_new (public_key s) (public_key p) (x25519 s (public_key p)) idx
       (clamp_scalar eph) (x25519 (clamp_scalar eph) (public_key p)) (outbound_timestamp tn n)"
    "w = packet_bytes (HandshakeInitiation (stamp_initiation (mac_keys_new (public_key s) (public_key p)) ck t (snd im)))"
    "packet_wf (HandshakeInitiation (stamp_initiation (mac_keys_new (public_key s) (public_key p)) ck t (snd im)))"
    "eph \<in> draws fill" "\<not> ct_is_zero (x25519 (clamp_scalar eph) (public_key p))"
    "t_inflight tn' = Some (fst im)" "endpoint tn' s p psk" "length (tai_bytes (outbound_timestamp tn n)) = 12"
proof -
  define t where "t = max (now_ticks n) (t_last_now tn)"
  define n1 tn1 where "n1 = n\<lparr> now_ticks := t \<rparr>"
    and "tn1 = (tn\<lparr> t_last_now := t \<rparr>)\<lparr> t_timers := (t_timers tn)\<lparr> gave_up := False, attempt_started := None \<rparr> \<rparr>"
  have c: "clamp_now tn n = (n1, tn\<lparr> t_last_now := t \<rparr>)" by (simp add: clamp_now_eq t_def n1_def)
  have inv: "tunnel_inv tn1" unfolding tn1_def using flags_inv(5) [OF clamp_now_inv(1) [OF assms(1,2) c]] by simp
  have ts: "outbound_timestamp tn1 n1 = outbound_timestamp tn n"
    by (simp add: outbound_timestamp_def tn1_def n1_def now_tai64n_def split: option.split)
  have ep: "endpoint tn1 s p psk" using assms(3) by (simp add: endpoint_def tn1_def)
  have s: "send_initiation fill tn1 n1 out rng False = (Inr 148, tn', out', rng')" "get_to 148 out' = Some w"
  proof -
    obtain r tn2 out2 rng2 where s: "send_initiation fill tn1 n1 out rng False = (r, tn2, out2, rng2)"
      by (cases "send_initiation fill tn1 n1 out rng False")
    then have i: "(case r of Inl e \<Rightarrow> (Inl e, tn2, out2, rng2) | Inr k \<Rightarrow> (ok_or Internal (get_to k out2), tn2, out2, rng2))
        = (Inr w, tn', out', rng')"
      using assms(4) unfolding initiate_handshake_def c
      by (auto simp: tn1_def Let_def split: if_splits sum.splits)
    then obtain k where k: "r = Inr k" by (cases r) simp_all
    have "k = 148" using send_initiation_length [OF inv s [unfolded k]] by simp
    with k show "send_initiation fill tn1 n1 out rng False = (Inr 148, tn', out', rng')" "get_to 148 out' = Some w"
      using i s by (auto simp: get_to_def split: if_splits)
  qed
  show thesis
  proof (cases rule: send_initiation_cases [OF inv_length_public [OF inv] tai_wf_outbound [OF inv, of n1], of fill out rng False, consumes 0, case_names err ok])
    case (err e r)
    with s show thesis by simp
  next
    case (ok index eph jitter im r)
    note e = ep [unfolded endpoint_def]
    show thesis
    proof (rule that [of im index eph "t_cookie tn1" t])
      show "im = ik_initiation handshake_constants_new (public_key s) (public_key p) (x25519 s (public_key p)) index
       (clamp_scalar eph) (x25519 (clamp_scalar eph) (public_key p)) (outbound_timestamp tn n)"
        using ok(1) e by (simp add: ts)
      have l: "length (packet_bytes (HandshakeInitiation (stamp_initiation (t_mac_keys tn1) (t_cookie tn1) (now_ticks n1) (snd im)))) = 148"
        using ok(3) by simp
      show "w = packet_bytes (HandshakeInitiation (stamp_initiation (mac_keys_new (public_key s) (public_key p)) (t_cookie tn1) t (snd im)))"
        using ok(2) s l e by (auto simp: get_to_def n1_def simp del: packet_bytes.simps split: if_splits)
      show "packet_wf (HandshakeInitiation (stamp_initiation (mac_keys_new (public_key s) (public_key p)) (t_cookie tn1) t (snd im)))"
        using ok(3) e by (simp add: n1_def del: packet_wf.simps)
      show "eph \<in> draws fill" "\<not> ct_is_zero (x25519 (clamp_scalar eph) (public_key p))" using ok(8,9) e by simp_all
      show "t_inflight tn' = Some (fst im)" "endpoint tn' s p psk"
        using ok(2) s ep by (simp_all add: initiated_def endpoint_def)
      show "length (tai_bytes (outbound_timestamp tn n)) = 12" using tai_wf_outbound [OF assms(1)] .
    qed
  qed
qed

text \<open>Two sessions that belong together: \<open>sa\<close> sends what the receiver finds, under the index in
  the message, as \<open>sb\<close>.\<close>

definition linked :: "session \<Rightarrow> tunnel \<Rightarrow> session \<Rightarrow> bool" where
  "linked sa tn sb \<longleftrightarrow> session_at tn (sk_peer_index (s_keys sa)) = Some sb \<and> sk_recv (s_keys sb) = sk_send (s_keys sa)"

lemma responder_answers:
  assumes ep: "endpoint tn sr si psk" and dh: "dh_ok fa fb si sr"
    and im: "im = ik_initiation handshake_constants_new (public_key si) (public_key sr) (x25519 si (public_key sr)) idx
       (clamp_scalar eph) (x25519 (clamp_scalar eph) (public_key sr)) ts"
    and eph: "eph \<in> draws fa" "\<not> ct_is_zero (x25519 (clamp_scalar eph) (public_key sr))" "length (tai_bytes ts) = 12"
    and wf: "m = stamp_initiation (mac_keys_new (public_key si) (public_key sr)) ck t (snd im)"
    and new: "is_none_or (t_greatest_timestamp tn) (\<lambda>g. g < ts)" and out: "92 \<le> length out"
  obtains (err) e rng' where "handle_initiation fb tn n remote False m out rng = (Inl e, tn, out, rng')"
      "e = EntropyFailure \<or> e = InvalidPublicKey"
    | (ok) m2 keys keys' tn' out' rng' where
      "handle_initiation fb tn n remote False m out rng = (Inr (Reply (packet_bytes (HandshakeResponse m2))), tn', out', rng')"
      "packet_wf (HandshakeResponse m2)" "hr_receiver_index m2 = idx"
      "verify_mac1 (mac_keys_new (public_key si) (public_key sr)) (hr_alpha m2) (hr_mac1 m2)"
      "consume_response (fst im) si psk m2 = Inr keys'"
      "t_next tn' = Some (session_new keys (now_ticks n))"
      "sk_send keys' = sk_recv keys" "sk_recv keys' = sk_send keys" "sk_peer_index keys' = sk_local_index keys"
      "sk_local_index keys' = idx" "sk_peer_index keys = idx" "sk_is_initiator keys'" "\<not> sk_is_initiator keys"
proof -
  have dh1: "dh_commutes (clamp_scalar eph) sr" "dh_commutes si sr" using dh eph(1) by (auto simp: dh_ok_def)
  note e = ep [unfolded endpoint_def]
  define consumed where "consumed = \<lparr> ci_peer_index = idx, ci_static_public = public_key si, ci_timestamp = ts,
      ci_eph_public = x25519_base (clamp_scalar eph), ci_chain = if_chain (fst im), ci_hash = if_hash (fst im) \<rparr>"
  have co: "consume_initiation (t_constants tn) (t_local_static tn) (t_local_public tn) (t_peer_public tn) (t_precomputed_ss tn) m
      = Inr consumed"
    unfolding consumed_def using e honest_initiation(3) [OF dh1 refl eph(3) _ eph(2) im, of "replicate 148 0" m] wf stamped_same(1)
    by simp
  have v: "verify_mac1 (t_mac_keys tn) (hi_alpha m) (hi_mac1 m)"
    unfolding wf by (rule stamped_mac1_verifies) (use e in \<open>simp add: mac_keys_cross(1)\<close>)
  have g: "\<not> is_some_and (t_greatest_timestamp tn) (\<lambda>g. ci_timestamp consumed \<le> g)"
    using new by (auto simp: is_some_and_def is_none_or_def consumed_def split: option.splits)
  have ul: "\<not> (False \<and> \<not> verify_mac2 (t_cookie_jar tn) remote (hi_beta m) (hi_mac2 m))" by simp
  show thesis
  proof (cases rule: handle_initiation_consumed [OF v ul co, of fb n out rng, consumes 0, case_names err ok])
    case (err e rng')
    then show thesis using that(1) [of e rng'] g out by auto
  next
    case (ok index er rm m' rng')
    have dh2: "dh_commutes (clamp_scalar eph) (clamp_scalar er)" "dh_commutes si (clamp_scalar er)"
      using dh eph(1) ok(6) by (auto simp: dh_ok_def)
    have ii: "if_eph_secret (fst im) = clamp_scalar eph" "if_local_index (fst im) = idx"
      by (simp_all add: im ik_initiation_inflight)
    have same: "same_response m' (snd rm)" using ok(4) stamped_same(2) by simp
    have rm: "rm = ik_response consumed psk index (clamp_scalar er) (x25519 (clamp_scalar er) (ci_eph_public consumed))
         (x25519 (clamp_scalar er) (ci_static_public consumed))" using ok(3) e by simp
    have cs: "ci_chain consumed = if_chain (fst im)" "ci_hash consumed = if_hash (fst im)"
      "ci_eph_public consumed = x25519_base (clamp_scalar eph)" "ci_static_public consumed = public_key si"
      "ci_peer_index consumed = idx"
      by (simp_all add: consumed_def)
    note hr = honest_response [OF dh2 refl out cs(1-4) ii(1) refl refl rm]
    note keys = ik_response_keys [of consumed psk index "clamp_scalar er" "x25519 (clamp_scalar er) (ci_eph_public consumed)"
        "x25519 (clamp_scalar er) (ci_static_public consumed)", folded rm]
    have ri: "hr_receiver_index (snd rm) = idx" by (simp add: rm ik_response_def cs Let_def split: prod.splits)
    show thesis
    proof (rule that(2) [OF ok(5), of "\<lparr> sk_send = sk_recv (fst rm), sk_recv = sk_send (fst rm),
        sk_local_index = idx, sk_peer_index = index, sk_is_initiator = True \<rparr>" "fst rm"])
      show "packet_wf (HandshakeResponse m')" unfolding ok(4) by (rule apply_macs_response(2) [OF hr(2)])
      show "hr_receiver_index m' = idx" using same ri by (simp add: same_response_def)
      show "verify_mac1 (mac_keys_new (public_key si) (public_key sr)) (hr_alpha m') (hr_mac1 m')"
        unfolding ok(4) by (rule stamped_mac1_verifies) (use e in \<open>simp add: mac_keys_cross(1)\<close>)
      show "consume_response (fst im) si psk m' = Inr \<lparr> sk_send = sk_recv (fst rm), sk_recv = sk_send (fst rm),
        sk_local_index = idx, sk_peer_index = index, sk_is_initiator = True \<rparr>"
        using hr(3) [OF ok(7,8) same] by (simp add: ii(2))
    qed (use keys cs(5) in \<open>simp_all add: replied_def\<close>)
  qed
qed

lemma initiator_completes:
  assumes "tunnel_inv tn" and "clock_ok n" and "endpoint tn si sr psk" and "t_inflight tn = Some inflight"
    and "packet_wf (HandshakeResponse m)" and "hr_receiver_index m = if_local_index inflight"
    and "verify_mac1 (mac_keys_new (public_key si) (public_key sr)) (hr_alpha m) (hr_mac1 m)"
    and "consume_response inflight si psk m = Inr keys"
  shows "decapsulate C fill tn n remote False (packet_bytes (HandshakeResponse m)) out rng
      = (Inr HandshakeComplete,
         completed (tn\<lparr> t_last_now := max (now_ticks n) (t_last_now tn) \<rparr>) (max (now_ticks n) (t_last_now tn)) keys, out, rng)"
  using assms(3-8) parse_packet_bytes [OF assms(5)]
  by (simp add: decapsulate_def clamp_now_eq handle_response_def completed_def endpoint_def Let_def
      del: packet_bytes.simps packet_wf.simps)

lemma completed_session_at:
  assumes "tunnel_inv tn" and "t_inflight tn = Some inflight" and "sk_local_index keys = if_local_index inflight"
  shows "session_at (completed (tn\<lparr> t_last_now := t' \<rparr>) t keys) (if_local_index inflight) = Some (session_new keys t)"
  using assms
  by (auto simp: tunnel_inv_def sessions_inv_def index_list_eq completed_def session_at_def session_with_index_def
      is_some_and_def session_new_def split: option.splits)

lemma next_session_at:
  "t_next tn = Some (session_new keys t) \<Longrightarrow> session_at tn (sk_local_index keys) = Some (session_new keys t)"
  by (simp add: session_at_def session_with_index_def is_some_and_def session_new_def)

lemma decapsulate_initiation_packet:
  "packet_wf (HandshakeInitiation m) \<Longrightarrow>
   decapsulate C fill tn n remote ul (packet_bytes (HandshakeInitiation m)) out rng =
     handle_initiation fill (tn\<lparr> t_last_now := max (now_ticks n) (t_last_now tn) \<rparr>)
       (n\<lparr> now_ticks := max (now_ticks n) (t_last_now tn) \<rparr>) remote ul m out rng"
  using parse_packet_bytes [of "HandshakeInitiation m"]
  by (simp add: decapsulate_def clamp_now_eq Let_def del: packet_bytes.simps packet_wf.simps)

subsection \<open>Properties\<close>


lemma session_at_inv:
  assumes "tunnel_inv tn" and "session_at tn i = Some s"
  obtains S where "replay_inv (s_replay s) S"
proof -
  obtain sl where "slot_get tn sl = Some s" by (rule session_at_slot [OF assms(2)])
  then have "session_ok (t_last_now tn) s" using assms(1) by (cases sl) (auto simp: tunnel_inv_def sessions_inv_def)
  then show thesis using that by (auto simp: session_ok_def)
qed

lemma draws_const: "draws const_fill = {replicate 32 7}"
  by (auto simp: draws_def gen32_def const_fill_def entropy_result_def simp del: replicate.simps)

definition twin_key :: bytes where
  "twin_key = clamp_scalar (replicate 32 7)"

text \<open>Two tunnels, built for one static key on both sides.\<close>

definition twin :: tunnel where
  "twin = tunnel_fresh (config_new twin_key (public_key twin_key)) (x25519 twin_key (public_key twin_key))"

lemma twin_ok: "tunnel_inv twin" "endpoint twin twin_key twin_key (replicate 32 0)" "t_greatest_timestamp twin = None"
  unfolding twin_def
  by (rule tunnel_fresh_inv, simp add: config_new_def)
    (simp_all add: endpoint_def tunnel_fresh_def config_new_def Let_def)


text \<open>C2: what one tunnel encapsulates, the other decapsulates, once. If \<open>tnA\<close> turns a payload into a
  transport datagram, and \<open>tnB\<close> holds the session linked to the current session of \<open>tnA\<close>, not yet
  expired, and has not seen the counter (nor moved too far beyond it), then \<open>tnB\<close> delivers the
  padded payload, of which the payload is a prefix, or reports a keepalive for an empty payload.
  Delivering the same datagram again, at any later time, is refused as a replay or as expired.\<close>

theorem transport_delivery:
  assumes "chacha_impl Ca" and "chacha_impl Cb" and "length outA < 2 ^ 63"
    and "encapsulate Ca fa tnA nA payload outA rngA = (Inr (Transport w), tnA', outA', rngA')"
    and "t_current tnA = Some sa" and "tunnel_inv tnB" and "clock_ok nB" and "linked sa tnB sb"
    and "session_age sb (max (now_ticks nB) (t_last_now tnB)) < REJECT_AFTER_TIME"
    and "replay_check (s_replay sb) (s_send_counter sa)" and "length w \<le> length outB + 32"
  shows "\<exists>tnB' outB'. decapsulate Cb fb tnB nB remote ul w outB rngB
      = (Inr (if payload = [] then Keepalive else Data (padded payload (t_mtu tnA))), tnB', outB', rngB)
    \<and> take (length payload) (padded payload (t_mtu tnA)) = payload
    \<and> (\<forall>nB2 out2. clock_ok nB2 \<longrightarrow>
         fst (decapsulate Cb fb tnB' nB2 remote2 ul2 w out2 rng2) \<in> {Inl Replay, Inl Expired})"
proof -
  let ?p = "padded payload (t_mtu tnA)"
  obtain s where "t_current tnA = Some s" "s_send_counter s < REJECT_AFTER_MESSAGES" "w = transport_wire s ?p"
    by (rule encapsulated_wire [OF assms(1,3,4)])
  then have w: "w = transport_wire sa ?p" and c: "s_send_counter sa < REJECT_AFTER_MESSAGES" using assms(5) by simp_all
  note l = assms(8) [unfolded linked_def]
  have len: "length ?p \<le> length outB" using assms(11) by (simp add: w)
  obtain S where S: "replay_inv (s_replay sb) S"
    using session_at_inv [OF assms(6) conjunct1 [OF l]] by blast
  obtain tnB' where d: "decapsulate Cb fb tnB nB remote ul (transport_wire sa ?p) outB rngB
       = (Inr (if ?p = [] then Keepalive else Data ?p), tnB', ?p @ drop (length ?p) outB, rngB)"
    "session_at tnB' (sk_peer_index (s_keys sa)) = Some (received_on sb (s_send_counter sa))" "tunnel_inv tnB'"
    by (rule receive_wire [OF assms(6,7,2) refl conjunct1 [OF l] conjunct2 [OF l] c assms(9,10) len])
  have "\<not> replay_check (s_replay (received_on sb (s_send_counter sa))) (s_send_counter sa)"
    using replay_check_admits [OF replay_accept_inv [OF S assms(10)]] by (simp add: received_on_def replay_admits_def)
  then have "fst (decapsulate Cb fb tnB' nB2 remote2 ul2 w out2 rng2) \<in> {Inl Replay, Inl Expired}"
    if "clock_ok nB2" for nB2 out2
    unfolding w by (rule replay_refused [OF d(3) that d(2) _ c])
  with d(1) show ?thesis by (auto simp: w padded_eq_nil) (simp_all add: padded_def)
qed

lemma encapsulate_sends:
  assumes "chacha_impl C" and "length out < 2 ^ 63" and "t_current tn = Some s"
    and "usable_for_send s (max (now_ticks n) (t_last_now tn))" and "padded_len (length payload) (t_mtu tn) + 32 \<le> length out"
  shows "\<exists>tn' out'. encapsulate C fill tn n payload out rng =
    (Inr (Transport (transport_wire s (padded payload (t_mtu tn)))), tn', out', rng)"
  using assms(3-5)
  by (auto simp: encapsulate_def clamp_now_eq is_some_and_def usable_for_send_def encapsulate_transport_eq [OF assms(1,2)] Let_def)

definition listener_session :: session where
  "listener_session = session_new \<lparr> sk_send = replicate 32 2, sk_recv = replicate 32 1, sk_local_index = 2, sk_peer_index = 1,
     sk_is_initiator = True \<rparr> 0"

definition listener :: tunnel where
  "listener = example_tn0\<lparr> t_current := Some listener_session \<rparr>"

lemma listener_ok: "tunnel_inv listener" "linked (session_new sleeper_keys 0) listener listener_session"
  using tunnel_fresh_inv [OF example_config_ok, of "replicate 32 3"] replay_new_inv
  by (auto simp: listener_def listener_session_def example_tn0_def tunnel_inv_def sessions_inv_def timers_inv_def index_list_eq
      timers_default_def tunnel_fresh_def session_ok_def session_new_def linked_def session_at_def session_with_index_def
      is_some_and_def sleeper_keys_def Let_def)

theorem transport_delivery_witness:
  "\<exists>w tnA' outA' tnB' outB'.
     encapsulate scalar_apply_keystream const_fill sleeper (example_now 0) [1, 2, 3] (replicate 48 0) () = (Inr (Transport w), tnA', outA', ())
     \<and> decapsulate scalar_apply_keystream const_fill listener (example_now 1) [] False w (replicate 16 0) ()
         = (Inr (Data ([1, 2, 3] @ replicate 13 0)), tnB', outB', ())"
proof -
  let ?w = "transport_wire (session_new sleeper_keys 0) ([1, 2, 3] @ replicate 13 0)"
  have a: "t_current sleeper = Some (session_new sleeper_keys 0)" "t_mtu sleeper = None" "t_last_now sleeper = 0"
    "t_last_now listener = 0"
    by (simp_all add: sleeper_def listener_def example_tn0_def tunnel_fresh_def example_config_def config_new_def Let_def)
  have p: "padded_len (length [1, 2, 3 :: u8]) None = 16" "padded [1, 2, 3] None = [1, 2, 3] @ replicate 13 0" by code_simp+
  obtain tnA' outA' where e:
    "encapsulate scalar_apply_keystream const_fill sleeper (example_now 0) [1, 2, 3] (replicate 48 0) () = (Inr (Transport ?w), tnA', outA', ())"
    using encapsulate_sends [OF scalar.chacha_impl_axioms _ a(1), of "replicate 48 0" "example_now 0" "[1, 2, 3]" const_fill "()"]
      sleeper_usable p by (auto simp: a example_now_def)
  have "\<exists>tnB' outB'. decapsulate scalar_apply_keystream const_fill listener (example_now 1) [] False ?w (replicate 16 0) ()
      = (Inr (if [1, 2, 3 :: u8] = [] then Keepalive else Data (padded [1, 2, 3] (t_mtu sleeper))), tnB', outB', ())"
    using transport_delivery [OF scalar.chacha_impl_axioms scalar.chacha_impl_axioms _ e a(1) listener_ok(1) _ listener_ok(2),
        of "example_now 1" "replicate 16 0" const_fill "[]" False "()"]
    by (simp add: example_now_def clock_ok_def a session_age_def since_def saturating_sub_def listener_session_def session_new_def
        REJECT_AFTER_TIME_def SECOND_def replay_check_def replay_new_def REJECT_AFTER_MESSAGES_def) blast
  with e show ?thesis by (auto simp: a p)
qed

end
