(* ===== verification/Tunnel_Buffer.thy ===== *)
theory Tunnel_Buffer
  imports Tunnel_Trace
begin

text \<open>
  The contract of the caller's output buffer, for every operation of \<open>tunnel.rs\<close> that takes one: a
  datagram or plaintext that is returned lies at the start of the buffer, the rest of the buffer is as
  before, and without one the buffer is untouched.
\<close>

fun encapsulated_bytes :: "encapsulated result \<Rightarrow> bytes option" where
  "encapsulated_bytes (Inr (Transport w)) = Some w"
| "encapsulated_bytes (Inr (EncapInitiation w)) = Some w"
| "encapsulated_bytes (Inl _) = None"

fun received_bytes :: "received result \<Rightarrow> bytes option" where
  "received_bytes (Inr (Data d)) = Some d"
| "received_bytes (Inr (Reply w)) = Some w"
| "received_bytes _ = None"

fun polled_bytes :: "poll_output result \<Rightarrow> bytes option" where
  "polled_bytes (Inr (Send w _)) = Some w"
| "polled_bytes _ = None"

lemma wrote_None [simp]: "wrote None out out' \<longleftrightarrow> out' = out"
  by (simp add: wrote_def)

lemma wrote_Some: "wrote (Some w) out out' \<longleftrightarrow> length w \<le> length out \<and> out' = w @ drop (length w) out"
  by (simp add: wrote_def)

lemma wrote_length: "wrote w out out' \<Longrightarrow> length out' = length out"
  by (auto simp: wrote_def split: option.splits)

subsection \<open>Sending\<close>

text \<open>What the initiation needs of the tunnel: fields of the right size.\<close>

definition sendable :: "tunnel \<Rightarrow> bool" where
  "sendable tn \<longleftrightarrow> length (t_local_public tn) = 32 \<and> (\<forall>n. length (tai_bytes (outbound_timestamp tn n)) = 12)"

lemma sendable_inv: "tunnel_inv tn \<Longrightarrow> sendable tn"
  by (simp add: sendable_def inv_length_public tai_wf_outbound)

lemma sendable_irrelevant [simp]:
  "sendable (tn\<lparr> t_timers := tm \<rparr>) = sendable tn" "sendable (tn\<lparr> t_inflight := i \<rparr>) = sendable tn"
  "sendable (tn\<lparr> t_last_now := t \<rparr>) = sendable tn" "sendable (tn\<lparr> t_next := s \<rparr>) = sendable tn"
  by (simp_all add: sendable_def outbound_timestamp_def)

lemma send_initiation_out:
  assumes "sendable tn" and "send_initiation fill tn n out rng td = (r, tn', out', rng')"
  shows "r = Inl e \<Longrightarrow> out' = out" and "r = Inr k \<Longrightarrow> k = 148 \<and> 148 \<le> length out \<and> wrote (Some (take 148 out')) out out'"
proof -
  have l: "length (t_local_public tn) = 32" "length (tai_bytes (outbound_timestamp tn n)) = 12"
    using assms(1) by (simp_all add: sendable_def)
  have "(r = Inl e \<longrightarrow> out' = out) \<and> (r = Inr k \<longrightarrow> k = 148 \<and> 148 \<le> length out \<and> wrote (Some (take 148 out')) out out')"
  proof (cases rule: send_initiation_cases [OF l, of fill out rng td, consumes 0, case_names err ok])
    case (ok index eph jitter im rng')
    then show ?thesis using assms(2) by (auto simp: wrote_Some)
  qed (use assms(2) in auto)
  then show "r = Inl e \<Longrightarrow> out' = out" "r = Inr k \<Longrightarrow> k = 148 \<and> 148 \<le> length out \<and> wrote (Some (take 148 out')) out out'" by auto
qed

lemma poll_initiate_out:
  assumes "sendable tn" and "poll_initiate fill reason tn n out rng = (r, tn', out', rng')"
  shows "wrote (polled_bytes r) out out'"
proof -
  obtain r1 tn1 out1 rng1 where s: "send_initiation fill tn n out rng True = (r1, tn1, out1, rng1)" by (metis prod_cases4)
  show ?thesis
    using send_initiation_out [OF assms(1) s] assms(2) s
    by (cases r1) (auto simp: poll_initiate_def get_to_def wrote_Some)
qed

lemma poll_keepalive_out:
  assumes "chacha_impl C" and "length out < 2 ^ 63" and "poll_keepalive C reason tn n out rng = (r, tn', out', rng')"
  shows "wrote (polled_bytes r) out out'"
  using assms(3)
  by (auto simp: poll_keepalive_def send_keepalive_eq [OF assms(1,2)] wrote_Some split: if_splits option.splits)

lemma poll_persistent_out:
  assumes "sendable tn" and "chacha_impl C" and "length out < 2 ^ 63"
    and "poll_persistent C fill usable tn n out rng = (r, tn', out', rng')"
  shows "wrote (polled_bytes r) out out'"
  using assms(1,4) unfolding poll_persistent_def Let_def
  by (auto split: option.splits if_splits intro: poll_keepalive_out [OF assms(2,3)] poll_initiate_out [rotated])

lemma poll_passive_out:
  assumes "sendable tn" and "chacha_impl C" and "length out < 2 ^ 63"
    and "poll_passive C fill usable tn n out rng = (r, tn', out', rng')"
  shows "wrote (polled_bytes r) out out'"
  using assms(1,4) unfolding poll_passive_def
  by (auto split: if_splits intro: poll_keepalive_out [OF assms(2,3)] poll_persistent_out [OF _ assms(2,3), rotated])

lemma poll_confirm_out:
  assumes "sendable tn" and "chacha_impl C" and "length out < 2 ^ 63"
    and "poll_confirm C fill tn n out rng = (r, tn', out', rng')"
  shows "wrote (polled_bytes r) out out'"
  using assms(1,4) unfolding poll_confirm_def Let_def
  by (auto split: if_splits intro: poll_keepalive_out [OF assms(2,3)] poll_passive_out [OF _ assms(2,3), rotated])

lemma poll_dead_peer_out:
  assumes "sendable tn" and "chacha_impl C" and "length out < 2 ^ 63"
    and "poll_dead_peer C fill tn n out rng = (r, tn', out', rng')"
  shows "wrote (polled_bytes r) out out'"
  using assms(1,4) unfolding poll_dead_peer_def
  by (auto split: if_splits intro: poll_initiate_out [rotated] poll_confirm_out [OF _ assms(2,3), rotated])

lemma poll_rekey_out:
  assumes "sendable tn" and "chacha_impl C" and "length out < 2 ^ 63"
    and "poll_rekey C fill tn n out rng = (r, tn', out', rng')"
  shows "wrote (polled_bytes r) out out'"
  using assms(1,4) unfolding poll_rekey_def
  by (auto split: if_splits intro: poll_initiate_out [rotated] poll_dead_peer_out [OF _ assms(2,3), rotated])

lemma poll_retransmit_out:
  assumes "sendable tn" and "chacha_impl C" and "length out < 2 ^ 63"
    and "poll_retransmit C fill tn n out rng = (r, tn', out', rng')"
  shows "wrote (polled_bytes r) out out'"
  using assms(1,4) unfolding poll_retransmit_def
  by (auto split: if_splits intro: poll_initiate_out [rotated] poll_rekey_out [OF _ assms(2,3), rotated])

lemma poll_out:
  assumes "tunnel_inv tn" and "chacha_impl C" and "length out < 2 ^ 63"
    and "poll C fill tn n out rng = (r, tn', out', rng')"
  shows "wrote (polled_bytes r) out out'"
proof -
  have "sendable (expire_next (tn\<lparr> t_last_now := t \<rparr>) t')" for t t'
    using sendable_inv [OF assms(1)] by (simp add: expire_next_def)
  with assms(4) show ?thesis
    by (auto simp: poll_def clamp_now_eq Let_def split: if_splits intro: poll_retransmit_out [OF _ assms(2,3), rotated])
qed

lemma encapsulate_out:
  assumes "tunnel_inv tn" and "chacha_impl C" and "length out < 2 ^ 63"
    and "encapsulate C fill tn n payload out rng = (r, tn', out', rng')"
  shows "wrote (encapsulated_bytes r) out out'"
proof -
  define tn1 n1 where "tn1 = tn\<lparr> t_last_now := max (now_ticks n) (t_last_now tn) \<rparr>"
    and "n1 = n\<lparr> now_ticks := max (now_ticks n) (t_last_now tn) \<rparr>"
  have s: "sendable (upd_timers f tn1)" for f using sendable_inv [OF assms(1)] by (simp add: tn1_def)
  have i: "wrote (encapsulated_bytes r) out out'" if e: "encapsulate_initiate fill tn1 n1 out rng = (r, tn', out', rng')"
  proof -
    let ?t = "upd_timers (\<lambda>tm. tm\<lparr> attempt_started := None \<rparr>) (upd_timers (\<lambda>tm. tm\<lparr> gave_up := False \<rparr>) tn1)"
    obtain r1 tn2 out2 rng2 where si: "send_initiation fill ?t n1 out rng False = (r1, tn2, out2, rng2)" by (metis prod_cases4)
    show ?thesis
      using send_initiation_out [OF _ si] s e si
      by (cases r1) (auto simp: encapsulate_initiate_def Let_def get_to_def wrote_Some split: if_splits)
  qed
  have t: "wrote (encapsulated_bytes r) out out'" if "encapsulate_transport C tn1 n1 payload out = (r, tn', out')"
    using that transport_total(2) [OF assms(3), of "length payload" "t_mtu tn1"]
    by (auto simp: encapsulate_transport_eq [OF assms(2,3)] wrote_Some length_padded split: if_splits option.splits)
  show ?thesis
    using assms(4) i t
    by (auto simp: encapsulate_def clamp_now_eq tn1_def [symmetric] n1_def [symmetric] Let_def split: if_splits prod.splits)
qed

lemma initiate_handshake_out:
  assumes "tunnel_inv tn" and "initiate_handshake fill tn n out rng = (r, tn', out', rng')"
  shows "wrote (case r of Inr w \<Rightarrow> Some w | Inl _ \<Rightarrow> None) out out'"
proof -
  define tn1 n1 where "tn1 = upd_timers (\<lambda>tm. tm\<lparr> gave_up := False, attempt_started := None \<rparr>)
      (tn\<lparr> t_last_now := max (now_ticks n) (t_last_now tn) \<rparr>)"
    and "n1 = n\<lparr> now_ticks := max (now_ticks n) (t_last_now tn) \<rparr>"
  have s: "sendable tn1" using sendable_inv [OF assms(1)] by (simp add: tn1_def)
  obtain r1 tn2 out2 rng2 where si: "send_initiation fill tn1 n1 out rng False = (r1, tn2, out2, rng2)" by (metis prod_cases4)
  have "initiate_handshake fill tn n out rng =
      (if \<not> initiation_allowed (t_timers tn) (now_ticks n1)
       then (Inl HandshakeRateLimited, tn\<lparr> t_last_now := max (now_ticks n) (t_last_now tn) \<rparr>, out, rng)
       else case send_initiation fill tn1 n1 out rng False of
           (Inl e, tn, out, rng) \<Rightarrow> (Inl e, tn, out, rng)
         | (Inr k, tn, out, rng) \<Rightarrow> (ok_or Internal (get_to k out), tn, out, rng))"
    by (simp add: initiate_handshake_def clamp_now_eq tn1_def n1_def Let_def)
  with send_initiation_out [OF s si] assms(2) si show ?thesis
    by (cases r1) (auto simp: get_to_def wrote_Some split: if_splits)
qed

subsection \<open>Receiving\<close>

lemma handle_initiation_out:
  "handle_initiation fill tn n remote ul m out rng = (r, tn', out', rng') \<Longrightarrow> wrote (received_bytes r) out out'"
  by (cases rule: handle_initiation_cases [of fill tn n remote ul m out rng]) (auto simp del: packet_bytes.simps)

lemma handle_response_out:
  "handle_response fill tn n remote ul m out rng = (r, tn', out', rng') \<Longrightarrow> wrote (received_bytes r) out out'"
  by (cases rule: handle_response_cases [of fill tn n remote ul m out rng]) auto

lemma handle_cookie_reply_bytes: "handle_cookie_reply tn n m = (r, tn') \<Longrightarrow> received_bytes r = None"
  by (cases rule: handle_cookie_reply_cases [of tn n m]) auto

lemma handle_transport_out:
  assumes "chacha_impl C" and "handle_transport C tn n m out = (r, tn', out')"
  shows "wrote (received_bytes r) out out'"
proof (cases rule: handle_transport_cases [of C tn n m out])
  case (ok sl s out1)
  let ?k = "length (td_ciphertext m) - 16"
  note a = transport_accepted_state [OF ok(9) [symmetric, unfolded assms(2)]]
  have "length (C (sk_recv (s_keys s)) (nonce_from_counter (td_counter m)) 1 (take ?k (td_ciphertext m))) = ?k"
    using chacha_impl.keystream_length [OF assms(1)] by simp
  then have o: "out1 = take ?k out1 @ drop ?k out" "?k \<le> length out1"
    using ok(7,8) by (auto simp: put_def)
  then show ?thesis using a(2,3) ok(7) by (cases "?k = 0") (auto simp: wrote_Some)
qed (use assms(2) in auto)

lemma decapsulate_out:
  assumes "chacha_impl C" and "decapsulate C fill tn n remote ul d out rng = (r, tn', out', rng')"
  shows "wrote (received_bytes r) out out'"
  using assms(2)
  by (auto simp: decapsulate_def clamp_now_eq handle_cookie_reply_bytes Let_def split: sum.splits packet.splits prod.splits
      intro: handle_initiation_out handle_response_out handle_transport_out [OF assms(1)])

end
