(* ===== verification/Simd.thy ===== *)
theory Simd
  imports ChaCha20
begin

text \<open>
  \<open>src/simd/src\<close>: the vectorised ChaCha20 backends \<open>Neon\<close>, \<open>Avx2\<close> and \<open>Avx2x8\<close>. A 128-bit vector
  is the list of its four 32-bit lanes, lowest lane first, and a 256-bit vector is the pair of its
  128-bit halves, on which the AVX2 instructions work separately. The intrinsics of \<open>core::arch\<close>
  that the code uses are defined on these lists, one definition for each, with the reinterpreting
  casts as conversions to bytes, 16-bit or 64-bit lanes. The round function, which all three
  backends write in the same words over their own instructions, is shared: \<open>simd_ops\<close> holds the
  instructions that a backend's \<open>qr!\<close> macro uses.
\<close>

subsection \<open>Shared helpers (\<open>lib.rs\<close>)\<close>

definition simd_SIGMA :: "u32 list" where
  "simd_SIGMA = [0x61707865, 0x3320646e, 0x79622d32, 0x6b206574]"

definition simd_key_words :: "bytes \<Rightarrow> u32 list" where
  "simd_key_words key = zip_copy (replicate 8 0) (map from_le (chunks_exact 4 key))"

definition simd_nonce_words :: "bytes \<Rightarrow> u32 list" where
  "simd_nonce_words nonce = zip_copy (replicate 3 0) (map from_le (chunks_exact 4 nonce))"

definition xor_tail :: "bytes \<Rightarrow> bytes \<Rightarrow> bytes" where
  "xor_tail buf ks = map2 (\<lambda>b k. b XOR k) buf ks @ drop (length ks) buf"

subsection \<open>The round function\<close>

record 'v simd_ops =
  v_add :: "'v \<Rightarrow> 'v \<Rightarrow> 'v"
  v_xor :: "'v \<Rightarrow> 'v \<Rightarrow> 'v"
  v_rotl16 :: "'v \<Rightarrow> 'v"
  v_rotl12 :: "'v \<Rightarrow> 'v"
  v_rotl8 :: "'v \<Rightarrow> 'v"
  v_rotl7 :: "'v \<Rightarrow> 'v"

definition simd_quarter :: "'v simd_ops \<Rightarrow> 'v \<Rightarrow> 'v \<Rightarrow> 'v \<Rightarrow> 'v \<Rightarrow> 'v \<times> 'v \<times> 'v \<times> 'v" where
  "simd_quarter V a b c d =
     (let a = v_add V a b; d = v_rotl16 V (v_xor V d a);
          c = v_add V c d; b = v_rotl12 V (v_xor V b c);
          a = v_add V a b; d = v_rotl8 V (v_xor V d a);
          c = v_add V c d; b = v_rotl7 V (v_xor V b c)
      in (a, b, c, d))"

definition simd_qr :: "'v simd_ops \<Rightarrow> nat \<Rightarrow> nat \<Rightarrow> nat \<Rightarrow> nat \<Rightarrow> 'v list \<Rightarrow> 'v list" where
  "simd_qr V a b c d x =
     (let (xa, xb, xc, xd) = simd_quarter V (x ! a) (x ! b) (x ! c) (x ! d)
      in x[a := xa, b := xb, c := xc, d := xd])"

definition simd_double_round :: "'v simd_ops \<Rightarrow> 'v list \<Rightarrow> 'v list" where
  "simd_double_round V x =
     (let x = simd_qr V 0 4 8 12 x; x = simd_qr V 1 5 9 13 x; x = simd_qr V 2 6 10 14 x; x = simd_qr V 3 7 11 15 x;
          x = simd_qr V 0 5 10 15 x; x = simd_qr V 1 6 11 12 x; x = simd_qr V 2 7 8 13 x
      in simd_qr V 3 4 9 14 x)"

text \<open>The ten double rounds and the feed-forward \<open>x0 = add(x0, s0) \<dots> x15 = add(x15, s15)\<close>.\<close>

definition simd_rounds :: "'v simd_ops \<Rightarrow> 'v list \<Rightarrow> 'v list" where
  "simd_rounds V s = map2 (v_add V) ((simd_double_round V ^^ 10) s) s"

subsection \<open>128-bit vectors\<close>

type_synonym m128 = "u32 list"

definition vec_bytes :: "m128 \<Rightarrow> bytes" where
  "vec_bytes v = concat (map (le_bytes 4) v)"

definition vec_of_bytes :: "bytes \<Rightarrow> m128" where
  "vec_of_bytes bs = map from_le (chunks_exact 4 bs)"

text \<open>The instructions of \<open>four_blocks\<close> in \<open>avx2.rs\<close>.\<close>

definition mm_set1_epi32 :: "u32 \<Rightarrow> m128" where
  "mm_set1_epi32 x = replicate 4 x"

definition mm_set_epi32 :: "u32 \<Rightarrow> u32 \<Rightarrow> u32 \<Rightarrow> u32 \<Rightarrow> m128" where
  "mm_set_epi32 e3 e2 e1 e0 = [e0, e1, e2, e3]"

definition mm_add_epi32 :: "m128 \<Rightarrow> m128 \<Rightarrow> m128" where
  "mm_add_epi32 a b = map2 (+) a b"

definition mm_xor_si128 :: "m128 \<Rightarrow> m128 \<Rightarrow> m128" where
  "mm_xor_si128 a b = map2 (XOR) a b"

definition mm_or_si128 :: "m128 \<Rightarrow> m128 \<Rightarrow> m128" where
  "mm_or_si128 a b = map2 (OR) a b"

definition mm_slli_epi32 :: "m128 \<Rightarrow> nat \<Rightarrow> m128" where
  "mm_slli_epi32 v n = map (push_bit n) v"

definition mm_srli_epi32 :: "m128 \<Rightarrow> nat \<Rightarrow> m128" where
  "mm_srli_epi32 v n = map (drop_bit n) v"

text \<open>A mask byte with its top bit set gives a zero, otherwise its low four bits select a byte.\<close>

definition mm_shuffle_epi8 :: "m128 \<Rightarrow> bytes \<Rightarrow> m128" where
  "mm_shuffle_epi8 v msk =
     vec_of_bytes (map (\<lambda>m. if bit m 7 then 0 else vec_bytes v ! unat (m AND 15)) msk)"

definition mm_unpacklo_epi32 :: "m128 \<Rightarrow> m128 \<Rightarrow> m128" where
  "mm_unpacklo_epi32 a b = [a ! 0, b ! 0, a ! 1, b ! 1]"

definition mm_unpackhi_epi32 :: "m128 \<Rightarrow> m128 \<Rightarrow> m128" where
  "mm_unpackhi_epi32 a b = [a ! 2, b ! 2, a ! 3, b ! 3]"

definition mm_unpacklo_epi64 :: "m128 \<Rightarrow> m128 \<Rightarrow> m128" where
  "mm_unpacklo_epi64 a b = [a ! 0, a ! 1, b ! 0, b ! 1]"

definition mm_unpackhi_epi64 :: "m128 \<Rightarrow> m128 \<Rightarrow> m128" where
  "mm_unpackhi_epi64 a b = [a ! 2, a ! 3, b ! 2, b ! 3]"

text \<open>\<open>_mm_set_epi8\<close> lists the highest byte first.\<close>

definition rol16_mask :: bytes where
  "rol16_mask = rev [13, 12, 15, 14, 9, 8, 11, 10, 5, 4, 7, 6, 1, 0, 3, 2]"

definition rol8_mask :: bytes where
  "rol8_mask = rev [14, 13, 12, 15, 10, 9, 8, 11, 6, 5, 4, 7, 2, 1, 0, 3]"

definition avx2_ops :: "m128 simd_ops" where
  "avx2_ops = \<lparr> v_add = mm_add_epi32, v_xor = mm_xor_si128,
     v_rotl16 = (\<lambda>v. mm_shuffle_epi8 v rol16_mask),
     v_rotl12 = (\<lambda>v. mm_or_si128 (mm_slli_epi32 v 12) (mm_srli_epi32 v 20)),
     v_rotl8 = (\<lambda>v. mm_shuffle_epi8 v rol8_mask),
     v_rotl7 = (\<lambda>v. mm_or_si128 (mm_slli_epi32 v 7) (mm_srli_epi32 v 25)) \<rparr>"

definition avx2_transpose4 :: "m128 \<Rightarrow> m128 \<Rightarrow> m128 \<Rightarrow> m128 \<Rightarrow> m128 list" where
  "avx2_transpose4 a b c d =
     (let t0 = mm_unpacklo_epi32 a b; t1 = mm_unpacklo_epi32 c d;
          t2 = mm_unpackhi_epi32 a b; t3 = mm_unpackhi_epi32 c d
      in [mm_unpacklo_epi64 t0 t1, mm_unpackhi_epi64 t0 t1, mm_unpacklo_epi64 t2 t3, mm_unpackhi_epi64 t2 t3])"

text \<open>Sixteen registers transposed in groups of four, and the sequence of stores \<open>store!(off, x)\<close>
  into the zeroed output array.\<close>

definition transpose_groups :: "('v \<Rightarrow> 'v \<Rightarrow> 'v \<Rightarrow> 'v \<Rightarrow> 'v list) \<Rightarrow> 'v list \<Rightarrow> 'v list" where
  "transpose_groups f x =
     f (x ! 0) (x ! 1) (x ! 2) (x ! 3) @ f (x ! 4) (x ! 5) (x ! 6) (x ! 7)
     @ f (x ! 8) (x ! 9) (x ! 10) (x ! 11) @ f (x ! 12) (x ! 13) (x ! 14) (x ! 15)"

definition store_all :: "(nat \<times> bytes) list \<Rightarrow> bytes \<Rightarrow> bytes" where
  "store_all sts out = fold (\<lambda>(off, bs). put off bs) sts out"

definition store_order :: "nat list" where
  "store_order = [0, 4, 8, 12, 1, 5, 9, 13, 2, 6, 10, 14, 3, 7, 11, 15]"

definition store_four :: "m128 list \<Rightarrow> bytes" where
  "store_four x =
     store_all (zip (map (\<lambda>k. 16 * k) [0..<16]) (map (\<lambda>i. vec_bytes (x ! i)) store_order)) (replicate 256 0)"

definition avx2_four_blocks :: "u32 list \<Rightarrow> u32 list \<Rightarrow> u32 \<Rightarrow> bytes" where
  "avx2_four_blocks key nonce ctr =
     (let s = map mm_set1_epi32 simd_SIGMA @ map mm_set1_epi32 key
              @ [mm_set_epi32 (ctr + 3) (ctr + 2) (ctr + 1) ctr] @ map mm_set1_epi32 nonce;
          x = simd_rounds avx2_ops s
      in store_four (transpose_groups avx2_transpose4 x))"

subsection \<open>NEON\<close>

definition vdupq_n_u32 :: "u32 \<Rightarrow> m128" where
  "vdupq_n_u32 x = replicate 4 x"

definition vaddq_u32 :: "m128 \<Rightarrow> m128 \<Rightarrow> m128" where
  "vaddq_u32 a b = map2 (+) a b"

definition veorq_u32 :: "m128 \<Rightarrow> m128 \<Rightarrow> m128" where
  "veorq_u32 a b = map2 (XOR) a b"

definition vreinterpretq_u16_u32 :: "m128 \<Rightarrow> u16 list" where
  "vreinterpretq_u16_u32 v = concat (map (\<lambda>w. [ucast w, ucast (drop_bit 16 w)]) v)"

text \<open>\<open>vrev32q_u16\<close> reverses the two 16-bit lanes of each 32-bit word.\<close>

fun vrev32q_u16 :: "u16 list \<Rightarrow> u16 list" where
  "vrev32q_u16 (a # b # h) = b # a # vrev32q_u16 h"
| "vrev32q_u16 h = h"

fun vreinterpretq_u32_u16 :: "u16 list \<Rightarrow> m128" where
  "vreinterpretq_u32_u16 (a # b # h) = (ucast a OR push_bit 16 (ucast b)) # vreinterpretq_u32_u16 h"
| "vreinterpretq_u32_u16 h = []"

text \<open>\<open>vqtbl1q_u8\<close>: a table lookup, out-of-range indices give zero.\<close>

definition vqtbl1q_u8 :: "bytes \<Rightarrow> bytes \<Rightarrow> bytes" where
  "vqtbl1q_u8 t idx = map (\<lambda>i. if unat i < 16 then t ! unat i else 0) idx"

definition vshrq_n_u32 :: "m128 \<Rightarrow> nat \<Rightarrow> m128" where
  "vshrq_n_u32 v n = map (drop_bit n) v"

text \<open>\<open>vsliq_n_u32\<close>: shift left and insert, keeping the low \<open>n\<close> bits of the first operand.\<close>

definition vsliq_n_u32 :: "m128 \<Rightarrow> m128 \<Rightarrow> nat \<Rightarrow> m128" where
  "vsliq_n_u32 a b n = map2 (\<lambda>x y. (x AND mask n) OR push_bit n y) a b"

definition rol8_idx :: bytes where
  "rol8_idx = [3, 0, 1, 2, 7, 4, 5, 6, 11, 8, 9, 10, 15, 12, 13, 14]"

definition neon_ops :: "m128 simd_ops" where
  "neon_ops = \<lparr> v_add = vaddq_u32, v_xor = veorq_u32,
     v_rotl16 = (\<lambda>v. vreinterpretq_u32_u16 (vrev32q_u16 (vreinterpretq_u16_u32 v))),
     v_rotl12 = (\<lambda>v. vsliq_n_u32 (vshrq_n_u32 v 20) v 12),
     v_rotl8 = (\<lambda>v. vec_of_bytes (vqtbl1q_u8 (vec_bytes v) rol8_idx)),
     v_rotl7 = (\<lambda>v. vsliq_n_u32 (vshrq_n_u32 v 25) v 7) \<rparr>"

definition vtrnq_u32 :: "m128 \<Rightarrow> m128 \<Rightarrow> m128 \<times> m128" where
  "vtrnq_u32 a b = ([a ! 0, b ! 0, a ! 2, b ! 2], [a ! 1, b ! 1, a ! 3, b ! 3])"

definition vreinterpretq_u64_u32 :: "m128 \<Rightarrow> u64 list" where
  "vreinterpretq_u64_u32 v =
     [ucast (v ! 0) OR push_bit 32 (ucast (v ! 1)), ucast (v ! 2) OR push_bit 32 (ucast (v ! 3))]"

definition vreinterpretq_u32_u64 :: "u64 list \<Rightarrow> m128" where
  "vreinterpretq_u32_u64 v = concat (map (\<lambda>w. [ucast w, ucast (drop_bit 32 w)]) v)"

definition vtrn1q_u64 :: "u64 list \<Rightarrow> u64 list \<Rightarrow> u64 list" where
  "vtrn1q_u64 a b = [a ! 0, b ! 0]"

definition vtrn2q_u64 :: "u64 list \<Rightarrow> u64 list \<Rightarrow> u64 list" where
  "vtrn2q_u64 a b = [a ! 1, b ! 1]"

definition neon_transpose4 :: "m128 \<Rightarrow> m128 \<Rightarrow> m128 \<Rightarrow> m128 \<Rightarrow> m128 list" where
  "neon_transpose4 a b c d =
     (let ab = vtrnq_u32 a b; cd = vtrnq_u32 c d;
          ac0 = vtrn1q_u64 (vreinterpretq_u64_u32 (fst ab)) (vreinterpretq_u64_u32 (fst cd));
          ac1 = vtrn2q_u64 (vreinterpretq_u64_u32 (fst ab)) (vreinterpretq_u64_u32 (fst cd));
          bd0 = vtrn1q_u64 (vreinterpretq_u64_u32 (snd ab)) (vreinterpretq_u64_u32 (snd cd));
          bd1 = vtrn2q_u64 (vreinterpretq_u64_u32 (snd ab)) (vreinterpretq_u64_u32 (snd cd))
      in [vreinterpretq_u32_u64 ac0, vreinterpretq_u32_u64 bd0, vreinterpretq_u32_u64 ac1, vreinterpretq_u32_u64 bd1])"

definition neon_four_blocks :: "u32 list \<Rightarrow> u32 list \<Rightarrow> u32 \<Rightarrow> bytes" where
  "neon_four_blocks key nonce ctr =
     (let s = map vdupq_n_u32 simd_SIGMA @ map vdupq_n_u32 key
              @ [ [ctr, ctr + 1, ctr + 2, ctr + 3] ] @ map vdupq_n_u32 nonce;
          x = simd_rounds neon_ops s
      in store_four (transpose_groups neon_transpose4 x))"

subsection \<open>256-bit vectors\<close>

type_synonym m256 = "m128 \<times> m128"

definition mm256_set1_epi32 :: "u32 \<Rightarrow> m256" where
  "mm256_set1_epi32 x = (replicate 4 x, replicate 4 x)"

text \<open>The AVX2 instructions used here work on the two 128-bit halves separately.\<close>

definition both :: "(m128 \<Rightarrow> m128) \<Rightarrow> m256 \<Rightarrow> m256" where
  "both f v = (f (fst v), f (snd v))"

definition both2 :: "(m128 \<Rightarrow> m128 \<Rightarrow> m128) \<Rightarrow> m256 \<Rightarrow> m256 \<Rightarrow> m256" where
  "both2 f v w = (f (fst v) (fst w), f (snd v) (snd w))"

definition avx2x8_ops :: "m256 simd_ops" where
  "avx2x8_ops = \<lparr> v_add = both2 mm_add_epi32, v_xor = both2 mm_xor_si128,
     v_rotl16 = both (\<lambda>v. mm_shuffle_epi8 v rol16_mask),
     v_rotl12 = (\<lambda>v. both2 mm_or_si128 (both (\<lambda>v. mm_slli_epi32 v 12) v) (both (\<lambda>v. mm_srli_epi32 v 20) v)),
     v_rotl8 = both (\<lambda>v. mm_shuffle_epi8 v rol8_mask),
     v_rotl7 = (\<lambda>v. both2 mm_or_si128 (both (\<lambda>v. mm_slli_epi32 v 7) v) (both (\<lambda>v. mm_srli_epi32 v 25) v)) \<rparr>"

definition avx2x8_transpose4 :: "m256 \<Rightarrow> m256 \<Rightarrow> m256 \<Rightarrow> m256 \<Rightarrow> m256 list" where
  "avx2x8_transpose4 a b c d =
     (let t0 = both2 mm_unpacklo_epi32 a b; t1 = both2 mm_unpacklo_epi32 c d;
          t2 = both2 mm_unpackhi_epi32 a b; t3 = both2 mm_unpackhi_epi32 c d
      in [both2 mm_unpacklo_epi64 t0 t1, both2 mm_unpackhi_epi64 t0 t1,
          both2 mm_unpacklo_epi64 t2 t3, both2 mm_unpackhi_epi64 t2 t3])"

text \<open>\<open>emit_block!\<close>: blocks 0 to 3 from the low halves, blocks 4 to 7 from the high halves.\<close>

definition store_eight :: "m256 list \<Rightarrow> bytes" where
  "store_eight x =
     store_all (zip (map (\<lambda>k. 16 * k) [0..<32])
        (map (\<lambda>i. vec_bytes (fst (x ! i))) store_order @ map (\<lambda>i. vec_bytes (snd (x ! i))) store_order))
       (replicate 512 0)"

definition avx2_eight_blocks :: "u32 list \<Rightarrow> u32 list \<Rightarrow> u32 \<Rightarrow> bytes" where
  "avx2_eight_blocks key nonce ctr =
     (let s = map mm256_set1_epi32 simd_SIGMA @ map mm256_set1_epi32 key
              @ [(mm_set_epi32 (ctr + 3) (ctr + 2) (ctr + 1) ctr, mm_set_epi32 (ctr + 7) (ctr + 6) (ctr + 5) (ctr + 4))]
              @ map mm256_set1_epi32 nonce;
          x = simd_rounds avx2x8_ops s
      in store_eight (transpose_groups avx2x8_transpose4 x))"

subsection \<open>\<open>apply_keystream\<close>\<close>

text \<open>The loop over the full strides: the output so far and the counter after it.\<close>

fun stride_loop :: "(u32 \<Rightarrow> bytes) \<Rightarrow> u32 \<Rightarrow> u32 \<Rightarrow> bytes list \<Rightarrow> bytes \<times> u32" where
  "stride_loop blocks width ctr [] = ([], ctr)"
| "stride_loop blocks width ctr (chunk # rest) =
     (let ks = blocks ctr; (out, ctr') = stride_loop blocks width (ctr + width) rest
      in (xor_tail chunk ks @ out, ctr'))"

definition neon_apply_keystream :: chacha_backend where
  "neon_apply_keystream key nonce counter buf =
     (let kw = simd_key_words key; nw = simd_nonce_words nonce;
          (out, ctr) = stride_loop (neon_four_blocks kw nw) 4 counter (chunks_exact 256 buf);
          tail = chunks_remainder 256 buf
      in out @ (if length tail \<ge> 64 then xor_tail tail (neon_four_blocks kw nw ctr)
                 else if tail \<noteq> [] then scalar_apply_keystream key nonce ctr tail else tail))"

definition avx2_apply_keystream :: chacha_backend where
  "avx2_apply_keystream key nonce counter buf =
     (let kw = simd_key_words key; nw = simd_nonce_words nonce;
          (out, ctr) = stride_loop (avx2_four_blocks kw nw) 4 counter (chunks_exact 256 buf);
          tail = chunks_remainder 256 buf
      in out @ (if length tail \<ge> 64 then xor_tail tail (avx2_four_blocks kw nw ctr)
                 else if tail \<noteq> [] then scalar_apply_keystream key nonce ctr tail else tail))"

definition avx2x8_apply_keystream :: chacha_backend where
  "avx2x8_apply_keystream key nonce counter buf =
     (let kw = simd_key_words key; nw = simd_nonce_words nonce;
          (out, ctr) = stride_loop (avx2_eight_blocks kw nw) 8 counter (chunks_exact 512 buf);
          tail = chunks_remainder 512 buf
      in out @ (if length tail \<ge> 256 then xor_tail tail (avx2_eight_blocks kw nw ctr)
                 else if length tail \<ge> 64 then xor_tail tail (avx2_four_blocks kw nw ctr)
                 else if tail \<noteq> [] then scalar_apply_keystream key nonce ctr tail else tail))"

text \<open>The alias \<open>Best\<close> and the names of the backends.\<close>

datatype target_arch = X86_64 | Aarch64 | Other_arch

fun simd_best :: "target_arch \<Rightarrow> chacha_backend" where
  "simd_best X86_64 = avx2x8_apply_keystream"
| "simd_best Aarch64 = neon_apply_keystream"
| "simd_best Other_arch = scalar_apply_keystream"

subsection \<open>The lanes of a vector computation\<close>

text \<open>Sixteen vectors \<open>x\<close> that hold the scalar states \<open>y j\<close>, one in each lane.\<close>

definition tracks :: "('v \<Rightarrow> bool) \<Rightarrow> (nat \<Rightarrow> 'v \<Rightarrow> u32) \<Rightarrow> nat \<Rightarrow> 'v list \<Rightarrow> (nat \<Rightarrow> u32 list) \<Rightarrow> bool" where
  "tracks vec_ok lane width x y \<longleftrightarrow>
     list_all vec_ok x \<and> length x = 16 \<and> (\<forall>j < width. map (lane j) x = y j)"

text \<open>What the instructions of a backend must do on each lane.\<close>

locale simd_lanes =
  fixes V :: "'v simd_ops" and vec_ok :: "'v \<Rightarrow> bool" and lane :: "nat \<Rightarrow> 'v \<Rightarrow> u32" and width :: nat
  assumes ok_ops: "vec_ok a \<Longrightarrow> vec_ok b \<Longrightarrow> vec_ok (v_add V a b)" "vec_ok a \<Longrightarrow> vec_ok b \<Longrightarrow> vec_ok (v_xor V a b)"
      "vec_ok a \<Longrightarrow> vec_ok (v_rotl16 V a)" "vec_ok a \<Longrightarrow> vec_ok (v_rotl12 V a)"
      "vec_ok a \<Longrightarrow> vec_ok (v_rotl8 V a)" "vec_ok a \<Longrightarrow> vec_ok (v_rotl7 V a)"
    and lane_add: "vec_ok a \<Longrightarrow> vec_ok b \<Longrightarrow> j < width \<Longrightarrow> lane j (v_add V a b) = lane j a + lane j b"
    and lane_xor: "vec_ok a \<Longrightarrow> vec_ok b \<Longrightarrow> j < width \<Longrightarrow> lane j (v_xor V a b) = lane j a XOR lane j b"
    and lane_rotl: "vec_ok a \<Longrightarrow> j < width \<Longrightarrow> lane j (v_rotl16 V a) = word_rotl 16 (lane j a)"
      "vec_ok a \<Longrightarrow> j < width \<Longrightarrow> lane j (v_rotl12 V a) = word_rotl 12 (lane j a)"
      "vec_ok a \<Longrightarrow> j < width \<Longrightarrow> lane j (v_rotl8 V a) = word_rotl 8 (lane j a)"
      "vec_ok a \<Longrightarrow> j < width \<Longrightarrow> lane j (v_rotl7 V a) = word_rotl 7 (lane j a)"
begin

lemma quarter_lane:
  assumes "vec_ok a" "vec_ok b" "vec_ok c" "vec_ok d" and "simd_quarter V a b c d = (a', b', c', d')"
  shows "vec_ok a' \<and> vec_ok b' \<and> vec_ok c' \<and> vec_ok d'"
    and "j < width \<Longrightarrow> quarter_round (lane j a) (lane j b) (lane j c) (lane j d) = (lane j a', lane j b', lane j c', lane j d')"
  using assms
  by (auto simp: simd_quarter_def quarter_round_def ok_ops lane_add lane_xor lane_rotl Let_def)

lemma qr_lane:
  assumes "list_all vec_ok x" and "a < length x" "b < length x" "c < length x" "d < length x"
  shows "list_all vec_ok (simd_qr V a b c d x)" and "length (simd_qr V a b c d x) = length x"
    and "j < width \<Longrightarrow> map (lane j) (simd_qr V a b c d x) = qr a b c d (map (lane j) x)"
proof -
  obtain a' b' c' d' where q: "simd_quarter V (x ! a) (x ! b) (x ! c) (x ! d) = (a', b', c', d')"
    by (metis prod_cases4)
  have ok: "vec_ok (x ! a)" "vec_ok (x ! b)" "vec_ok (x ! c)" "vec_ok (x ! d)" using assms by (simp_all add: list_all_length)
  note l = quarter_lane [OF ok q]
  show "list_all vec_ok (simd_qr V a b c d x)"
    using assms(1) l(1) by (auto simp: simd_qr_def q list_all_iff dest!: set_update_subset_insert [THEN subsetD])
  show "length (simd_qr V a b c d x) = length x" by (simp add: simd_qr_def q)
  show "map (lane j) (simd_qr V a b c d x) = qr a b c d (map (lane j) x)" if "j < width"
    using assms(2-5) l(2) [OF that] by (simp add: simd_qr_def qr_def q map_update)
qed

lemma tracks_qr:
  assumes "tracks vec_ok lane width x y" and "a < 16" "b < 16" "c < 16" "d < 16"
  shows "tracks vec_ok lane width (simd_qr V a b c d x) (\<lambda>j. qr a b c d (y j))"
  using assms qr_lane [of x a b c d] by (simp add: tracks_def)

lemma tracks_double_round:
  "tracks vec_ok lane width x y \<Longrightarrow> tracks vec_ok lane width (simd_double_round V x) (\<lambda>j. double_round (y j))"
  unfolding simd_double_round_def double_round_def Let_def by (intro tracks_qr) simp_all

lemma tracks_double_rounds:
  "tracks vec_ok lane width x y \<Longrightarrow> tracks vec_ok lane width ((simd_double_round V ^^ n) x) (\<lambda>j. (double_round ^^ n) (y j))"
  by (induction n) (simp_all add: tracks_double_round)

lemma rounds_lane:
  assumes "list_all vec_ok s" and "length s = 16" and "j < width"
  shows "map (lane j) (simd_rounds V s) = map2 (+) (permute (map (lane j) s)) (map (lane j) s)"
    and "list_all vec_ok (simd_rounds V s)" and "length (simd_rounds V s) = 16"
proof -
  let ?w = "(simd_double_round V ^^ 10) s"
  have w: "list_all vec_ok ?w" "length ?w = 16" "map (lane j) ?w = permute (map (lane j) s)"
    using tracks_double_rounds [of s "\<lambda>j. map (lane j) s" 10] assms by (simp_all add: tracks_def permute_def)
  show "map (lane j) (simd_rounds V s) = map2 (+) (permute (map (lane j) s)) (map (lane j) s)"
    unfolding simd_rounds_def w(3) [symmetric]
    by (rule nth_equalityI) (use assms w(1,2) in \<open>simp_all add: lane_add list_all_length\<close>)
  show "list_all vec_ok (simd_rounds V s)"
    using w(1,2) assms(1,2) by (simp add: simd_rounds_def ok_ops list_all_length)
  show "length (simd_rounds V s) = 16" using w assms by (simp add: simd_rounds_def)
qed

end

subsection \<open>The instructions rotate\<close>

lemma four_lanes: "length v = 4 \<Longrightarrow> v = [v ! 0, v ! 1, v ! 2, v ! 3]"
  by (auto simp: length_Suc_conv numeral_eq_Suc)

lemma chunks_exact_step: "length xs = n \<Longrightarrow> 0 < n \<Longrightarrow> chunks_exact n (xs @ ys) = xs # chunks_exact n ys"
  by (cases "xs = []") (simp_all add: chunks_exact_def chunks_step)

lemma chunks_exact_Nil [simp]: "chunks_exact n [] = []"
  by (simp add: chunks_exact_def)

lemma le_bytes_4: "le_bytes 4 (w :: u32) = [ucast w, ucast (drop_bit 8 w), ucast (drop_bit 16 w), ucast (drop_bit 24 w)]"
  by (simp add: numeral_eq_Suc)

lemma vec_bytes_4:
  "vec_bytes [a, b, c, d] = le_bytes 4 a @ le_bytes 4 b @ le_bytes 4 c @ le_bytes 4 d"
  by (simp add: vec_bytes_def)

lemma vec_of_bytes_4:
  "vec_of_bytes [b0, b1, b2, b3, b4, b5, b6, b7, b8, b9, b10, b11, b12, b13, b14, b15] =
     [from_le [b0, b1, b2, b3], from_le [b4, b5, b6, b7], from_le [b8, b9, b10, b11], from_le [b12, b13, b14, b15]]"
  using chunks_exact_step [of "[b0, b1, b2, b3]" 4 "[b4, b5, b6, b7, b8, b9, b10, b11, b12, b13, b14, b15]"]
    chunks_exact_step [of "[b4, b5, b6, b7]" 4 "[b8, b9, b10, b11, b12, b13, b14, b15]"]
    chunks_exact_step [of "[b8, b9, b10, b11]" 4 "[b12, b13, b14, b15]"]
    chunks_exact_step [of "[b12, b13, b14, b15]" 4 "[]"]
  by (simp add: vec_of_bytes_def)

lemma rotl_shifts:
  assumes "0 < n" and "n < 32"
  shows "push_bit n w OR drop_bit (32 - n) w = word_rotl n (w :: u32)"
proof (rule bit_word_eqI)
  fix i assume "i < LENGTH(32)"
  then have i: "i < 32" by simp
  show "bit (push_bit n w OR drop_bit (32 - n) w) i = bit (word_rotl n w) i"
  proof (cases "i < n")
    case True
    then have "(i + (32 - n)) mod 32 = 32 - n + i" using assms by simp
    then show ?thesis using True i assms by (simp add: bit_or_iff bit_push_bit_iff bit_drop_bit_eq bit_word_rotl_iff)
  next
    case False
    then have "i + (32 - n) = (i - n) + 32" using assms by simp
    moreover have "((i - n) + 32) mod 32 = i - n" using i by simp
    ultimately have "(i + (32 - n)) mod 32 = i - n" by (simp only:)
    moreover have "\<not> bit w (32 - n + i)" using False assms by (auto dest: bit_imp_le_length)
    ultimately show ?thesis using False i assms by (simp add: bit_or_iff bit_push_bit_iff bit_drop_bit_eq bit_word_rotl_iff)
  qed
qed

lemma byte_offsets:
  "(n :: nat) - 16 < 8 \<or> 8 + (n - 24) = n - 16" "n - 8 < 8 \<or> 8 + (n - 16) = n - 8" "n - 16 < 8 \<or> 16 + (n - 24) = n - 8"
  "n - 8 < 8 \<or> n - 16 < 8 \<or> 16 + (n - 24) = n - 8" "n < 8 \<or> 8 + (n - 8) = n" "n < 16 \<or> 16 + (n - 16) = n"
  by arith+

lemma bytes_rotl16: "from_le [ucast (drop_bit 16 w), ucast (drop_bit 24 w), ucast w, ucast (drop_bit 8 w)] = word_rotl 16 (w :: u32)"
proof -
  have "from_le [ucast (drop_bit 16 w), ucast (drop_bit 24 w), ucast w, ucast (drop_bit 8 w)] = push_bit 16 w OR drop_bit (32 - 16) w"
    by (rule bit_word_eqI)
      (auto simp: bit_or_iff bit_push_bit_iff bit_ucast_iff bit_drop_bit_eq dest: bit_imp_le_length; metis byte_offsets)
  then show ?thesis by (simp only: rotl_shifts)
qed

lemma bytes_rotl8: "from_le [ucast (drop_bit 24 w), ucast w, ucast (drop_bit 8 w), ucast (drop_bit 16 w)] = word_rotl 8 (w :: u32)"
proof -
  have "from_le [ucast (drop_bit 24 w), ucast w, ucast (drop_bit 8 w), ucast (drop_bit 16 w)] = push_bit 8 w OR drop_bit (32 - 8) w"
    by (rule bit_word_eqI)
      (auto simp: bit_or_iff bit_push_bit_iff bit_ucast_iff bit_drop_bit_eq dest: bit_imp_le_length; metis byte_offsets)
  then show ?thesis by (simp only: rotl_shifts)
qed

subsection \<open>The three instruction sets\<close>

lemma map2_lane: "length a = 4 \<Longrightarrow> length b = 4 \<Longrightarrow> j < 4 \<Longrightarrow> map2 f a b ! j = f (a ! j) (b ! j)"
  by simp

lemma shuffle_rotl16: "mm_shuffle_epi8 [a, b, c, d] rol16_mask = map (word_rotl 16) [a, b, c, d]"
  by (simp add: mm_shuffle_epi8_def rol16_mask_def vec_bytes_4 le_bytes_4 vec_of_bytes_4 bytes_rotl16 del: from_le.simps)

lemma shuffle_rotl8: "mm_shuffle_epi8 [a, b, c, d] rol8_mask = map (word_rotl 8) [a, b, c, d]"
  by (simp add: mm_shuffle_epi8_def rol8_mask_def vec_bytes_4 le_bytes_4 vec_of_bytes_4 bytes_rotl8 del: from_le.simps)

lemma avx2_rotl:
  assumes "length v = 4"
  shows "v_rotl16 avx2_ops v = map (word_rotl 16) v" "v_rotl8 avx2_ops v = map (word_rotl 8) v"
    and "v_rotl12 avx2_ops v = map (word_rotl 12) v" "v_rotl7 avx2_ops v = map (word_rotl 7) v"
proof -
  obtain a b c d where v: "v = [a, b, c, d]" using four_lanes [OF assms] by blast
  show "v_rotl16 avx2_ops v = map (word_rotl 16) v" "v_rotl8 avx2_ops v = map (word_rotl 8) v"
    using shuffle_rotl16 shuffle_rotl8 by (simp_all add: avx2_ops_def v)
  show "v_rotl12 avx2_ops v = map (word_rotl 12) v" "v_rotl7 avx2_ops v = map (word_rotl 7) v"
    using rotl_shifts [of 12] rotl_shifts [of 7]
    by (simp_all add: avx2_ops_def v mm_or_si128_def mm_slli_epi32_def mm_srli_epi32_def)
qed

interpretation avx2_lanes: simd_lanes avx2_ops "\<lambda>v. length v = 4" "\<lambda>j v. v ! j" 4
  by unfold_locales (simp_all add: avx2_rotl, simp_all add: avx2_ops_def mm_add_epi32_def mm_xor_si128_def)

lemma halves_rotl16: "ucast (ucast (drop_bit 16 w) :: u16) OR push_bit 16 (ucast (ucast w :: u16)) = word_rotl 16 (w :: u32)"
proof -
  have "ucast (ucast (drop_bit 16 w) :: u16) OR push_bit 16 (ucast (ucast w :: u16)) = push_bit 16 w OR drop_bit (32 - 16) w"
    by (rule bit_word_eqI)
      (auto simp: bit_or_iff bit_push_bit_iff bit_ucast_iff bit_drop_bit_eq dest: bit_imp_le_length)
  then show ?thesis by (simp only: rotl_shifts)
qed

lemma sli_rotl:
  assumes "0 < n" and "n < 32"
  shows "(drop_bit (32 - n) w AND mask n) OR push_bit n w = word_rotl n (w :: u32)"
proof -
  have "drop_bit (32 - n) w AND mask n = drop_bit (32 - n) w"
    by (rule bit_word_eqI) (use assms in \<open>auto simp: bit_and_iff bit_mask_iff bit_drop_bit_eq dest: bit_imp_le_length\<close>)
  then show ?thesis using rotl_shifts [OF assms, of w] by (simp add: or.commute)
qed

lemma neon_rotl:
  assumes "length v = 4"
  shows "v_rotl16 neon_ops v = map (word_rotl 16) v" "v_rotl8 neon_ops v = map (word_rotl 8) v"
    and "v_rotl12 neon_ops v = map (word_rotl 12) v" "v_rotl7 neon_ops v = map (word_rotl 7) v"
proof -
  obtain a b c d where v: "v = [a, b, c, d]" using four_lanes [OF assms] by blast
  show "v_rotl16 neon_ops v = map (word_rotl 16) v"
    using halves_rotl16 by (simp add: neon_ops_def v vreinterpretq_u16_u32_def)
  show "v_rotl8 neon_ops v = map (word_rotl 8) v"
    by (simp add: neon_ops_def v vqtbl1q_u8_def rol8_idx_def vec_bytes_4 le_bytes_4 vec_of_bytes_4 bytes_rotl8 del: from_le.simps)
  show "v_rotl12 neon_ops v = map (word_rotl 12) v" "v_rotl7 neon_ops v = map (word_rotl 7) v"
    using sli_rotl [of 12] sli_rotl [of 7] by (simp_all add: neon_ops_def v vsliq_n_u32_def vshrq_n_u32_def)
qed

interpretation neon_lanes: simd_lanes neon_ops "\<lambda>v. length v = 4" "\<lambda>j v. v ! j" 4
  by unfold_locales (simp_all add: neon_rotl, simp_all add: neon_ops_def vaddq_u32_def veorq_u32_def)

definition m256_ok :: "m256 \<Rightarrow> bool" where
  "m256_ok v \<longleftrightarrow> length (fst v) = 4 \<and> length (snd v) = 4"

definition m256_lane :: "nat \<Rightarrow> m256 \<Rightarrow> u32" where
  "m256_lane j v = (if j < 4 then fst v ! j else snd v ! (j - 4))"

lemma avx2x8_rotl:
  assumes "m256_ok v"
  shows "v_rotl16 avx2x8_ops v = both (map (word_rotl 16)) v" "v_rotl8 avx2x8_ops v = both (map (word_rotl 8)) v"
    and "v_rotl12 avx2x8_ops v = both (map (word_rotl 12)) v" "v_rotl7 avx2x8_ops v = both (map (word_rotl 7)) v"
  using avx2_rotl [of "fst v"] avx2_rotl [of "snd v"] assms
  by (simp_all add: avx2x8_ops_def avx2_ops_def both_def both2_def m256_ok_def)

interpretation avx2x8_lanes: simd_lanes avx2x8_ops m256_ok m256_lane 8
  by unfold_locales
    (simp_all add: avx2x8_rotl, simp_all add: avx2x8_ops_def both2_def both_def m256_ok_def m256_lane_def mm_add_epi32_def mm_xor_si128_def)

subsection \<open>Transposition and stores\<close>

lemma avx2_transpose:
  "avx2_transpose4 a b c d = map (\<lambda>j. [a ! j, b ! j, c ! j, d ! j]) [0, 1, 2, 3]"
  by (simp add: avx2_transpose4_def mm_unpacklo_epi32_def mm_unpackhi_epi32_def mm_unpacklo_epi64_def
      mm_unpackhi_epi64_def Let_def)

lemma u64_halves: "ucast (ucast a OR push_bit 32 (ucast b) :: u64) = (a :: u32)"
  "ucast (drop_bit 32 (ucast a OR push_bit 32 (ucast b) :: u64)) = (b :: u32)"
  by (rule bit_word_eqI; auto simp: bit_or_iff bit_push_bit_iff bit_ucast_iff bit_drop_bit_eq dest: bit_imp_le_length)+

lemma neon_transpose:
  "neon_transpose4 a b c d = map (\<lambda>j. [a ! j, b ! j, c ! j, d ! j]) [0, 1, 2, 3]"
  by (simp add: neon_transpose4_def vtrnq_u32_def vtrn1q_u64_def vtrn2q_u64_def vreinterpretq_u64_u32_def
      vreinterpretq_u32_u64_def u64_halves Let_def del: drop_bit_or)

lemma avx2x8_transpose:
  "avx2x8_transpose4 a b c d =
     map (\<lambda>j. ([fst a ! j, fst b ! j, fst c ! j, fst d ! j], [snd a ! j, snd b ! j, snd c ! j, snd d ! j])) [0, 1, 2, 3]"
  by (simp add: avx2x8_transpose4_def both2_def mm_unpacklo_epi32_def mm_unpackhi_epi32_def mm_unpacklo_epi64_def
      mm_unpackhi_epi64_def Let_def)

text \<open>Consecutive stores of 16 bytes write the concatenation.\<close>

lemma stores_contiguous:
  assumes "\<forall>b \<in> set bss. length b = 16" and "16 * k = length pre" and "length out = 16 * length bss"
  shows "store_all (zip (map (\<lambda>k. 16 * k) [k..<k + length bss]) bss) (pre @ out) = pre @ concat bss"
  using assms
proof (induction bss arbitrary: k pre out)
  case (Cons b bss)
  have "put (16 * k) b (pre @ out) = (pre @ b) @ drop 16 out"
    using Cons.prems by (simp add: put_def)
  moreover have "[k..<k + length (b # bss)] = k # [Suc k..<Suc k + length bss]" by (simp add: upt_rec)
  ultimately show ?case
    using Cons.IH [of "Suc k" "pre @ b" "drop 16 out"] Cons.prems by (simp add: store_all_def)
qed (simp add: store_all_def)

subsection \<open>Blocks\<close>

text \<open>The blocks a vector state holds, lane by lane.\<close>

lemma words_of_block:
  assumes "map (lane j) s = [C0, C1, C2, C3] @ key_words key @ [ctr] @ load_words 3 nonce"
    and "map (lane j) x = map2 (+) (permute (map (lane j) s)) (map (lane j) s)"
  shows "concat (map (\<lambda>v. le_bytes 4 (lane j v)) x) = chacha_block key ctr nonce"
proof -
  have "map (\<lambda>v. le_bytes 4 (lane j v)) x = map (le_bytes 4) (map (lane j) x)" by simp
  also have "\<dots> = map2 (\<lambda>w s. le_bytes 4 (w + s)) (permute (chacha_state key ctr nonce)) (chacha_state key ctr nonce)"
    unfolding assms(2) assms(1) chacha_state_def [symmetric] by (simp add: comp_def case_prod_beta)
  finally show ?thesis by (simp add: chacha_block_def Let_def)
qed

lemma sixteen: "length x = 16 \<Longrightarrow> x = map ((!) x) [0, 1, 2, 3, 4, 5, 6, 7, 8, 9, 10, 11, 12, 13, 14, 15]"
proof -
  assume l: "length x = 16"
  have "x = map ((!) x) [0..<16]" using map_nth [of x] l by simp
  also have "[0..<16] = [0, 1, 2, 3, 4, 5, 6, 7, 8, 9, 10, 11, 12, 13, 14, 15]" by (simp add: upt_rec)
  finally show ?thesis .
qed

lemma sixteen_map:
  "length x = 16 \<Longrightarrow> map g x = map (\<lambda>i. g (x ! i)) [0, 1, 2, 3, 4, 5, 6, 7, 8, 9, 10, 11, 12, 13, 14, 15]"
  by (subst sixteen) simp_all

lemma length_store_order [simp]: "length store_order = 16"
  by (simp add: store_order_def)

lemma store_four_eq:
  assumes "length x = 16" and "\<forall>v \<in> set x. length v = 4"
  shows "store_four x = concat (map (\<lambda>i. vec_bytes (x ! i)) store_order)"
proof -
  have "i < 16" if "i \<in> set store_order" for i using that by (auto simp: store_order_def)
  then have "\<forall>b \<in> set (map (\<lambda>i. vec_bytes (x ! i)) store_order). length b = 16"
    using assms by (auto simp: vec_bytes_def length_concat_words)
  from stores_contiguous [OF this, of 0 "[]" "replicate 256 0"] show ?thesis
    by (simp add: store_four_def del: upt_rec_numeral)
qed

lemma transposed_four:
  assumes "length x = 16" and "\<And>a b c d. f a b c d = map (\<lambda>j. [a ! j, b ! j, c ! j, d ! j]) [0, 1, 2, 3 :: nat]"
  shows "store_four (transpose_groups f x) = concat (map (\<lambda>j. concat (map (\<lambda>v. le_bytes 4 (v ! j)) x)) [0, 1, 2, 3])"
proof -
  have l: "length (transpose_groups f x) = 16" "\<forall>v \<in> set (transpose_groups f x). length v = 4"
    by (simp_all add: transpose_groups_def assms(2))
  show ?thesis
    unfolding store_four_eq [OF l]
    by (simp add: sixteen_map [OF assms(1)] transpose_groups_def assms(2) store_order_def vec_bytes_def)
qed

text \<open>The initial state of the four-lane backends, and its lanes.\<close>

definition four_state :: "bytes \<Rightarrow> bytes \<Rightarrow> u32 \<Rightarrow> m128 list" where
  "four_state key nonce ctr =
     map (replicate 4) simd_SIGMA @ map (replicate 4) (simd_key_words key)
     @ [ [ctr, ctr + 1, ctr + 2, ctr + 3] ] @ map (replicate 4) (simd_nonce_words nonce)"

lemma four_state_ok: "list_all (\<lambda>v. length v = 4) (four_state key nonce ctr)" "length (four_state key nonce ctr) = 16"
  by (auto simp: four_state_def list_all_iff simd_SIGMA_def simd_key_words_def simd_nonce_words_def)

lemma four_state_lane:
  assumes "j < 4"
  shows "map (\<lambda>v. v ! j) (four_state key nonce ctr) = [C0, C1, C2, C3] @ key_words key @ [ctr + of_nat j] @ load_words 3 nonce"
proof -
  have "[ctr, ctr + 1, ctr + 2, ctr + 3] ! j = ctr + of_nat j"
    using assms by (auto simp: less_Suc_eq numeral_eq_Suc)
  then show ?thesis
    using assms
    by (simp add: four_state_def simd_SIGMA_def C0_def C1_def C2_def C3_def simd_key_words_def simd_nonce_words_def
        key_words_def load_words_def comp_def)
qed

lemma avx2_four_blocks_eq:
  "avx2_four_blocks (simd_key_words key) (simd_nonce_words nonce) ctr =
     concat (map (\<lambda>j. chacha_block key (ctr + of_nat j) nonce) [0, 1, 2, 3])"
proof -
  note ok = four_state_ok [of key nonce ctr]
  let ?x = "simd_rounds avx2_ops (four_state key nonce ctr)"
  have b: "concat (map (\<lambda>v. le_bytes 4 (v ! j)) ?x) = chacha_block key (ctr + of_nat j) nonce" if "j < 4" for j
    by (rule words_of_block [where lane = "\<lambda>j v. v ! j", OF four_state_lane [OF that]]) (rule avx2_lanes.rounds_lane(1) [OF ok that])
  have "avx2_four_blocks (simd_key_words key) (simd_nonce_words nonce) ctr = store_four (transpose_groups avx2_transpose4 ?x)"
    by (simp add: avx2_four_blocks_def four_state_def mm_set1_epi32_def [abs_def] mm_set_epi32_def Let_def)
  also have "\<dots> = concat (map (\<lambda>j. concat (map (\<lambda>v. le_bytes 4 (v ! j)) ?x)) [0, 1, 2, 3])"
    by (rule transposed_four [OF avx2_lanes.rounds_lane(3) [OF ok, of 0] avx2_transpose]) simp
  finally show ?thesis using b by simp
qed

lemma neon_four_blocks_eq:
  "neon_four_blocks (simd_key_words key) (simd_nonce_words nonce) ctr =
     concat (map (\<lambda>j. chacha_block key (ctr + of_nat j) nonce) [0, 1, 2, 3])"
proof -
  note ok = four_state_ok [of key nonce ctr]
  let ?x = "simd_rounds neon_ops (four_state key nonce ctr)"
  have b: "concat (map (\<lambda>v. le_bytes 4 (v ! j)) ?x) = chacha_block key (ctr + of_nat j) nonce" if "j < 4" for j
    by (rule words_of_block [where lane = "\<lambda>j v. v ! j", OF four_state_lane [OF that]]) (rule neon_lanes.rounds_lane(1) [OF ok that])
  have "neon_four_blocks (simd_key_words key) (simd_nonce_words nonce) ctr = store_four (transpose_groups neon_transpose4 ?x)"
    by (simp add: neon_four_blocks_def four_state_def vdupq_n_u32_def [abs_def] Let_def)
  also have "\<dots> = concat (map (\<lambda>j. concat (map (\<lambda>v. le_bytes 4 (v ! j)) ?x)) [0, 1, 2, 3])"
    by (rule transposed_four [OF neon_lanes.rounds_lane(3) [OF ok, of 0] neon_transpose]) simp
  finally show ?thesis using b by simp
qed

definition eight_state :: "bytes \<Rightarrow> bytes \<Rightarrow> u32 \<Rightarrow> m256 list" where
  "eight_state key nonce ctr = zip (four_state key nonce ctr) (four_state key nonce (ctr + 4))"

lemma eight_state_ok: "list_all m256_ok (eight_state key nonce ctr)" "length (eight_state key nonce ctr) = 16"
  using four_state_ok [of key nonce ctr] four_state_ok [of key nonce "ctr + 4"]
  by (simp_all add: eight_state_def list_all_length m256_ok_def)

lemma eight_state_lane:
  assumes "j < 8"
  shows "map (m256_lane j) (eight_state key nonce ctr) = [C0, C1, C2, C3] @ key_words key @ [ctr + of_nat j] @ load_words 3 nonce"
proof (cases "j < 4")
  case True
  then have "map (m256_lane j) (eight_state key nonce ctr) = map (\<lambda>v. v ! j) (map fst (eight_state key nonce ctr))"
    by (simp add: m256_lane_def comp_def)
  then show ?thesis using four_state_lane [OF True, of key nonce ctr] four_state_ok(2) by (simp add: eight_state_def)
next
  case False
  then have "map (m256_lane j) (eight_state key nonce ctr) = map (\<lambda>v. v ! (j - 4)) (map snd (eight_state key nonce ctr))"
    by (simp add: m256_lane_def comp_def)
  moreover have "ctr + 4 + of_nat (j - 4) = ctr + of_nat j" using False by (simp add: of_nat_diff)
  ultimately show ?thesis
    using four_state_lane [of "j - 4" key nonce "ctr + 4"] four_state_ok(2) assms by (simp add: eight_state_def)
qed

lemma store_eight_eq:
  assumes "length x = 16" and "\<forall>v \<in> set x. m256_ok v"
  shows "store_eight x = concat (map (\<lambda>i. vec_bytes (fst (x ! i))) store_order @ map (\<lambda>i. vec_bytes (snd (x ! i))) store_order)"
proof -
  let ?b = "map (\<lambda>i. vec_bytes (fst (x ! i))) store_order @ map (\<lambda>i. vec_bytes (snd (x ! i))) store_order"
  have "i < 16" if "i \<in> set store_order" for i using that by (auto simp: store_order_def)
  then have "\<forall>b \<in> set ?b. length b = 16"
    using assms by (auto simp: vec_bytes_def length_concat_words m256_ok_def)
  from stores_contiguous [OF this, of 0 "[]" "replicate 512 0"] show ?thesis
    by (simp add: store_eight_def del: upt_rec_numeral)
qed

lemma transposed_eight:
  assumes "length x = 16"
  shows "store_eight (transpose_groups avx2x8_transpose4 x) =
    concat (map (\<lambda>j. concat (map (\<lambda>v. le_bytes 4 (m256_lane j v)) x)) [0, 1, 2, 3, 4, 5, 6, 7])"
proof -
  have l: "length (transpose_groups avx2x8_transpose4 x) = 16" "\<forall>v \<in> set (transpose_groups avx2x8_transpose4 x). m256_ok v"
    by (simp_all add: transpose_groups_def avx2x8_transpose m256_ok_def)
  show ?thesis
    unfolding store_eight_eq [OF l]
    by (simp add: sixteen_map [OF assms] transpose_groups_def avx2x8_transpose store_order_def vec_bytes_def m256_lane_def)
qed

lemma avx2_eight_blocks_eq:
  "avx2_eight_blocks (simd_key_words key) (simd_nonce_words nonce) ctr =
     concat (map (\<lambda>j. chacha_block key (ctr + of_nat j) nonce) [0, 1, 2, 3, 4, 5, 6, 7])"
proof -
  note ok = eight_state_ok [of key nonce ctr]
  let ?x = "simd_rounds avx2x8_ops (eight_state key nonce ctr)"
  have b: "concat (map (\<lambda>v. le_bytes 4 (m256_lane j v)) ?x) = chacha_block key (ctr + of_nat j) nonce" if "j < 8" for j
    by (rule words_of_block [where lane = m256_lane, OF eight_state_lane [OF that]]) (rule avx2x8_lanes.rounds_lane(1) [OF ok that])
  have "zip (map (replicate 4) w) (map (replicate 4) w) = map mm256_set1_epi32 w" for w
    by (induction w) (simp_all add: mm256_set1_epi32_def)
  then have "avx2_eight_blocks (simd_key_words key) (simd_nonce_words nonce) ctr = store_eight (transpose_groups avx2x8_transpose4 ?x)"
    by (simp add: avx2_eight_blocks_def eight_state_def four_state_def mm_set_epi32_def Let_def add.assoc)
  then show ?thesis using b transposed_eight [OF avx2x8_lanes.rounds_lane(3) [OF ok, of 0]] by simp
qed

subsection \<open>The strided loops compute the scalar keystream\<close>

lemma xor_tail_blocks:
  assumes "length c \<le> 64 * k"
  shows "xor_tail c (concat (map (\<lambda>i. chacha_block key (ctr + of_nat i) nonce) [0..<k])) = xor_in_place key ctr nonce c"
  using assms
proof (induction k arbitrary: c ctr)
  case (Suc k)
  show ?case
  proof (cases "c = []")
    case False
    have s: "map (\<lambda>i. chacha_block key (ctr + of_nat i) nonce) [0..<Suc k] =
        chacha_block key ctr nonce # map (\<lambda>i. chacha_block key (ctr + 1 + of_nat i) nonce) [0..<k]"
      by (simp add: upt_conv_Cons map_Suc_upt [symmetric] comp_def add.assoc del: upt_Suc map_Suc_upt)
    have "xor_tail c (chacha_block key ctr nonce @ ks) = xor_zip (take 64 c) (chacha_block key ctr nonce) @ xor_tail (drop 64 c) ks" for ks
      by (simp add: xor_tail_def xor_zip_def zip_append2 drop_drop [symmetric] add.commute del: drop_drop)
    with Suc.IH [of "drop 64 c" "ctr + 1"] Suc.prems False show ?thesis
      by (simp add: s xor_in_place_step del: upt_Suc)
  qed (simp add: xor_tail_def)
qed (simp add: xor_tail_def)

lemma stride_loop_eq:
  assumes "\<And>c. blocks c = concat (map (\<lambda>i. chacha_block key (c + of_nat i) nonce) [0..<k])"
    and "\<forall>c \<in> set cs. length c = 64 * k"
  shows "stride_loop blocks (of_nat k) ctr cs = (xor_in_place key ctr nonce (concat cs), ctr + of_nat (k * length cs))"
  using assms(2)
proof (induction cs arbitrary: ctr)
  case (Cons c cs)
  then show ?case
    by (simp add: assms(1) xor_tail_blocks xor_in_place_append algebra_simps)
qed simp

lemma chunks_exact_split:
  assumes "0 < n"
  shows "concat (chunks_exact n xs) @ chunks_remainder n xs = xs \<and> length (chunks_exact n xs) = length xs div n
    \<and> (\<forall>c \<in> set (chunks_exact n xs). length c = n)"
proof (induction "length xs" arbitrary: xs rule: less_induct)
  case less
  show ?case
  proof (cases "length xs < n")
    case True
    then show ?thesis by (cases "xs = []") (simp_all add: chunks_exact_def chunks_remainder_def chunks_step)
  next
    case False
    then have s: "chunks_exact n xs = take n xs # chunks_exact n (drop n xs)"
      using chunks_exact_step [of "take n xs" n "drop n xs"] assms by simp
    have d: "length xs div n = Suc (length (drop n xs) div n)"
      using False assms by (simp add: le_div_geq)
    have "chunks_remainder n xs = chunks_remainder n (drop n xs)"
      by (simp only: chunks_remainder_def d drop_drop mult_Suc add.commute)
    with less.hyps [of "drop n xs"] False assms d show ?thesis
      by (auto simp only: s length_drop list.size concat.simps append_assoc append_take_drop_id list.set length_take min_def
          diff_less not_less split: if_splits)
  qed
qed

lemma length_concat_uniform: "\<forall>c \<in> set cs. length c = m \<Longrightarrow> length (concat cs) = m * length cs"
  by (induction cs) simp_all

lemma strided_eq:
  assumes "\<And>c. blocks c = concat (map (\<lambda>i. chacha_block key (c + of_nat i) nonce) [0..<k])" and "0 < k"
    and "\<And>c tl. length tl < 64 * k \<Longrightarrow> tail_fn c tl = xor_in_place key c nonce tl"
  shows "(let (out, ctr) = stride_loop blocks (of_nat k) counter (chunks_exact (64 * k) buf)
          in out @ tail_fn ctr (chunks_remainder (64 * k) buf)) = xor_in_place key counter nonce buf"
proof -
  let ?c = "chunks_exact (64 * k) buf" and ?t = "chunks_remainder (64 * k) buf"
  have c: "concat ?c @ ?t = buf" "\<forall>c \<in> set ?c. length c = 64 * k"
    using chunks_exact_split [of "64 * k" buf] assms(2) by auto
  have l: "length (concat ?c) = 64 * k * length ?c" by (rule length_concat_uniform [OF c(2)])
  have t: "length ?t < 64 * k" using mod_less_divisor [of "64 * k" "length buf"] assms(2)
    by (simp add: chunks_remainder_def minus_div_mult_eq_mod)
  have "xor_in_place key counter nonce (concat ?c @ ?t) =
      xor_in_place key counter nonce (concat ?c) @ xor_in_place key (counter + of_nat (k * length ?c)) nonce ?t"
    by (subst xor_in_place_append) (simp_all add: l)
  then show ?thesis using stride_loop_eq [OF assms(1) c(2)] assms(3) [OF t] c(1) by simp
qed

lemma blocks_upt:
  "[0, 1, 2, 3] = [0..<4]" "[0, 1, 2, 3, 4, 5, 6, 7] = [0..<8]"
  by (simp_all add: upt_rec)

lemmas avx2_four_upt = avx2_four_blocks_eq [unfolded blocks_upt]
lemmas neon_four_upt = neon_four_blocks_eq [unfolded blocks_upt]
lemmas avx2_eight_upt = avx2_eight_blocks_eq [unfolded blocks_upt]

lemma neon_keystream: "neon_apply_keystream key nonce counter buf = xor_in_place key counter nonce buf"
proof -
  let ?t = "\<lambda>ctr tail. if length tail \<ge> 64 then xor_tail tail (neon_four_blocks (simd_key_words key) (simd_nonce_words nonce) ctr)
     else if tail \<noteq> [] then scalar_apply_keystream key nonce ctr tail else tail"
  have "?t c tl = xor_in_place key c nonce tl" if "length tl < 64 * 4" for c tl
    using that by (simp add: neon_four_upt xor_tail_blocks scalar_apply_keystream_def del: upt_rec_numeral)
  from strided_eq [OF neon_four_upt _ this, of counter buf] show ?thesis
    by (simp add: neon_apply_keystream_def Let_def split_beta cong: if_cong)
qed

lemma avx2_keystream: "avx2_apply_keystream key nonce counter buf = xor_in_place key counter nonce buf"
proof -
  let ?t = "\<lambda>ctr tail. if length tail \<ge> 64 then xor_tail tail (avx2_four_blocks (simd_key_words key) (simd_nonce_words nonce) ctr)
     else if tail \<noteq> [] then scalar_apply_keystream key nonce ctr tail else tail"
  have "?t c tl = xor_in_place key c nonce tl" if "length tl < 64 * 4" for c tl
    using that by (simp add: avx2_four_upt xor_tail_blocks scalar_apply_keystream_def del: upt_rec_numeral)
  from strided_eq [OF avx2_four_upt _ this, of counter buf] show ?thesis
    by (simp add: avx2_apply_keystream_def Let_def split_beta cong: if_cong)
qed

lemma avx2x8_keystream: "avx2x8_apply_keystream key nonce counter buf = xor_in_place key counter nonce buf"
proof -
  let ?t = "\<lambda>ctr tail. if length tail \<ge> 256 then xor_tail tail (avx2_eight_blocks (simd_key_words key) (simd_nonce_words nonce) ctr)
     else if length tail \<ge> 64 then xor_tail tail (avx2_four_blocks (simd_key_words key) (simd_nonce_words nonce) ctr)
     else if tail \<noteq> [] then scalar_apply_keystream key nonce ctr tail else tail"
  have "?t c tl = xor_in_place key c nonce tl" if "length tl < 64 * 8" for c tl
    using that by (simp add: avx2_four_upt avx2_eight_upt xor_tail_blocks scalar_apply_keystream_def del: upt_rec_numeral)
  from strided_eq [OF avx2_eight_upt _ this, of counter buf] show ?thesis
    by (simp add: avx2x8_apply_keystream_def Let_def split_beta cong: if_cong)
qed

interpretation neon: chacha_impl neon_apply_keystream
  by unfold_locales (rule neon_keystream)

interpretation avx2: chacha_impl avx2_apply_keystream
  by unfold_locales (rule avx2_keystream)

interpretation avx2x8: chacha_impl avx2x8_apply_keystream
  by unfold_locales (rule avx2x8_keystream)

text \<open>Whatever the target, the selected backend satisfies the contract, so every lemma of
  \<open>chacha_impl\<close> and every property with that hypothesis applies to it.\<close>

lemma simd_best_impl: "chacha_impl (simd_best arch)"
  by (cases arch) (simp_all add: neon.chacha_impl_axioms avx2x8.chacha_impl_axioms scalar.chacha_impl_axioms)

interpretation best: chacha_impl "simd_best arch"
  by (rule simd_best_impl)

text \<open>C16: Every SIMD backend (NEON four-way, AVX2 four-way, AVX2 eight-way) and the one the target selects compute,
  byte for byte and for every key, nonce, starting counter and buffer length, the keystream of the scalar backend,
  also when the 32-bit block counter wraps.\<close>

theorem simd_backends_equal_scalar:
  "neon_apply_keystream key nonce counter buf = scalar_apply_keystream key nonce counter buf
   \<and> avx2_apply_keystream key nonce counter buf = scalar_apply_keystream key nonce counter buf
   \<and> avx2x8_apply_keystream key nonce counter buf = scalar_apply_keystream key nonce counter buf
   \<and> simd_best arch key nonce counter buf = scalar_apply_keystream key nonce counter buf"
  by (simp add: neon.contract avx2.contract avx2x8.contract scalar.contract best.contract)

end
