(* ===== verification/Slab_Pool.thy ===== *)
theory Slab_Pool
  imports Prelude
begin

text \<open>
  \<open>src/embed/src/buffer.rs\<close>: the buffer pools and the RAII handle. A boxed slab is its list of
  bytes. \<open>SlabPool\<close> is shared through an \<open>Arc\<close>, so the model passes its state to every operation
  and returns it updated; the mutex makes each operation on the freelist one step, and \<open>sp_poisoned\<close>
  stands for a lock poisoned by a panic elsewhere. The freelist is a \<open>Vec\<close>: pushed and popped at its
  end. \<open>outstanding\<close> is an \<open>AtomicUsize\<close>, which wraps.
\<close>

subsection \<open>The pools\<close>

definition MAX_DATAGRAM :: nat where
  "MAX_DATAGRAM = 2048"

record no_pool =
  np_slab_len :: nat

definition no_pool_new :: "nat \<Rightarrow> no_pool" where
  "no_pool_new slab_len = \<lparr> np_slab_len = slab_len \<rparr>"

definition no_pool_default :: no_pool where
  "no_pool_default = no_pool_new MAX_DATAGRAM"

definition no_pool_take :: "no_pool \<Rightarrow> bytes \<times> no_pool" where
  "no_pool_take p = (replicate (np_slab_len p) 0, p)"

definition no_pool_give :: "no_pool \<Rightarrow> bytes \<Rightarrow> no_pool" where
  "no_pool_give p buf = p"

record slab_pool =
  sp_slab_len :: nat
  sp_max_idle :: nat
  sp_free :: "bytes list"
  sp_outstanding :: u64
  sp_poisoned :: bool

definition slab_pool_new :: "nat \<Rightarrow> nat \<Rightarrow> slab_pool" where
  "slab_pool_new slab_len max_idle =
     \<lparr> sp_slab_len = slab_len, sp_max_idle = max_idle, sp_free = [], sp_outstanding = 0, sp_poisoned = False \<rparr>"

definition for_wireguard :: slab_pool where
  "for_wireguard = slab_pool_new MAX_DATAGRAM 256"

text \<open>The loop \<open>while free.len() < n\<close>.\<close>

function prefill_loop :: "nat \<Rightarrow> nat \<Rightarrow> bytes list \<Rightarrow> bytes list" where
  "prefill_loop slab_len n free =
     (if length free < n then prefill_loop slab_len n (free @ [replicate slab_len 0]) else free)"
  by pat_completeness auto
termination by (relation "measure (\<lambda>(_, n, free). n - length free)") auto

declare prefill_loop.simps [simp del]

definition prefill :: "slab_pool \<Rightarrow> nat \<Rightarrow> slab_pool" where
  "prefill p n =
     (let n = min n (sp_max_idle p)
      in if sp_poisoned p then p else p\<lparr> sp_free := prefill_loop (sp_slab_len p) n (sp_free p) \<rparr>)"

definition pool_idle :: "slab_pool \<Rightarrow> nat" where
  "pool_idle p = (if sp_poisoned p then 0 else length (sp_free p))"

definition slab_take :: "slab_pool \<Rightarrow> bytes \<times> slab_pool" where
  "slab_take p =
     (let p = p\<lparr> sp_outstanding := sp_outstanding p + 1 \<rparr>
      in if \<not> sp_poisoned p \<and> sp_free p \<noteq> []
         then (last (sp_free p), p\<lparr> sp_free := butlast (sp_free p) \<rparr>)
         else (replicate (sp_slab_len p) 0, p))"

definition slab_give :: "slab_pool \<Rightarrow> bytes \<Rightarrow> slab_pool" where
  "slab_give p buf =
     (let p = p\<lparr> sp_outstanding := sp_outstanding p - 1 \<rparr>
      in if length buf \<noteq> sp_slab_len p then p
         else if \<not> sp_poisoned p \<and> length (sp_free p) < sp_max_idle p
         then p\<lparr> sp_free := sp_free p @ [buf] \<rparr> else p)"

subsection \<open>\<open>PooledBuf\<close>\<close>

text \<open>The handle without its reference to the pool. \<open>storage\<close> is \<open>None\<close> only after \<open>drop\<close>.\<close>

record pooled_buf =
  pb_storage :: "bytes option"
  pb_len :: nat

definition pool_get :: "slab_pool \<Rightarrow> pooled_buf \<times> slab_pool" where
  "pool_get p = (let (storage, p) = slab_take p in (\<lparr> pb_storage = Some storage, pb_len = 0 \<rparr>, p))"

definition spare_mut :: "pooled_buf \<Rightarrow> bytes" where
  "spare_mut b = (case pb_storage b of Some s \<Rightarrow> s | None \<Rightarrow> [])"

text \<open>A caller's write through \<open>spare_mut\<close>.\<close>

definition spare_write :: "pooled_buf \<Rightarrow> bytes \<Rightarrow> pooled_buf" where
  "spare_write b s = b\<lparr> pb_storage := map_option (\<lambda>_. s) (pb_storage b) \<rparr>"

definition capacity :: "pooled_buf \<Rightarrow> nat" where
  "capacity b = (case pb_storage b of Some s \<Rightarrow> length s | None \<Rightarrow> 0)"

definition set_len :: "pooled_buf \<Rightarrow> nat \<Rightarrow> pooled_buf" where
  "set_len b len = (let cap = (case pb_storage b of Some s \<Rightarrow> length s | None \<Rightarrow> 0) in b\<lparr> pb_len := min len cap \<rparr>)"

definition pb_deref :: "pooled_buf \<Rightarrow> bytes" where
  "pb_deref b =
     (case Option.bind (pb_storage b) (get_to (pb_len b)) of Some s \<Rightarrow> s | None \<Rightarrow> [])"

text \<open>A caller's write of \<open>s\<close> to the start of the slice that \<open>deref_mut\<close> returns.\<close>

definition deref_write :: "pooled_buf \<Rightarrow> bytes \<Rightarrow> pooled_buf" where
  "deref_write b s =
     (case Option.bind (pb_storage b) (get_to (pb_len b)) of
        Some _ \<Rightarrow> b\<lparr> pb_storage := map_option (put 0 (take (pb_len b) s)) (pb_storage b) \<rparr>
      | None \<Rightarrow> b)"

definition copy_from :: "slab_pool \<Rightarrow> bytes \<Rightarrow> pooled_buf \<times> slab_pool" where
  "copy_from p data =
     (let (b, p) = pool_get p;
          n = min (length data) (capacity b);
          b = (case get_to n (spare_mut b) of
                 Some dst \<Rightarrow> spare_write b (put 0 (case get_to n data of Some d \<Rightarrow> d | None \<Rightarrow> []) (spare_mut b))
               | None \<Rightarrow> b)
      in (set_len b n, p))"

definition pb_drop :: "slab_pool \<Rightarrow> pooled_buf \<Rightarrow> slab_pool \<times> pooled_buf" where
  "pb_drop p b =
     (case pb_storage b of
        Some storage \<Rightarrow> (slab_give p storage, b\<lparr> pb_storage := None \<rparr>)
      | None \<Rightarrow> (p, b))"

subsection \<open>The contract of \<open>BufferPool\<close>\<close>

text \<open>Uses of a pool, in order, and what the takes returned.\<close>

datatype pool_op = Take | Give bytes

fun pool_run :: "('p \<Rightarrow> bytes \<times> 'p) \<Rightarrow> ('p \<Rightarrow> bytes \<Rightarrow> 'p) \<Rightarrow> pool_op list \<Rightarrow> 'p \<Rightarrow> bytes list \<times> 'p" where
  "pool_run tk gv [] p = ([], p)"
| "pool_run tk gv (Take # ops) p = (let (b, p) = tk p; (bs, p) = pool_run tk gv ops p in (b # bs, p))"
| "pool_run tk gv (Give b # ops) p = pool_run tk gv ops (gv p b)"

locale buffer_pool =
  fixes slab_len :: "'p \<Rightarrow> nat" and take_buf :: "'p \<Rightarrow> bytes \<times> 'p" and give_buf :: "'p \<Rightarrow> bytes \<Rightarrow> 'p"
    and pool_ok :: "'p \<Rightarrow> bool"
  assumes take_len: "pool_ok p \<Longrightarrow> length (fst (take_buf p)) = slab_len p"
    and take_ok: "pool_ok p \<Longrightarrow> pool_ok (snd (take_buf p))"
    and give_ok: "pool_ok p \<Longrightarrow> pool_ok (give_buf p b)"
    and take_slab_len: "slab_len (snd (take_buf p)) = slab_len p"
    and give_slab_len: "slab_len (give_buf p b) = slab_len p"
begin

lemma run_ok:
  "pool_ok p \<Longrightarrow> pool_run take_buf give_buf ops p = (bs, p') \<Longrightarrow>
     pool_ok p' \<and> slab_len p' = slab_len p \<and> (\<forall>b \<in> set bs. length b = slab_len p)"
proof (induction ops arbitrary: p bs)
  case (Cons x ops)
  show ?case
  proof (cases x)
    case Take
    obtain b p1 where t: "take_buf p = (b, p1)" by force
    obtain bs' where "pool_run take_buf give_buf ops p1 = (bs', p')" "bs = b # bs'"
      using Cons.prems Take t by (auto split: prod.splits)
    then show ?thesis
      using Cons.IH [of p1 bs'] take_ok [of p] take_len [of p] take_slab_len [of p] Cons.prems(1) t by auto
  next
    case (Give b)
    then show ?thesis
      using Cons.IH [of "give_buf p b" bs] give_ok [of p b] give_slab_len [of p b] Cons.prems by auto
  qed
qed simp

end

definition slab_pool_ok :: "slab_pool \<Rightarrow> bool" where
  "slab_pool_ok p \<longleftrightarrow> (\<forall>b \<in> set (sp_free p). length b = sp_slab_len p) \<and> length (sp_free p) \<le> sp_max_idle p"

lemma slab_take_slab_len [simp]: "sp_slab_len (snd (slab_take p)) = sp_slab_len p"
  by (simp add: slab_take_def Let_def)

lemma slab_give_slab_len [simp]: "sp_slab_len (slab_give p b) = sp_slab_len p"
  by (simp add: slab_give_def Let_def)

lemma slab_take_ok: "slab_pool_ok p \<Longrightarrow> slab_pool_ok (snd (slab_take p))"
  by (auto simp: slab_pool_ok_def slab_take_def Let_def dest: in_set_butlastD)

lemma slab_take_len: "slab_pool_ok p \<Longrightarrow> length (fst (slab_take p)) = sp_slab_len p"
  by (simp add: slab_pool_ok_def slab_take_def Let_def)

lemma slab_give_ok: "slab_pool_ok p \<Longrightarrow> slab_pool_ok (slab_give p b)"
  by (auto simp: slab_pool_ok_def slab_give_def Let_def)

interpretation slabs: buffer_pool sp_slab_len slab_take slab_give slab_pool_ok
  by unfold_locales (simp_all add: slab_take_ok slab_take_len slab_give_ok)

interpretation fresh_slabs: buffer_pool np_slab_len no_pool_take no_pool_give "\<lambda>_. True"
  by unfold_locales (simp_all add: no_pool_take_def no_pool_give_def)

lemma prefill_loop_eq:
  "prefill_loop l n free = free @ replicate (n - length free) (replicate l 0)"
proof (induction l n free rule: prefill_loop.induct)
  case (1 l n free)
  show ?case
  proof (cases "length free < n")
    case True
    then have "n - length free = Suc (n - Suc (length free))" by simp
    with 1 True show ?thesis by (subst prefill_loop.simps) (simp add: replicate_append_same [symmetric])
  qed (subst prefill_loop.simps, simp)
qed

lemma prefill_slab_len [simp]: "sp_slab_len (prefill p n) = sp_slab_len p"
  by (simp add: prefill_def Let_def)

lemma prefill_ok: "slab_pool_ok p \<Longrightarrow> slab_pool_ok (prefill p n)"
  by (auto simp: slab_pool_ok_def prefill_def prefill_loop_eq Let_def)

lemma slab_pool_new_ok: "slab_pool_ok (slab_pool_new l m)"
  by (simp add: slab_pool_ok_def slab_pool_new_def)

text \<open>Takes from a pool with enough idle slabs come from the freelist, newest first.\<close>

lemma takes_from_freelist:
  "\<not> sp_poisoned p \<Longrightarrow> k \<le> length (sp_free p) \<Longrightarrow>
     fst (pool_run slab_take slab_give (replicate k Take) p) = take k (rev (sp_free p))"
proof (induction k arbitrary: p)
  case (Suc k)
  then have ne: "sp_free p \<noteq> []" by auto
  then have r: "rev (sp_free p) = last (sp_free p) # rev (butlast (sp_free p))"
    by (metis append_butlast_last_id rev_eq_Cons_iff rev_rev_ident)
  have t: "slab_take p = (last (sp_free p), p\<lparr> sp_outstanding := sp_outstanding p + 1, sp_free := butlast (sp_free p) \<rparr>)"
    using Suc.prems ne by (simp add: slab_take_def Let_def)
  moreover have "fst (pool_run slab_take slab_give (replicate k Take) (p\<lparr> sp_outstanding := sp_outstanding p + 1, sp_free := butlast (sp_free p) \<rparr>))
      = take k (rev (butlast (sp_free p)))"
    using Suc.IH [of "p\<lparr> sp_outstanding := sp_outstanding p + 1, sp_free := butlast (sp_free p) \<rparr>"] Suc.prems by simp
  ultimately show ?case by (auto simp: r simp del: rev_eq_Cons_iff split: prod.split)
qed simp

lemma prefilled_takes:
  assumes "\<not> sp_poisoned p" and "k \<le> n" and "n \<le> sp_max_idle p"
  shows "fst (pool_run slab_take slab_give (replicate k Take) (prefill p n)) = take k (rev (sp_free (prefill p n)))"
    and "k \<le> pool_idle (prefill p n)"
proof -
  have "\<not> sp_poisoned (prefill p n)" "k \<le> length (sp_free (prefill p n))"
    using assms by (simp_all add: prefill_def prefill_loop_eq Let_def)
  then show "fst (pool_run slab_take slab_give (replicate k Take) (prefill p n)) = take k (rev (sp_free (prefill p n)))"
    "k \<le> pool_idle (prefill p n)"
    by (simp_all add: takes_from_freelist pool_idle_def)
qed

lemma run_outstanding:
  "pool_run slab_take slab_give ops p = (bs, p') \<Longrightarrow>
     sp_outstanding p' + of_nat (length (filter (\<lambda>x. x \<noteq> Take) ops)) = sp_outstanding p + of_nat (length bs)"
proof (induction ops arbitrary: p bs)
  case (Cons x ops)
  show ?case
  proof (cases x)
    case Take
    obtain b p1 where t: "slab_take p = (b, p1)" by force
    then have "sp_outstanding p1 = sp_outstanding p + 1" by (auto simp: slab_take_def Let_def split: if_splits)
    moreover obtain bs' where "pool_run slab_take slab_give ops p1 = (bs', p')" "bs = b # bs'"
      using Cons.prems Take t by (auto split: prod.splits)
    ultimately show ?thesis using Cons.IH [of p1 bs'] Take by (simp add: algebra_simps)
  next
    case (Give b)
    moreover have "sp_outstanding (slab_give p b) = sp_outstanding p - 1" by (simp add: slab_give_def Let_def)
    ultimately show ?thesis using Cons.IH [of "slab_give p b" bs] Cons.prems by (simp add: algebra_simps)
  qed
qed simp

lemma capacity_spare: "capacity b = length (spare_mut b)"
  by (simp add: capacity_def spare_mut_def split: option.split)

lemma pool_get_ok:
  assumes "slab_pool_ok p" and "pool_get p = (b, p')"
  shows "slab_pool_ok p'" and "capacity b = sp_slab_len p" and "pb_storage b \<noteq> None" and "pb_len b = 0"
    and "sp_slab_len p' = sp_slab_len p" and "sp_outstanding p' = sp_outstanding p + 1"
  using assms slab_take_ok [of p] slab_take_len [of p] slab_take_slab_len [of p]
  by (auto simp: pool_get_def capacity_def slab_take_def Let_def split: prod.splits if_splits)

lemma deref_write_ok:
  assumes "pb_storage b \<noteq> None" and "pb_len b \<le> capacity b"
  shows "capacity (deref_write b s) = capacity b" and "pb_deref (deref_write b s) = take (pb_len b) s @ drop (length s) (pb_deref b)"
  using assms
  by (auto simp: deref_write_def capacity_def pb_deref_def get_to_def put_def take_drop min_def not_le)

lemma copy_from_ok:
  assumes "slab_pool_ok p" and "copy_from p data = (b, p')"
  shows "slab_pool_ok p'" and "capacity b = sp_slab_len p" and "pb_storage b \<noteq> None"
    and "pb_deref b = take (sp_slab_len p) data" and "sp_slab_len p' = sp_slab_len p"
    and "sp_outstanding p' = sp_outstanding p + 1" and "pb_len b = min (length data) (sp_slab_len p)"
proof -
  obtain b0 p0 where g: "pool_get p = (b0, p0)" by force
  note k = pool_get_ok [OF assms(1) g]
  obtain s where s: "pb_storage b0 = Some s" using k(3) by auto
  then have l: "length s = sp_slab_len p" using k(2) by (simp add: capacity_def)
  have "p' = p0" and b: "b = \<lparr> pb_storage = Some (take (length s) data @ drop (length data) s), pb_len = min (length data) (length s) \<rparr>"
    using assms(2) g s k(4)
    by (auto simp: copy_from_def capacity_def spare_mut_def spare_write_def set_len_def get_to_def put_def Let_def min_def
        intro: pooled_buf.equality)
  with k show "slab_pool_ok p'" "sp_slab_len p' = sp_slab_len p" "sp_outstanding p' = sp_outstanding p + 1" by simp_all
  show "capacity b = sp_slab_len p" "pb_storage b \<noteq> None" "pb_deref b = take (sp_slab_len p) data"
    "pb_len b = min (length data) (sp_slab_len p)"
    using l by (auto simp: b capacity_def pb_deref_def get_to_def min_def)
qed

lemma pb_drop_ok:
  assumes "slab_pool_ok p"
  shows "slab_pool_ok (fst (pb_drop p b))" and "sp_slab_len (fst (pb_drop p b)) = sp_slab_len p"
    and "pb_drop (fst (pb_drop p b)) (snd (pb_drop p b)) = pb_drop p b"
    and "pb_storage b \<noteq> None \<Longrightarrow> sp_outstanding (fst (pb_drop p b)) = sp_outstanding p - 1"
  using slab_give_ok [OF assms]
  by (auto simp: pb_drop_def slab_give_def Let_def assms split: option.split)

subsection \<open>Properties\<close>

text \<open>C21: whatever sequence of takes and returns is run against a slab pool, also with foreign
  buffers returned, every buffer handed out has the slab size, the freelist never exceeds
  \<open>max_idle\<close> and holds only slabs of the right size, and \<open>outstanding\<close> counts the takes minus the
  returns (modulo \<open>2 ^ 64\<close>).\<close>

theorem slab_pool_accounting:
  assumes "slab_pool_ok p" and "pool_run slab_take slab_give ops p = (bs, p')"
  shows "slab_pool_ok p' \<and> sp_slab_len p' = sp_slab_len p \<and> (\<forall>b \<in> set bs. length b = sp_slab_len p)
    \<and> sp_outstanding p' + of_nat (length (filter (\<lambda>x. x \<noteq> Take) ops)) = sp_outstanding p + of_nat (length bs)"
  using slabs.run_ok [OF assms] run_outstanding [OF assms(2)] by blast

theorem slab_pool_accounting_witness:
  "\<exists>bs p'. pool_run slab_take slab_give [Take, Take, Give [1, 2, 3], Give [9], Take] (slab_pool_new 3 1) = (bs, p')
     \<and> bs = [ [0, 0, 0], [0, 0, 0], [1, 2, 3] ] \<and> sp_outstanding p' = 1"
proof -
  obtain bs p' where r: "pool_run slab_take slab_give [Take, Take, Give [1, 2, 3], Give [9], Take] (slab_pool_new 3 1) = (bs, p')"
    by force
  then have bs: "bs = [ [0, 0, 0], [0, 0, 0], [1, 2, 3] ]"
    by (simp add: slab_pool_new_def slab_take_def slab_give_def Let_def numeral_eq_Suc)
  have "sp_outstanding p' + 2 = 3"
    using slab_pool_accounting [OF slab_pool_new_ok r] by (simp add: slab_pool_new_def bs)
  then have "sp_outstanding p' = 3 - 2" by (simp add: eq_diff_eq)
  with r bs show ?thesis by simp
qed

end
