(* ===== verification/Rate_Limiter.thy ===== *)
theory Rate_Limiter
  imports Prelude
begin

text \<open>
  \<open>src/embed/src/rate_limiter.rs\<close>: the handshake counter that decides \<open>under_load\<close>. An \<open>Instant\<close> is
  the number of nanoseconds since some fixed origin; every operation that reads the clock takes
  the reading as an argument. The first part models each method as one step. The second part models
  \<open>note_handshake\<close>, \<open>maybe_reset\<close> and \<open>reset\<close> by the atomic accesses they are made of, run by any number of threads in any order.
\<close>

subsection \<open>The methods\<close>

type_synonym instant = nat

record rate_limiter =
  rl_limit :: u64
  rl_count :: u64
  rl_last_reset_ns :: u64
  rl_epoch :: instant

definition DEFAULT_LIMIT :: u64 where
  "DEFAULT_LIMIT = 10"

text \<open>\<open>RESET_PERIOD\<close>, one second, in nanoseconds.\<close>

definition RESET_PERIOD :: u64 where
  "RESET_PERIOD = 1000000000"

definition rate_limiter_new :: "u64 \<Rightarrow> instant \<Rightarrow> rate_limiter" where
  "rate_limiter_new limit now = \<lparr> rl_limit = limit, rl_count = 0, rl_last_reset_ns = 0, rl_epoch = now \<rparr>"

definition rate_limiter_default :: "instant \<Rightarrow> rate_limiter" where
  "rate_limiter_default now = rate_limiter_new DEFAULT_LIMIT now"

definition note_handshake :: "rate_limiter \<Rightarrow> bool \<times> rate_limiter" where
  "note_handshake rl = (rl_limit rl \<le> rl_count rl, rl\<lparr> rl_count := rl_count rl + 1 \<rparr>)"

definition is_under_load :: "rate_limiter \<Rightarrow> bool" where
  "is_under_load rl = (rl_limit rl \<le> rl_count rl)"

text \<open>\<open>u64::try_from(epoch.elapsed().as_nanos()).unwrap_or(u64::MAX)\<close>; \<open>elapsed\<close> saturates at zero.\<close>

definition elapsed_ns :: "instant \<Rightarrow> instant \<Rightarrow> u64" where
  "elapsed_ns epoch now = (let d = now - epoch in if d < 2 ^ 64 then of_nat d else - 1)"

definition maybe_reset :: "instant \<Rightarrow> rate_limiter \<Rightarrow> rate_limiter" where
  "maybe_reset now rl =
     (let now_ns = elapsed_ns (rl_epoch rl) now; last = rl_last_reset_ns rl
      in if saturating_sub now_ns last \<ge> RESET_PERIOD
         then rl\<lparr> rl_last_reset_ns := now_ns, rl_count := 0 \<rparr> else rl)"

definition limiter_reset :: "instant \<Rightarrow> rate_limiter \<Rightarrow> rate_limiter" where
  "limiter_reset now rl = rl\<lparr> rl_count := 0, rl_last_reset_ns := elapsed_ns (rl_epoch rl) now \<rparr>"

subsection \<open>The atomic accesses\<close>

text \<open>Where a thread is inside \<open>maybe_reset\<close>: after reading the clock, after loading \<open>last_reset_ns\<close>, or after winning
  the compare-exchange, with the clock reading that won, and with the store to \<open>count\<close> still to do; and inside \<open>reset\<close>:
  after the store to \<open>count\<close>, or after reading the clock for the store to \<open>last_reset_ns\<close>.\<close>

datatype reset_pc = Outside | Read_now u64 | Loaded u64 u64 | Won u64 | Cleared | Reset_now u64

text \<open>The accesses to \<open>count\<close> that change it: a handshake message was counted, with the answer of \<open>note_handshake\<close>; the
  window was cleared by \<open>maybe_reset\<close>, by the caller that read \<open>n\<close> from the clock; the window was cleared by \<open>reset\<close>.\<close>

datatype limiter_event = Counted bool | Window_over u64 | Forced_reset

text \<open>\<open>conf_wins\<close> records the clock readings with which the compare-exchange succeeded, newest first, and \<open>conf_log\<close> the
  changes of \<open>count\<close>, newest first.\<close>

record limiter_conf =
  conf_rl :: rate_limiter
  conf_pc :: "nat \<Rightarrow> reset_pc"
  conf_wins :: "u64 list"
  conf_log :: "limiter_event list"

inductive limiter_step :: "limiter_conf \<Rightarrow> limiter_conf \<Rightarrow> bool" where
  count_one: "limiter_step c (c\<lparr> conf_rl := snd (note_handshake (conf_rl c)),
    conf_log := Counted (fst (note_handshake (conf_rl c))) # conf_log c \<rparr>)"
| read_now: "conf_pc c t = Outside \<Longrightarrow> limiter_step c (c\<lparr> conf_pc := (conf_pc c)(t := Read_now n) \<rparr>)"
| load: "conf_pc c t = Read_now n
    \<Longrightarrow> limiter_step c (c\<lparr> conf_pc := (conf_pc c)(t := Loaded n (rl_last_reset_ns (conf_rl c))) \<rparr>)"
| too_early: "conf_pc c t = Loaded n l \<Longrightarrow> saturating_sub n l < RESET_PERIOD
    \<Longrightarrow> limiter_step c (c\<lparr> conf_pc := (conf_pc c)(t := Outside) \<rparr>)"
| cas_lost: "conf_pc c t = Loaded n l \<Longrightarrow> saturating_sub n l \<ge> RESET_PERIOD \<Longrightarrow> rl_last_reset_ns (conf_rl c) \<noteq> l
    \<Longrightarrow> limiter_step c (c\<lparr> conf_pc := (conf_pc c)(t := Outside) \<rparr>)"
| cas_won: "conf_pc c t = Loaded n l \<Longrightarrow> saturating_sub n l \<ge> RESET_PERIOD \<Longrightarrow> rl_last_reset_ns (conf_rl c) = l
    \<Longrightarrow> limiter_step c (c\<lparr> conf_rl := (conf_rl c)\<lparr> rl_last_reset_ns := n \<rparr>,
                            conf_pc := (conf_pc c)(t := Won n), conf_wins := n # conf_wins c \<rparr>)"
| store: "conf_pc c t = Won n
    \<Longrightarrow> limiter_step c (c\<lparr> conf_rl := (conf_rl c)\<lparr> rl_count := 0 \<rparr>, conf_pc := (conf_pc c)(t := Outside),
                            conf_log := Window_over n # conf_log c \<rparr>)"
| reset_count: "conf_pc c t = Outside
    \<Longrightarrow> limiter_step c (c\<lparr> conf_rl := (conf_rl c)\<lparr> rl_count := 0 \<rparr>, conf_pc := (conf_pc c)(t := Cleared),
                            conf_log := Forced_reset # conf_log c \<rparr>)"
| reset_read: "conf_pc c t = Cleared \<Longrightarrow> limiter_step c (c\<lparr> conf_pc := (conf_pc c)(t := Reset_now n) \<rparr>)"
| reset_store: "conf_pc c t = Reset_now n
    \<Longrightarrow> limiter_step c (c\<lparr> conf_rl := (conf_rl c)\<lparr> rl_last_reset_ns := n \<rparr>, conf_pc := (conf_pc c)(t := Outside) \<rparr>)"

definition limiter_init :: "rate_limiter \<Rightarrow> limiter_conf" where
  "limiter_init rl = \<lparr> conf_rl = rl, conf_pc = (\<lambda>_. Outside), conf_wins = [], conf_log = [] \<rparr>"

subsection \<open>What the log says\<close>

text \<open>The number of messages counted since the window was last cleared, from \<open>k\<close> at the start.\<close>

fun window_count :: "u64 \<Rightarrow> limiter_event list \<Rightarrow> u64" where
  "window_count k [] = k"
| "window_count k (Counted b # es) = window_count k es + 1"
| "window_count k (Window_over n # es) = 0"
| "window_count k (Forced_reset # es) = 0"

text \<open>Every answer of \<open>note_handshake\<close> compares that number with the limit.\<close>

fun answers_ok :: "u64 \<Rightarrow> u64 \<Rightarrow> limiter_event list \<Rightarrow> bool" where
  "answers_ok lim k [] \<longleftrightarrow> True"
| "answers_ok lim k (e # es) \<longleftrightarrow> (\<forall>b. e = Counted b \<longrightarrow> (b \<longleftrightarrow> lim \<le> window_count k es)) \<and> answers_ok lim k es"

fun window_readings :: "limiter_event list \<Rightarrow> u64 list" where
  "window_readings [] = []"
| "window_readings (Window_over n # es) = n # window_readings es"
| "window_readings (_ # es) = window_readings es"

definition count_ok :: "rate_limiter \<Rightarrow> limiter_conf \<Rightarrow> bool" where
  "count_ok rl c \<longleftrightarrow> rl_limit (conf_rl c) = rl_limit rl \<and> rl_count (conf_rl c) = window_count (rl_count rl) (conf_log c)
     \<and> answers_ok (rl_limit rl) (rl_count rl) (conf_log c)"

lemma count_ok_step: "limiter_step c c' \<Longrightarrow> count_ok rl c \<Longrightarrow> count_ok rl c'"
  by (induction rule: limiter_step.induct) (simp_all add: count_ok_def note_handshake_def)

text \<open>Readings, newest first, each at least a period after the one before.\<close>

fun a_period_apart :: "u64 list \<Rightarrow> bool" where
  "a_period_apart (n # l # ns) \<longleftrightarrow> unat l + unat RESET_PERIOD \<le> unat n \<and> a_period_apart (l # ns)"
| "a_period_apart _ \<longleftrightarrow> True"

definition period_between :: "u64 \<Rightarrow> u64 \<Rightarrow> bool" where
  "period_between a b \<longleftrightarrow> unat a + unat RESET_PERIOD \<le> unat b \<or> unat b + unat RESET_PERIOD \<le> unat a"

lemma a_period_apart_above: "a_period_apart (n # ns) \<Longrightarrow> x \<in> set ns \<Longrightarrow> unat x + unat RESET_PERIOD \<le> unat n"
proof (induction ns arbitrary: n)
  case (Cons l ns)
  then show ?case by (cases "x = l") (auto dest: Cons.IH)
qed simp

lemma a_period_apart_Cons: "a_period_apart (n # ns) \<Longrightarrow> a_period_apart ns"
  by (cases ns) simp_all

lemma a_period_apart_between: "a_period_apart ns \<Longrightarrow> a \<in> set ns \<Longrightarrow> b \<in> set ns \<Longrightarrow> a \<noteq> b \<Longrightarrow> period_between a b"
proof (induction ns)
  case (Cons n ns)
  then show ?case using a_period_apart_above [of n ns] a_period_apart_Cons [of n ns] by (auto simp: period_between_def)
qed simp

lemma a_period_apart_last: "a_period_apart (ns @ [l]) \<Longrightarrow> x \<in> set ns \<Longrightarrow> unat l + unat RESET_PERIOD \<le> unat x"
proof (induction ns)
  case (Cons n ns)
  then show ?case using a_period_apart_above [of n "ns @ [l]" l] a_period_apart_Cons [of n "ns @ [l]"] by auto
qed simp

text \<open>As long as nobody forces a reset, each win of the compare-exchange is a period after the one before, and each is used
  for at most one store to \<open>count\<close>.\<close>

definition wins_ok :: "rate_limiter \<Rightarrow> limiter_conf \<Rightarrow> bool" where
  "wins_ok rl c \<longleftrightarrow> a_period_apart (conf_wins c @ [rl_last_reset_ns rl])
     \<and> rl_last_reset_ns (conf_rl c) = hd (conf_wins c @ [rl_last_reset_ns rl])
     \<and> distinct (window_readings (conf_log c)) \<and> set (window_readings (conf_log c)) \<subseteq> set (conf_wins c)
     \<and> (\<forall>t n. conf_pc c t = Won n \<longrightarrow> n \<in> set (conf_wins c) \<and> n \<notin> set (window_readings (conf_log c))
          \<and> (\<forall>t'. conf_pc c t' = Won n \<longrightarrow> t' = t))
     \<and> (\<forall>t. conf_pc c t \<noteq> Cleared \<and> (\<forall>n. conf_pc c t \<noteq> Reset_now n))"

lemma wins_ok_win:
  assumes "wins_ok rl c" and "conf_pc c t = Loaded n l" and "saturating_sub n l \<ge> RESET_PERIOD" and "rl_last_reset_ns (conf_rl c) = l"
  shows "wins_ok rl (c\<lparr> conf_rl := (conf_rl c)\<lparr> rl_last_reset_ns := n \<rparr>, conf_pc := (conf_pc c)(t := Won n), conf_wins := n # conf_wins c \<rparr>)"
proof -
  have p: "unat l + unat RESET_PERIOD \<le> unat n" "0 < unat RESET_PERIOD"
    using assms(3) by (auto simp: word_le_nat_alt saturating_sub_nat RESET_PERIOD_def)
  have a: "a_period_apart (n # conf_wins c @ [rl_last_reset_ns rl])"
    using assms(1,4) p by (cases "conf_wins c") (simp_all add: wins_ok_def)
  then have "n \<notin> set (conf_wins c)" using a_period_apart_above [OF a] p(2) by fastforce
  with assms(1) a show ?thesis by (auto simp: wins_ok_def)
qed

lemma wins_ok_step:
  assumes "limiter_step c c'" and "wins_ok rl c" and "Forced_reset \<notin> set (conf_log c')"
  shows "wins_ok rl c'"
  using assms(1)
proof cases
  case (cas_won t n l)
  show ?thesis unfolding cas_won(1) by (rule wins_ok_win [OF assms(2) cas_won(2-4)])
next
  case (store t n)
  then show ?thesis using assms(2) by (auto simp: wins_ok_def)
qed (use assms(2,3) in \<open>auto simp: wins_ok_def note_handshake_def\<close>)

lemma log_grows: "limiter_step c c' \<Longrightarrow> set (conf_log c) \<subseteq> set (conf_log c')"
  by (induction rule: limiter_step.induct) auto

lemma limiter_steps:
  assumes "limiter_step\<^sup>*\<^sup>* (limiter_init rl) c"
  shows "count_ok rl c" and "Forced_reset \<notin> set (conf_log c) \<Longrightarrow> wins_ok rl c"
  using assms
proof (induction rule: rtranclp_induct)
  case base
  { case 1 show ?case by (simp add: count_ok_def limiter_init_def) }
  { case 2 show ?case by (simp add: wins_ok_def limiter_init_def) }
next
  case (step c c')
  { case 1 show ?case using count_ok_step step by blast }
  { case 2 then show ?case using wins_ok_step [OF step(2)] step log_grows [OF step(2)] by blast }
qed

text \<open>A thread that is not interrupted does in these steps what \<open>maybe_reset\<close> and \<open>reset\<close> do in one.\<close>

lemma maybe_reset_steps:
  assumes "conf_pc c t = Outside"
  shows "\<exists>c'. limiter_step\<^sup>*\<^sup>* c c' \<and> conf_rl c' = maybe_reset now (conf_rl c) \<and> conf_pc c' = conf_pc c"
proof -
  let ?n = "elapsed_ns (rl_epoch (conf_rl c)) now" and ?l = "rl_last_reset_ns (conf_rl c)"
  define c1 where "c1 = c\<lparr> conf_pc := (conf_pc c)(t := Read_now ?n) \<rparr>"
  define c2 where "c2 = c1\<lparr> conf_pc := (conf_pc c1)(t := Loaded ?n (rl_last_reset_ns (conf_rl c1))) \<rparr>"
  have s1: "limiter_step c c1" unfolding c1_def by (rule limiter_step.read_now [OF assms])
  have s2: "limiter_step c1 c2" unfolding c2_def by (rule limiter_step.load) (simp add: c1_def)
  have p2: "conf_pc c2 t = Loaded ?n ?l" "conf_rl c2 = conf_rl c" by (simp_all add: c2_def c1_def)
  have pc: "(conf_pc c2)(t := Outside) = conf_pc c" using assms by (auto simp: c2_def c1_def)
  show ?thesis
  proof (cases "saturating_sub ?n ?l \<ge> RESET_PERIOD")
    case False
    let ?c3 = "c2\<lparr> conf_pc := (conf_pc c2)(t := Outside) \<rparr>"
    have "limiter_step c2 ?c3" by (rule limiter_step.too_early [OF p2(1)]) (use False in simp)
    with s1 s2 have "limiter_step\<^sup>*\<^sup>* c ?c3" by (meson converse_rtranclp_into_rtranclp rtranclp.rtrancl_refl)
    with False pc p2 show ?thesis by (intro exI [of _ ?c3]) (simp add: maybe_reset_def Let_def)
  next
    case True
    define c3 where "c3 = c2\<lparr> conf_rl := (conf_rl c2)\<lparr> rl_last_reset_ns := ?n \<rparr>, conf_pc := (conf_pc c2)(t := Won ?n),
        conf_wins := ?n # conf_wins c2 \<rparr>"
    let ?c4 = "c3\<lparr> conf_rl := (conf_rl c3)\<lparr> rl_count := 0 \<rparr>, conf_pc := (conf_pc c3)(t := Outside), conf_log := Window_over ?n # conf_log c3 \<rparr>"
    have s3: "limiter_step c2 c3" unfolding c3_def by (rule limiter_step.cas_won [OF p2(1) True]) (simp add: p2)
    have s4: "limiter_step c3 ?c4" by (rule limiter_step.store) (simp add: c3_def)
    have "limiter_step\<^sup>*\<^sup>* c ?c4" using s1 s2 s3 s4 by (meson converse_rtranclp_into_rtranclp rtranclp.rtrancl_refl)
    with True pc p2 show ?thesis by (intro exI [of _ ?c4]) (simp add: maybe_reset_def Let_def c3_def)
  qed
qed

lemma limiter_reset_steps:
  assumes "conf_pc c t = Outside"
  shows "\<exists>c'. limiter_step\<^sup>*\<^sup>* c c' \<and> conf_rl c' = limiter_reset now (conf_rl c) \<and> conf_pc c' = conf_pc c"
proof -
  let ?n = "elapsed_ns (rl_epoch (conf_rl c)) now"
  define c1 where "c1 = c\<lparr> conf_rl := (conf_rl c)\<lparr> rl_count := 0 \<rparr>, conf_pc := (conf_pc c)(t := Cleared), conf_log := Forced_reset # conf_log c \<rparr>"
  define c2 where "c2 = c1\<lparr> conf_pc := (conf_pc c1)(t := Reset_now ?n) \<rparr>"
  let ?c3 = "c2\<lparr> conf_rl := (conf_rl c2)\<lparr> rl_last_reset_ns := ?n \<rparr>, conf_pc := (conf_pc c2)(t := Outside) \<rparr>"
  have "limiter_step c c1" unfolding c1_def by (rule limiter_step.reset_count [OF assms])
  moreover have "limiter_step c1 c2" unfolding c2_def by (rule limiter_step.reset_read) (simp add: c1_def)
  moreover have "limiter_step c2 ?c3" by (rule limiter_step.reset_store) (simp add: c2_def)
  ultimately have "limiter_step\<^sup>*\<^sup>* c ?c3" by (meson converse_rtranclp_into_rtranclp rtranclp.rtrancl_refl)
  moreover have "(conf_pc c2)(t := Outside) = conf_pc c" using assms by (auto simp: c2_def c1_def)
  ultimately show ?thesis by (intro exI [of _ ?c3]) (simp add: limiter_reset_def c2_def c1_def)
qed

lemma notes_count: "rl_count (((snd \<circ> note_handshake) ^^ k) rl) = rl_count rl + of_nat k
    \<and> rl_limit (((snd \<circ> note_handshake) ^^ k) rl) = rl_limit rl"
  by (induction k) (simp_all add: note_handshake_def)

subsection \<open>Properties\<close>

text \<open>C22: since the last reset of the window, exactly the first \<open>limit\<close> handshake messages are let through and
  every later one is reported as under load (until \<open>2 ^ 64\<close> messages have been counted), with
  \<open>is_under_load\<close> giving the same answer without counting.\<close>

theorem limit_per_window:
  assumes "k < 2 ^ 64"
  shows "(fst (note_handshake (((snd \<circ> note_handshake) ^^ k) (limiter_reset now rl))) \<longleftrightarrow> unat (rl_limit rl) \<le> k)
    \<and> (is_under_load (((snd \<circ> note_handshake) ^^ k) (limiter_reset now rl)) \<longleftrightarrow> unat (rl_limit rl) \<le> k)"
  using notes_count [of k "limiter_reset now rl"] assms
  by (simp add: note_handshake_def is_under_load_def limiter_reset_def word_le_nat_alt unat_of_nat)

theorem limit_per_window_witness:
  "\<not> fst (note_handshake (((snd \<circ> note_handshake) ^^ 9) (limiter_reset 5 (rate_limiter_new DEFAULT_LIMIT 0))))
   \<and> fst (note_handshake (((snd \<circ> note_handshake) ^^ 10) (limiter_reset 5 (rate_limiter_new DEFAULT_LIMIT 0))))"
  using limit_per_window [of 9 5 "rate_limiter_new DEFAULT_LIMIT 0"] limit_per_window [of 10 5 "rate_limiter_new DEFAULT_LIMIT 0"]
  by (simp add: rate_limiter_new_def DEFAULT_LIMIT_def)



end
