(* ===== verification/Tunn.thy ===== *)
theory Tunn
  imports Tunnel_Link Tunnel_Buffer Simd Slab_Pool Rate_Limiter
begin

text \<open>
  \<open>src/embed/src/lib.rs\<close>: the tunnel with clock, entropy, rate limiter and packet queue around the core
  \<open>Tunnel\<close>. The operations pass the state of \<open>Tunn\<close> and the caller's buffer explicitly. The rate
  limiter and the pool are behind \<open>Arc\<close>s in the code: their fields here hold the current contents of
  the shared objects. The operating system's generator is the parameter \<open>fill\<close> (\<open>rng.rs\<close> maps each
  failure of \<open>getrandom\<close> to \<open>EntropyError\<close>, the value \<open>None\<close>), and every reading of the clocks is an
  argument.
\<close>

subsection \<open>Types\<close>

definition MAX_QUEUE_DEPTH :: nat where
  "MAX_QUEUE_DEPTH = 256"

datatype tunn_result = Done | Err error | WriteToNetwork bytes | WriteToTunnel bytes

record 'r tunn =
  u_inner :: tunnel
  u_limiter :: rate_limiter
  u_pool :: slab_pool
  u_queue :: "pooled_buf list"
  u_rng :: 'r
  u_epoch :: instant
  u_drainable :: bool

text \<open>One reading of \<open>Instant::now()\<close> and of \<open>SystemTime::now()\<close>, the latter in nanoseconds since
  the Unix epoch, negative before it.\<close>

record clocks =
  ck_instant :: instant
  ck_wall :: int

definition tunn_now :: "instant \<Rightarrow> clocks \<Rightarrow> now" where
  "tunn_now epoch ck =
     (let mono = elapsed_ns epoch (ck_instant ck);
          wall = (if ck_wall ck < 0 then 0 else ck_wall ck)
      in now_new mono (of_int (wall div 1000000000)) (of_int (wall mod 1000000000)))"

text \<open>A socket address: octets and port, for IPv6 also flow label and scope.\<close>

datatype socket_addr = V4 bytes u16 | V6 bytes u16 u32 u32

fun addr_port :: "socket_addr \<Rightarrow> u16" where
  "addr_port (V4 _ port) = port"
| "addr_port (V6 _ port _ _) = port"

definition encode_addr :: "socket_addr \<Rightarrow> bytes" where
  "encode_addr addr =
     (let b = replicate 18 0;
          b = (case addr of V4 ip _ \<Rightarrow> put 0 ip b | V6 ip _ _ _ \<Rightarrow> put 0 ip b)
      in put 16 (be_bytes 2 (addr_port addr)) b)"

subsection \<open>Construction\<close>

definition tunn_with_pool ::
  "bytes \<Rightarrow> bytes \<Rightarrow> bytes option \<Rightarrow> u16 option \<Rightarrow> rate_limiter option \<Rightarrow> slab_pool \<Rightarrow> instant \<Rightarrow> 'r \<Rightarrow> 'r tunn result" where
  "tunn_with_pool static_private peer_static_public preshared_key persistent_keepalive limiter pool now rng =
     (let config = config_new static_private peer_static_public;
          config = (case preshared_key of Some psk \<Rightarrow> config\<lparr> cfg_psk := psk \<rparr> | None \<Rightarrow> config);
          config = config\<lparr> cfg_persistent_keepalive :=
                     Option.bind persistent_keepalive (\<lambda>i. if i = 0 then None else Some i) \<rparr>
      in and_then (with_backend config) (\<lambda>inner. Inr
           \<lparr> u_inner = inner,
             u_limiter = (case limiter of Some rl \<Rightarrow> rl | None \<Rightarrow> rate_limiter_new DEFAULT_LIMIT now),
             u_pool = pool, u_queue = [], u_rng = rng, u_epoch = now, u_drainable = False \<rparr>))"

definition tunn_new ::
  "bytes \<Rightarrow> bytes \<Rightarrow> bytes option \<Rightarrow> u16 option \<Rightarrow> rate_limiter option \<Rightarrow> instant \<Rightarrow> 'r \<Rightarrow> 'r tunn result" where
  "tunn_new static_private peer_static_public preshared_key persistent_keepalive limiter now rng =
     tunn_with_pool static_private peer_static_public preshared_key persistent_keepalive limiter for_wireguard now rng"

subsection \<open>The packet queue\<close>

definition queue_packet :: "'r tunn \<Rightarrow> bytes \<Rightarrow> 'r tunn" where
  "queue_packet u packet =
     (if packet = [] then u
      else if length (u_queue u) < MAX_QUEUE_DEPTH then
        let (b, pool) = copy_from (u_pool u) packet
        in u\<lparr> u_queue := u_queue u @ [b], u_pool := pool \<rparr>
      else u)"

text \<open>A packet that was sent goes out of scope and returns its slab to the pool.\<close>

definition drain_queue_step ::
  "target_arch \<Rightarrow> 'r fill \<Rightarrow> clocks \<Rightarrow> bytes \<Rightarrow> 'r tunn \<Rightarrow> tunn_result \<times> bytes \<times> 'r tunn" where
  "drain_queue_step arch fill ck dst u =
     (if \<not> u_drainable u then (Done, dst, u)
      else case u_queue u of
        [] \<Rightarrow> (Done, dst, u\<lparr> u_drainable := False \<rparr>)
      | packet # rest \<Rightarrow>
        (case encapsulate (simd_best arch) fill (u_inner u) (tunn_now (u_epoch u) ck) (pb_deref packet) dst (u_rng u) of
           (r, inner, dst, rng) \<Rightarrow>
             let u = u\<lparr> u_inner := inner, u_rng := rng, u_queue := rest \<rparr>
             in (case r of
                   Inr (Transport w) \<Rightarrow> (WriteToNetwork w, dst, u\<lparr> u_pool := fst (pb_drop (u_pool u) packet) \<rparr>)
                 | Inr (EncapInitiation w) \<Rightarrow>
                     (WriteToNetwork w, dst, u\<lparr> u_queue := packet # rest, u_drainable := False \<rparr>)
                 | Inl e \<Rightarrow> (Err e, dst, u\<lparr> u_queue := packet # rest, u_drainable := False \<rparr>))))"

text \<open>\<open>packet_queue.clear()\<close> drops every buffer, front to back.\<close>

definition clear_queue :: "'r tunn \<Rightarrow> 'r tunn" where
  "clear_queue u = u\<lparr> u_queue := [], u_pool := fold (\<lambda>b p. fst (pb_drop p b)) (u_queue u) (u_pool u) \<rparr>"

subsection \<open>The operations\<close>

definition tunn_encapsulate ::
  "target_arch \<Rightarrow> 'r fill \<Rightarrow> clocks \<Rightarrow> bytes \<Rightarrow> bytes \<Rightarrow> 'r tunn \<Rightarrow> tunn_result \<times> bytes \<times> 'r tunn" where
  "tunn_encapsulate arch fill ck src dst u =
     (case encapsulate (simd_best arch) fill (u_inner u) (tunn_now (u_epoch u) ck) src dst (u_rng u) of
        (r, inner, dst, rng) \<Rightarrow>
          let u = u\<lparr> u_inner := inner, u_rng := rng \<rparr>
          in (case r of
                Inr (Transport w) \<Rightarrow> (WriteToNetwork w, dst, u)
              | Inr (EncapInitiation w) \<Rightarrow> (WriteToNetwork w, dst, queue_packet u src)
              | Inl e \<Rightarrow> if e = NotEstablished then (Done, dst, queue_packet u src) else (Err e, dst, u)))"

definition is_handshake_kind :: "bytes \<Rightarrow> bool" where
  "is_handshake_kind datagram =
     (case peek datagram of
        Inr (KindInitiation _) \<Rightarrow> True
      | Inr (KindResponse _ _) \<Rightarrow> True
      | _ \<Rightarrow> False)"

text \<open>\<open>dst.get(..n).unwrap_or(&[])\<close>\<close>

definition prefix_or_empty :: "nat \<Rightarrow> bytes \<Rightarrow> bytes" where
  "prefix_or_empty n dst = (case get_to n dst of Some d \<Rightarrow> d | None \<Rightarrow> [])"

text \<open>After a completed handshake: the confirming keepalive, or the first queued packet. \<open>now\<close> was
  read before the datagram was processed; \<open>ck2\<close> is read by the drain step.\<close>

definition handshake_completed ::
  "target_arch \<Rightarrow> 'r fill \<Rightarrow> now \<Rightarrow> clocks \<Rightarrow> bytes \<Rightarrow> 'r tunn \<Rightarrow> tunn_result \<times> bytes \<times> 'r tunn" where
  "handshake_completed arch fill now ck2 dst u =
     (let u = u\<lparr> u_drainable := True \<rparr>
      in case poll (simd_best arch) fill (u_inner u) now dst (u_rng u) of
           (r, inner, dst, rng) \<Rightarrow>
             let u = u\<lparr> u_inner := inner, u_rng := rng \<rparr>
             in (case r of
                   Inr (Send w _) \<Rightarrow> (WriteToNetwork (prefix_or_empty (length w) dst), dst, u)
                 | _ \<Rightarrow> drain_queue_step arch fill ck2 dst u))"

definition tunn_decapsulate ::
  "target_arch \<Rightarrow> 'r fill \<Rightarrow> clocks \<Rightarrow> clocks \<Rightarrow> socket_addr option \<Rightarrow> bytes \<Rightarrow> bytes \<Rightarrow> 'r tunn
     \<Rightarrow> tunn_result \<times> bytes \<times> 'r tunn" where
  "tunn_decapsulate arch fill ck ck2 src_addr datagram dst u =
     (if datagram = [] then drain_queue_step arch fill ck dst u
      else
        let (under_load, limiter) =
              (if is_handshake_kind datagram then note_handshake (u_limiter u) else (False, u_limiter u));
            u = u\<lparr> u_limiter := limiter \<rparr>;
            remote = (case src_addr of Some a \<Rightarrow> encode_addr a | None \<Rightarrow> []);
            now = tunn_now (u_epoch u) ck
        in case decapsulate (simd_best arch) fill (u_inner u) now remote (under_load \<and> src_addr \<noteq> None)
                  datagram dst (u_rng u) of
             (r, inner, dst, rng) \<Rightarrow>
               let u = u\<lparr> u_inner := inner, u_rng := rng \<rparr>
               in (case r of
                     Inr (Data d) \<Rightarrow>
                       (WriteToTunnel (prefix_or_empty (case ip_packet_len d of Some n \<Rightarrow> n | None \<Rightarrow> length d) dst), dst, u)
                   | Inr (Reply w) \<Rightarrow> (WriteToNetwork (prefix_or_empty (length w) dst), dst, u)
                   | Inr HandshakeComplete \<Rightarrow> handshake_completed arch fill now ck2 dst u
                   | Inr Keepalive \<Rightarrow> (Done, dst, u)
                   | Inr CookieStored \<Rightarrow> (Done, dst, u)
                   | Inl e \<Rightarrow> (Err e, dst, u)))"

definition update_timers ::
  "target_arch \<Rightarrow> 'r fill \<Rightarrow> instant \<Rightarrow> clocks \<Rightarrow> bytes \<Rightarrow> 'r tunn \<Rightarrow> tunn_result \<times> bytes \<times> 'r tunn" where
  "update_timers arch fill t ck dst u =
     (let u = u\<lparr> u_limiter := maybe_reset t (u_limiter u) \<rparr>
      in case poll (simd_best arch) fill (u_inner u) (tunn_now (u_epoch u) ck) dst (u_rng u) of
           (r, inner, dst, rng) \<Rightarrow>
             let u = u\<lparr> u_inner := inner, u_rng := rng \<rparr>
             in (case r of
                   Inr (Send w _) \<Rightarrow> (WriteToNetwork w, dst, u)
                 | Inr HandshakeExpired \<Rightarrow> (Err NotEstablished, dst, clear_queue u)
                 | Inr SessionsExpired \<Rightarrow> (Err Expired, dst, u)
                 | Inr Idle \<Rightarrow> (Done, dst, u)
                 | Inl e \<Rightarrow> (Err e, dst, u)))"

text \<open>\<open>Instant::checked_add\<close> fails beyond the last representable instant \<open>limit\<close>.\<close>

definition tunn_next_wake :: "instant \<Rightarrow> 'r tunn \<Rightarrow> instant option" where
  "tunn_next_wake limit u =
     map_option (\<lambda>t. if u_epoch u + unat t \<le> limit then u_epoch u + unat t else u_epoch u) (next_wake (u_inner u))"

definition format_handshake_initiation ::
  "'r fill \<Rightarrow> clocks \<Rightarrow> bytes \<Rightarrow> 'r tunn \<Rightarrow> tunn_result \<times> bytes \<times> 'r tunn" where
  "format_handshake_initiation fill ck dst u =
     (case initiate_handshake fill (u_inner u) (tunn_now (u_epoch u) ck) dst (u_rng u) of
        (r, inner, dst, rng) \<Rightarrow>
          let u = u\<lparr> u_inner := inner, u_rng := rng \<rparr>
          in (case r of
                Inr w \<Rightarrow> (WriteToNetwork w, dst, u)
              | Inl e \<Rightarrow> if e = HandshakeRateLimited then (Done, dst, u) else (Err e, dst, u)))"

subsection \<open>The invariant\<close>

text \<open>A queued packet sits in a slab of the pool.\<close>

definition queued_ok :: "nat \<Rightarrow> pooled_buf \<Rightarrow> bool" where
  "queued_ok l b \<longleftrightarrow> pb_storage b \<noteq> None \<and> capacity b = l \<and> pb_len b \<le> l"

definition tunn_ok :: "'r tunn \<Rightarrow> bool" where
  "tunn_ok u \<longleftrightarrow> tunnel_inv (u_inner u) \<and> slab_pool_ok (u_pool u)
     \<and> length (u_queue u) \<le> MAX_QUEUE_DEPTH \<and> list_all (queued_ok (sp_slab_len (u_pool u))) (u_queue u)"

text \<open>Outstanding slabs not held by the queue: unchanged by every operation.\<close>

definition held_elsewhere :: "'r tunn \<Rightarrow> u64" where
  "held_elsewhere u = sp_outstanding (u_pool u) - of_nat (length (u_queue u))"

text \<open>What an operation leaves alone: its callers' slabs, the slab size and the epoch.\<close>

definition same_frame :: "'r tunn \<Rightarrow> 'r tunn \<Rightarrow> bool" where
  "same_frame u u' \<longleftrightarrow> held_elsewhere u' = held_elsewhere u \<and> sp_slab_len (u_pool u') = sp_slab_len (u_pool u) \<and> u_epoch u' = u_epoch u"

definition tunn_step_ok :: "bytes \<Rightarrow> 'r tunn \<Rightarrow> tunn_result \<times> bytes \<times> 'r tunn \<Rightarrow> bool" where
  "tunn_step_ok dst u res \<longleftrightarrow> tunn_ok (snd (snd res)) \<and> same_frame u (snd (snd res)) \<and> fst res \<noteq> Err Internal
     \<and> length (fst (snd res)) = length dst"

lemma same_frame_refl [simp]: "same_frame u u"
  by (simp add: same_frame_def)

lemma same_frame_trans: "same_frame a b \<Longrightarrow> same_frame b c \<Longrightarrow> same_frame a c"
  by (simp add: same_frame_def)

lemma same_frame_irrelevant [simp]:
  "same_frame u (u'\<lparr> u_inner := tn \<rparr>) = same_frame u u'" "same_frame u (u'\<lparr> u_rng := rng \<rparr>) = same_frame u u'"
  "same_frame u (u'\<lparr> u_limiter := rl \<rparr>) = same_frame u u'" "same_frame u (u'\<lparr> u_drainable := d \<rparr>) = same_frame u u'"
  "same_frame (u\<lparr> u_inner := tn \<rparr>) u' = same_frame u u'" "same_frame (u\<lparr> u_rng := rng \<rparr>) u' = same_frame u u'"
  "same_frame (u\<lparr> u_limiter := rl \<rparr>) u' = same_frame u u'" "same_frame (u\<lparr> u_drainable := d \<rparr>) u' = same_frame u u'"
  by (simp_all add: same_frame_def held_elsewhere_def)

lemma tunn_ok_irrelevant [simp]:
  "tunn_ok (u\<lparr> u_rng := rng \<rparr>) = tunn_ok u" "tunn_ok (u\<lparr> u_limiter := rl \<rparr>) = tunn_ok u"
  "tunn_ok (u\<lparr> u_drainable := d \<rparr>) = tunn_ok u"
  by (simp_all add: tunn_ok_def)

lemma tunn_ok_inner: "tunn_ok u \<Longrightarrow> tunnel_inv tn \<Longrightarrow> tunn_ok (u\<lparr> u_inner := tn \<rparr>)"
  by (simp add: tunn_ok_def)

lemma tunn_ok_inv: "tunn_ok u \<Longrightarrow> tunnel_inv (u_inner u)"
  by (simp add: tunn_ok_def)

lemma queue_packet_ok:
  assumes "tunn_ok u"
  shows "tunn_ok (queue_packet u packet)" and "same_frame u (queue_packet u packet)"
proof -
  obtain b pool where c: "copy_from (u_pool u) packet = (b, pool)" by force
  have "slab_pool_ok (u_pool u)" using assms by (simp add: tunn_ok_def)
  note k = copy_from_ok [OF this c]
  show "tunn_ok (queue_packet u packet)" "same_frame u (queue_packet u packet)"
    using assms k by (auto simp: queue_packet_def tunn_ok_def same_frame_def held_elsewhere_def queued_ok_def c)
qed

lemma drops_ok:
  "slab_pool_ok p \<Longrightarrow> list_all (queued_ok (sp_slab_len p)) q \<Longrightarrow>
     slab_pool_ok (fold (\<lambda>b p. fst (pb_drop p b)) q p)
     \<and> sp_slab_len (fold (\<lambda>b p. fst (pb_drop p b)) q p) = sp_slab_len p
     \<and> sp_outstanding (fold (\<lambda>b p. fst (pb_drop p b)) q p) = sp_outstanding p - of_nat (length q)"
proof (induction q arbitrary: p)
  case (Cons b q)
  from pb_drop_ok [OF Cons.prems(1), of b] Cons.IH [of "fst (pb_drop p b)"] Cons.prems show ?case
    by (auto simp: queued_ok_def)
qed simp

lemma clear_queue_ok:
  assumes "tunn_ok u"
  shows "tunn_ok (clear_queue u)" and "same_frame u (clear_queue u)"
  using drops_ok [of "u_pool u" "u_queue u"] assms
  by (simp_all add: clear_queue_def tunn_ok_def same_frame_def held_elsewhere_def)

lemma best_ok [simp]: "chacha_impl (simd_best arch)"
  by (rule simd_best_impl)

lemma drain_queue_step_ok:
  assumes "tunn_ok u" and "clock_ok (tunn_now (u_epoch u) ck)" and "length dst < 2 ^ 63"
  shows "tunn_step_ok dst u (drain_queue_step arch fill ck dst u)"
proof (cases "u_drainable u \<and> u_queue u \<noteq> []")
  case True
  then obtain packet rest where q: "u_queue u = packet # rest" by (cases "u_queue u") auto
  obtain r inner dst' rng where e:
    "encapsulate (simd_best arch) fill (u_inner u) (tunn_now (u_epoch u) ck) (pb_deref packet) dst (u_rng u) = (r, inner, dst', rng)"
    by (metis prod_cases4)
  note i = encapsulate_inv [OF tunn_ok_inv [OF assms(1)] assms(2) best_ok assms(3) e]
    wrote_length [OF encapsulate_out [OF tunn_ok_inv [OF assms(1)] best_ok assms(3) e]]
  have "slab_pool_ok (u_pool u)" using assms(1) by (simp add: tunn_ok_def)
  note p = pb_drop_ok [OF this, of packet]
  show ?thesis
    using assms(1) True i p
    by (auto simp: drain_queue_step_def q e Let_def tunn_step_ok_def tunn_ok_def same_frame_def held_elsewhere_def queued_ok_def
        split: sum.split encapsulated.split)
qed (use assms(1) in \<open>auto simp: drain_queue_step_def tunn_step_ok_def split: list.split\<close>)

lemma tunn_encapsulate_ok:
  assumes "tunn_ok u" and "clock_ok (tunn_now (u_epoch u) ck)" and "length dst < 2 ^ 63"
  shows "tunn_step_ok dst u (tunn_encapsulate arch fill ck src dst u)"
proof -
  obtain r inner dst' rng where e:
    "encapsulate (simd_best arch) fill (u_inner u) (tunn_now (u_epoch u) ck) src dst (u_rng u) = (r, inner, dst', rng)"
    by (metis prod_cases4)
  note i = encapsulate_inv [OF tunn_ok_inv [OF assms(1)] assms(2) best_ok assms(3) e]
    wrote_length [OF encapsulate_out [OF tunn_ok_inv [OF assms(1)] best_ok assms(3) e]]
  let ?u = "u\<lparr> u_inner := inner, u_rng := rng \<rparr>"
  have "tunn_ok ?u" "same_frame u ?u" using tunn_ok_inner [OF assms(1) i(1)] by simp_all
  with queue_packet_ok [of ?u src] same_frame_trans [of u ?u "queue_packet ?u src"] i(3,4) show ?thesis
    by (auto simp: tunn_encapsulate_def e Let_def tunn_step_ok_def split: sum.split encapsulated.split)
qed

lemma handshake_completed_ok:
  assumes "tunn_ok u" and "clock_ok now" and "clock_ok (tunn_now (u_epoch u) ck2)" and "length dst < 2 ^ 63"
  shows "tunn_step_ok dst u (handshake_completed arch fill now ck2 dst u)"
proof -
  obtain r inner dst' rng where e: "poll (simd_best arch) fill (u_inner u) now dst (u_rng u) = (r, inner, dst', rng)"
    by (metis prod_cases4)
  note i = poll_inv [OF tunn_ok_inv [OF assms(1)] assms(2) best_ok assms(4) e]
    wrote_length [OF poll_out [OF tunn_ok_inv [OF assms(1)] best_ok assms(4) e]]
  let ?u = "u\<lparr> u_drainable := True, u_inner := inner, u_rng := rng \<rparr>"
  have u: "tunn_ok ?u" "same_frame u ?u" using tunn_ok_inner [of "u\<lparr> u_drainable := True \<rparr>"] assms(1) i(1) by simp_all
  have "tunn_step_ok dst' ?u (drain_queue_step arch fill ck2 dst' ?u)"
    using drain_queue_step_ok [OF u(1), of ck2 dst'] assms(3,4) i(4) by simp
  then have d: "tunn_step_ok dst u (drain_queue_step arch fill ck2 dst' ?u)"
    using same_frame_trans [OF u(2)] i(4) by (simp add: tunn_step_ok_def)
  have w: "tunn_step_ok dst u (WriteToNetwork v, dst', ?u)" for v using u i(4) by (simp add: tunn_step_ok_def)
  show ?thesis using d w by (auto simp: handshake_completed_def e Let_def split: sum.split poll_output.split)
qed

lemma tunn_decapsulate_eq:
  assumes "datagram \<noteq> []"
    and "(if is_handshake_kind datagram then note_handshake (u_limiter u) else (False, u_limiter u)) = (ul, rl)"
    and "decapsulate (simd_best arch) fill (u_inner u) (tunn_now (u_epoch u) ck)
      (case src_addr of Some a \<Rightarrow> encode_addr a | None \<Rightarrow> []) (ul \<and> src_addr \<noteq> None) datagram dst (u_rng u) = (r, inner, dst', rng)"
    and "u' = u\<lparr> u_limiter := rl, u_inner := inner, u_rng := rng \<rparr>"
  shows "tunn_decapsulate arch fill ck ck2 src_addr datagram dst u =
    (case r of
       Inr (Data d) \<Rightarrow> (WriteToTunnel (prefix_or_empty (case ip_packet_len d of Some n \<Rightarrow> n | None \<Rightarrow> length d) dst'), dst', u')
     | Inr (Reply w) \<Rightarrow> (WriteToNetwork (prefix_or_empty (length w) dst'), dst', u')
     | Inr HandshakeComplete \<Rightarrow> handshake_completed arch fill (tunn_now (u_epoch u) ck) ck2 dst' u'
     | Inr Keepalive \<Rightarrow> (Done, dst', u')
     | Inr CookieStored \<Rightarrow> (Done, dst', u')
     | Inl e \<Rightarrow> (Err e, dst', u'))"
  using assms by (simp add: tunn_decapsulate_def Let_def del: not_None_eq split: sum.split received.split)

lemma tunn_decapsulate_ok:
  assumes "tunn_ok u" and "clock_ok (tunn_now (u_epoch u) ck)" and "clock_ok (tunn_now (u_epoch u) ck2)" and "length dst < 2 ^ 63"
  shows "tunn_step_ok dst u (tunn_decapsulate arch fill ck ck2 src_addr datagram dst u)"
proof (cases "datagram = []")
  case True
  then show ?thesis using drain_queue_step_ok [OF assms(1,2,4)] by (simp add: tunn_decapsulate_def)
next
  case False
  obtain ul rl where l: "(if is_handshake_kind datagram then note_handshake (u_limiter u) else (False, u_limiter u)) = (ul, rl)" by force
  let ?now = "tunn_now (u_epoch u) ck" and ?remote = "case src_addr of Some a \<Rightarrow> encode_addr a | None \<Rightarrow> []"
  obtain r inner dst' rng where e:
    "decapsulate (simd_best arch) fill (u_inner u) ?now ?remote (ul \<and> src_addr \<noteq> None) datagram dst (u_rng u) = (r, inner, dst', rng)"
    by (metis prod_cases4)
  note i = decapsulate_inv [OF tunn_ok_inv [OF assms(1)] assms(2) e] wrote_length [OF decapsulate_out [OF best_ok e]]
  let ?u = "u\<lparr> u_limiter := rl, u_inner := inner, u_rng := rng \<rparr>"
  have u: "tunn_ok ?u" "same_frame u ?u" using tunn_ok_inner [of "u\<lparr> u_limiter := rl \<rparr>"] assms(1) i(1) by simp_all
  have "tunn_step_ok dst' ?u (handshake_completed arch fill ?now ck2 dst' ?u)"
    using handshake_completed_ok [OF u(1) assms(2), of ck2 dst'] assms(3,4) i(3) by simp
  then have h: "tunn_step_ok dst u (handshake_completed arch fill ?now ck2 dst' ?u)"
    using same_frame_trans [OF u(2)] i(3) by (simp add: tunn_step_ok_def)
  have w: "tunn_step_ok dst u (v, dst', ?u)" if "v \<noteq> Err Internal" for v using that u i(3) by (simp add: tunn_step_ok_def)
  have x: "er \<noteq> Internal" if "r = Inl er" for er
    using decapsulate_error(3) [OF best_ok e [unfolded that]] .
  show ?thesis
    using h w x by (auto simp: tunn_decapsulate_eq [OF False l e refl] split: sum.split received.split)
qed

lemma update_timers_ok:
  assumes "tunn_ok u" and "clock_ok (tunn_now (u_epoch u) ck)" and "length dst < 2 ^ 63"
  shows "tunn_step_ok dst u (update_timers arch fill t ck dst u)"
proof -
  obtain r inner dst' rng where e:
    "poll (simd_best arch) fill (u_inner u) (tunn_now (u_epoch u) ck) dst (u_rng u) = (r, inner, dst', rng)"
    by (metis prod_cases4)
  note i = poll_inv [OF tunn_ok_inv [OF assms(1)] assms(2) best_ok assms(3) e]
    wrote_length [OF poll_out [OF tunn_ok_inv [OF assms(1)] best_ok assms(3) e]]
  let ?u = "u\<lparr> u_limiter := maybe_reset t (u_limiter u), u_inner := inner, u_rng := rng \<rparr>"
  have u: "tunn_ok ?u" "same_frame u ?u"
    using tunn_ok_inner [of "u\<lparr> u_limiter := maybe_reset t (u_limiter u) \<rparr>"] assms(1) i(1) by simp_all
  have w: "tunn_step_ok dst u (v, dst', ?u)" if "v \<noteq> Err Internal" for v using that u i(4) by (simp add: tunn_step_ok_def)
  have c: "tunn_step_ok dst u (Err NotEstablished, dst', clear_queue ?u)"
    using clear_queue_ok [OF u(1)] same_frame_trans [OF u(2)] i(4) by (simp add: tunn_step_ok_def)
  show ?thesis using w c i(3) by (auto simp: update_timers_def e Let_def split: sum.split poll_output.split)
qed

lemma format_handshake_initiation_ok:
  assumes "tunn_ok u" and "clock_ok (tunn_now (u_epoch u) ck)"
  shows "tunn_step_ok dst u (format_handshake_initiation fill ck dst u)"
proof -
  obtain r inner dst' rng where e:
    "initiate_handshake fill (u_inner u) (tunn_now (u_epoch u) ck) dst (u_rng u) = (r, inner, dst', rng)"
    by (metis prod_cases4)
  note i = initiate_handshake_inv [OF tunn_ok_inv [OF assms(1)] assms(2) e]
    wrote_length [OF initiate_handshake_out [OF tunn_ok_inv [OF assms(1)] e]]
  have u: "tunn_ok (u\<lparr> u_inner := inner, u_rng := rng \<rparr>)" using tunn_ok_inner [OF assms(1) i(1)] by simp
  show ?thesis using u i(3,4) by (auto simp: format_handshake_initiation_def e Let_def tunn_step_ok_def split: sum.split)
qed

lemma tunn_with_pool_ok:
  assumes "slab_pool_ok pool" and "tunn_with_pool sk pk psk ka limiter pool now rng = Inr u"
  shows "tunn_ok u" and "held_elsewhere u = sp_outstanding pool" and "\<not> u_drainable u"
proof -
  let ?c = "(case psk of Some psk \<Rightarrow> (config_new sk pk)\<lparr> cfg_psk := psk \<rparr> | None \<Rightarrow> config_new sk pk)
      \<lparr> cfg_persistent_keepalive := Option.bind ka (\<lambda>i. if i = 0 then None else Some i) \<rparr>"
  obtain inner where b: "with_backend ?c = Inr inner" and q: "u_inner u = inner" "u_pool u = pool" "u_queue u = []" "\<not> u_drainable u"
    using assms(2) by (auto simp: tunn_with_pool_def and_then_def Let_def split: sum.splits)
  have "cfg_persistent_keepalive ?c \<noteq> Some 0" by (cases ka) auto
  from tunnel_fresh_inv [OF this] b have "tunnel_inv inner"
    by (auto simp: with_backend_def and_then_def Let_def split: if_splits sum.splits)
  with assms(1) q show "tunn_ok u" "held_elsewhere u = sp_outstanding pool" "\<not> u_drainable u"
    by (simp_all add: tunn_ok_def held_elsewhere_def)
qed

subsection \<open>Calls and runs\<close>

datatype tunn_call =
    Call_encapsulate clocks bytes
  | Call_decapsulate clocks clocks "socket_addr option" bytes
  | Call_update_timers instant clocks
  | Call_initiate clocks

fun do_call :: "target_arch \<Rightarrow> 'r fill \<Rightarrow> tunn_call \<Rightarrow> bytes \<Rightarrow> 'r tunn \<Rightarrow> tunn_result \<times> bytes \<times> 'r tunn" where
  "do_call arch fill (Call_encapsulate ck src) dst u = tunn_encapsulate arch fill ck src dst u"
| "do_call arch fill (Call_decapsulate ck ck2 addr d) dst u = tunn_decapsulate arch fill ck ck2 addr d dst u"
| "do_call arch fill (Call_update_timers t ck) dst u = update_timers arch fill t ck dst u"
| "do_call arch fill (Call_initiate ck) dst u = format_handshake_initiation fill ck dst u"

text \<open>Clock readings within \<open>2 ^ 63\<close> nanoseconds of the epoch and a buffer shorter than \<open>2 ^ 63\<close> bytes.\<close>

fun call_ok :: "instant \<Rightarrow> tunn_call \<Rightarrow> bool" where
  "call_ok epoch (Call_encapsulate ck _) = clock_ok (tunn_now epoch ck)"
| "call_ok epoch (Call_decapsulate ck ck2 _ _) = (clock_ok (tunn_now epoch ck) \<and> clock_ok (tunn_now epoch ck2))"
| "call_ok epoch (Call_update_timers _ ck) = clock_ok (tunn_now epoch ck)"
| "call_ok epoch (Call_initiate ck) = clock_ok (tunn_now epoch ck)"

lemma tunn_call_ok:
  assumes "tunn_ok u" and "call_ok (u_epoch u) call" and "length dst < 2 ^ 63"
  shows "tunn_step_ok dst u (do_call arch fill call dst u)"
  using assms
  by (cases call) (simp_all add: tunn_encapsulate_ok tunn_decapsulate_ok update_timers_ok format_handshake_initiation_ok)

text \<open>A run: calls in any order, interleaved with what the other owners of the pool and of the limiter do.\<close>

inductive tunn_run :: "target_arch \<Rightarrow> 'r fill \<Rightarrow> 'r tunn \<Rightarrow> tunn_result list \<Rightarrow> 'r tunn \<Rightarrow> bool"
  for arch fill u0 where
  start: "tunn_run arch fill u0 [] u0"
| call: "tunn_run arch fill u0 rs u \<Longrightarrow> call_ok (u_epoch u) c \<Longrightarrow> length dst < 2 ^ 63 \<Longrightarrow>
    do_call arch fill c dst u = (r, dst', u') \<Longrightarrow> tunn_run arch fill u0 (rs @ [r]) u'"
| others: "tunn_run arch fill u0 rs u \<Longrightarrow> slab_pool_ok pool \<Longrightarrow> sp_slab_len pool = sp_slab_len (u_pool u) \<Longrightarrow>
    tunn_run arch fill u0 rs (u\<lparr> u_pool := pool, u_limiter := rl \<rparr>)"

lemma tunn_run_ok:
  assumes "tunn_run arch fill u0 rs u" and "tunn_ok u0"
  shows "tunn_ok u \<and> Err Internal \<notin> set rs"
  using assms
proof induction
  case (call rs u c dst r dst' u')
  then show ?case using tunn_call_ok [of u c dst arch fill] by (auto simp: tunn_step_ok_def)
next
  case (others rs u pool rl)
  then show ?case by (simp add: tunn_ok_def)
qed simp

subsection \<open>Packets that do not fit\<close>

text \<open>A packet at the head of the queue that does not fit the caller's buffer is put back, and
  draining is switched off.\<close>

lemma oversized_head:
  assumes "tunn_ok u" and "u_drainable u" and "u_queue u = b # rest" and "length dst < 2 ^ 63"
    and "t_current (u_inner u) = Some s" and "usable_for_send s (max (now_ticks (tunn_now (u_epoch u) ck)) (t_last_now (u_inner u)))"
    and "length dst < padded_len (length (pb_deref b)) (t_mtu (u_inner u)) + 32"
  shows "\<exists>inner. drain_queue_step arch fill ck dst u = (Err BufferTooSmall, dst, u\<lparr> u_inner := inner, u_drainable := False \<rparr>)
    \<and> t_current inner = Some s"
proof -
  have "encapsulate (simd_best arch) fill (u_inner u) (tunn_now (u_epoch u) ck) (pb_deref b) dst (u_rng u) =
      (Inl BufferTooSmall, (u_inner u)\<lparr> t_last_now := max (now_ticks (tunn_now (u_epoch u) ck)) (t_last_now (u_inner u)) \<rparr>, dst, u_rng u)"
    using assms(5-7) by (simp add: encapsulate_def clamp_now_eq is_some_and_def encapsulate_transport_eq [OF best_ok assms(4)] Let_def)
  with assms(2,3,5) show ?thesis
    by (intro exI [of _ "(u_inner u)\<lparr> t_last_now := max (now_ticks (tunn_now (u_epoch u) ck)) (t_last_now (u_inner u)) \<rparr>"])
      (simp add: drain_queue_step_def Let_def)
qed

subsection \<open>The address token\<close>

lemma length_encode_addr:
  "length ip = 4 \<Longrightarrow> length (encode_addr (V4 ip port)) = 18"
  "length ip = 16 \<Longrightarrow> length (encode_addr (V6 ip port flow scope)) = 18"
  by (simp_all add: encode_addr_def put_def Let_def)

lemma encode_addr_eq:
  "length ip = 4 \<Longrightarrow> encode_addr (V4 ip port) = ip @ replicate 12 0 @ be_bytes 2 port"
  "length ip = 16 \<Longrightarrow> encode_addr (V6 ip port flow scope) = ip @ be_bytes 2 port"
  by (simp_all add: encode_addr_def put_def Let_def drop_Cons' numeral_eq_Suc)

lemma be_bytes_inj: "be_bytes 2 p = be_bytes 2 q \<longleftrightarrow> p = (q :: u16)"
proof -
  have "from_be (be_bytes 2 r) = r" for r :: u16 by (rule from_be_be_bytes) simp
  then show ?thesis by metis
qed

text \<open>Within one address family two endpoints have the same token exactly when address and port agree;
  flow label and scope do not enter.\<close>

lemma encode_addr_token:
  "length ip = 4 \<Longrightarrow> length ip' = 4 \<Longrightarrow> encode_addr (V4 ip port) = encode_addr (V4 ip' port') \<longleftrightarrow> ip = ip' \<and> port = port'"
  "length ip = 16 \<Longrightarrow> length ip' = 16 \<Longrightarrow>
     encode_addr (V6 ip port flow scope) = encode_addr (V6 ip' port' flow' scope') \<longleftrightarrow> ip = ip' \<and> port = port'"
  by (simp_all add: encode_addr_eq be_bytes_inj)

text \<open>Across the families they collide: an IPv4 address shares its token with the IPv6 address
  whose first four bytes it is, followed by zeros.\<close>

lemma encode_addr_collision:
  "length ip = 4 \<Longrightarrow> encode_addr (V4 ip port) = encode_addr (V6 (ip @ replicate 12 0) port flow scope)"
  by (simp add: encode_addr_eq)

subsection \<open>Properties\<close>

text \<open>C19: in every run of \<open>Tunn\<close>, whatever is called with whatever input and whatever the other owners of the
  shared pool and limiter do in between, the invariant holds: the core tunnel is in a state
  satisfying its own invariant, at most \<open>MAX_QUEUE_DEPTH\<close> packets are queued, each in a slab of the pool, and
  the pool is well formed. No call returns \<open>Internal\<close>. The next call leaves the slabs held outside
  the queue as they are, so no slab leaks and none is returned twice, and keeps the size of the
  caller's buffer.\<close>

theorem tunn_invariant:
  assumes "tunn_run arch fill u0 rs u" and "tunn_ok u0" and "call_ok (u_epoch u) c" and "length dst < 2 ^ 63"
    and "do_call arch fill c dst u = (r, dst', u')"
  shows "tunnel_inv (u_inner u) \<and> length (u_queue u) \<le> MAX_QUEUE_DEPTH \<and> slab_pool_ok (u_pool u) \<and> Err Internal \<notin> set rs
    \<and> sp_outstanding (u_pool u') - of_nat (length (u_queue u')) = sp_outstanding (u_pool u) - of_nat (length (u_queue u))
    \<and> length dst' = length dst"
proof -
  have "tunn_ok u" "Err Internal \<notin> set rs" using tunn_run_ok [OF assms(1,2)] by simp_all
  with tunn_call_ok [of u c dst arch fill] assms(3-5) show ?thesis
    by (simp add: tunn_ok_def tunn_step_ok_def same_frame_def held_elsewhere_def)
qed

definition example_tunn :: "unit tunn" where
  "example_tunn = \<lparr> u_inner = example_tn0, u_limiter = rate_limiter_new DEFAULT_LIMIT 0, u_pool = for_wireguard, u_queue = [],
     u_rng = (), u_epoch = 0, u_drainable = False \<rparr>"

definition example_clocks :: "instant \<Rightarrow> clocks" where
  "example_clocks t = \<lparr> ck_instant = t, ck_wall = 1700000000000000000 \<rparr>"

lemma example_tunn_ok: "tunn_ok example_tunn"
  using tunnel_fresh_inv [OF example_config_ok, of "replicate 32 3"]
  by (simp add: tunn_ok_def example_tunn_def for_wireguard_def slab_pool_new_ok example_tn0_def)

lemma example_clocks_ok: "t < 2 ^ 63 \<Longrightarrow> clock_ok (tunn_now 0 (example_clocks t))"
  by (simp add: clock_ok_def tunn_now_def example_clocks_def elapsed_ns_def now_new_def word_less_nat_alt unat_of_nat Let_def)

theorem tunn_invariant_witness:
  "\<exists>r dst' u'. do_call X86_64 const_fill (Call_encapsulate (example_clocks 7) [1, 2, 3]) (replicate 200 0) example_tunn = (r, dst', u')
     \<and> sp_outstanding (u_pool u') = of_nat (length (u_queue u')) \<and> length dst' = 200"
proof -
  obtain r dst' u' where c:
    "do_call X86_64 const_fill (Call_encapsulate (example_clocks 7) [1, 2, 3]) (replicate 200 0) example_tunn = (r, dst', u')"
    by (metis prod_cases3)
  have "sp_outstanding (u_pool u') - of_nat (length (u_queue u')) = 0 \<and> length dst' = 200"
    using tunn_invariant [OF tunn_run.start example_tunn_ok _ _ c] example_clocks_ok [of 7]
    by (simp add: example_tunn_def for_wireguard_def slab_pool_new_def)
  with c show ?thesis by simp
qed

text \<open>C37: a packet longer than a slab allows blocks the queue for good. A packet of more than the slab size less the
  32 bytes of overhead is queued without complaint, cut to the slab size. Once the session is
  there, draining into a buffer of the slab size fails with \<open>BufferTooSmall\<close>, keeps the packet at the head of the queue
  and switches draining off, so nothing behind it is sent either.\<close>

theorem oversized_packet_blocks_queue:
  assumes "tunn_ok u" and "u_queue u = []" and "sp_slab_len (u_pool u) < length packet + 32" and "length dst = sp_slab_len (u_pool u)"
    and "packet \<noteq> []" and "length dst < 2 ^ 63"
    and "t_current (u_inner u) = Some s" and "usable_for_send s (max (now_ticks (tunn_now (u_epoch u) ck)) (t_last_now (u_inner u)))"
  shows "\<exists>b inner. u_queue (queue_packet u packet) = [b] \<and> pb_deref b = take (sp_slab_len (u_pool u)) packet
    \<and> drain_queue_step arch fill ck dst ((queue_packet u packet)\<lparr> u_drainable := True \<rparr>)
        = (Err BufferTooSmall, dst, (queue_packet u packet)\<lparr> u_inner := inner, u_drainable := False \<rparr>)
    \<and> t_current inner = Some s"
proof -
  obtain b pool where c: "copy_from (u_pool u) packet = (b, pool)" by force
  have ok: "slab_pool_ok (u_pool u)" using assms(1) by (simp add: tunn_ok_def)
  note k = copy_from_ok [OF ok c]
  define u1 where "u1 = (queue_packet u packet)\<lparr> u_drainable := True \<rparr>"
  have q: "queue_packet u packet = u\<lparr> u_queue := [b], u_pool := pool \<rparr>"
    using assms(2,5) c by (simp add: queue_packet_def MAX_QUEUE_DEPTH_def)
  have u1: "u_drainable u1" "u_queue u1 = [b]" "u_inner u1 = u_inner u" "u_epoch u1 = u_epoch u" by (simp_all add: u1_def q)
  have "tunn_ok u1" using queue_packet_ok(1) [OF assms(1), of packet] by (simp add: u1_def)
  moreover have "length dst < padded_len (length (pb_deref b)) (t_mtu (u_inner u1)) + 32"
    using padded_len_bounds(1) [of "length (pb_deref b)" "t_mtu (u_inner u1)"] assms(3,4,6) k(4)
    by (auto simp: usize_max_def min_def split: if_splits)
  ultimately obtain inner where d: "drain_queue_step arch fill ck dst u1 = (Err BufferTooSmall, dst, u1\<lparr> u_inner := inner, u_drainable := False \<rparr>)"
    "t_current inner = Some s"
    using oversized_head [OF _ u1(1,2) assms(6), of s ck arch fill] assms(7,8) u1 by auto
  show ?thesis
    by (intro exI [of _ b] exI [of _ inner]) (use k(4) d in \<open>simp_all add: u1_def q\<close>)
qed

definition usable_tunn :: "unit tunn" where
  "usable_tunn = example_tunn\<lparr> u_inner := sleeper \<rparr>"

theorem oversized_packet_blocks_queue_witness:
  "\<exists>b inner. u_queue (queue_packet usable_tunn (replicate 2020 0)) = [b] \<and> length (pb_deref b) = 2020
    \<and> drain_queue_step Aarch64 const_fill (example_clocks 0) (replicate 2048 0) ((queue_packet usable_tunn (replicate 2020 0))\<lparr> u_drainable := True \<rparr>)
        = (Err BufferTooSmall, replicate 2048 0, (queue_packet usable_tunn (replicate 2020 0))\<lparr> u_inner := inner, u_drainable := False \<rparr>)"
proof -
  have u: "tunn_ok usable_tunn" "u_queue usable_tunn = []" "sp_slab_len (u_pool usable_tunn) = 2048" "u_epoch usable_tunn = 0"
    "u_inner usable_tunn = sleeper"
    using tunn_ok_inner [OF example_tunn_ok sleeper_inv]
    by (simp_all add: usable_tunn_def example_tunn_def for_wireguard_def slab_pool_new_def MAX_DATAGRAM_def)
  have s: "t_current sleeper = Some (session_new sleeper_keys 0)" "t_last_now sleeper = 0"
    by (simp_all add: sleeper_def example_tn0_def tunnel_fresh_def Let_def)
  have n: "now_ticks (tunn_now 0 (example_clocks 0)) = 0"
    by (simp add: tunn_now_def example_clocks_def elapsed_ns_def now_new_def Let_def)
  have "(replicate 2020 0 :: u8 list) \<noteq> []" by simp
  from oversized_packet_blocks_queue [OF u(1,2) _ _ this, of "replicate 2048 0" "session_new sleeper_keys 0" "example_clocks 0" Aarch64 const_fill]
  show ?thesis using sleeper_usable by (simp add: u s n) force
qed

end
