(* ===== verification/Async_Driver.thy ===== *)
theory Async_Driver
  imports Tunn
begin

text \<open>
  \<open>src/embed/src/tokio.rs\<close>: the event loop of \<open>AsyncTunn::run\<close>. One definition for each branch of the
  \<open>select!\<close>, with the state of the loop passed explicitly: the tunnel, the peer's endpoint and the
  three slabs that live for the whole loop. The socket and the channels belong to the runtime: what
  they do is an argument. \<open>tx k\<close> says whether the \<open>k\<close>-th \<open>send_to\<close> of the branch succeeds,
  \<open>consumer_open\<close> whether the receiving end of \<open>from_net\<close> is still there. A branch returns whether
  the loop goes on, the datagrams sent and the packets delivered.
\<close>

subsection \<open>State and helpers\<close>

record 'r driver =
  d_tunn :: "'r tunn"
  d_peer :: "socket_addr option"
  d_net_out :: pooled_buf
  d_tun_out :: pooled_buf
  d_rx :: pooled_buf

datatype control = Continue | Return_Ok | Return_Err

text \<open>\<open>AsyncTunn::new\<close> and the three \<open>pool.get()\<close> at the start of \<open>run\<close>.\<close>

definition driver_start :: "'r tunn \<Rightarrow> socket_addr option \<Rightarrow> 'r driver" where
  "driver_start u peer_addr =
     (let (net_out, pool) = pool_get (u_pool u);
          (tun_out, pool) = pool_get pool;
          (rx, pool) = pool_get pool
      in \<lparr> d_tunn = u\<lparr> u_pool := pool \<rparr>, d_peer = peer_addr, d_net_out = net_out, d_tun_out = tun_out, d_rx = rx \<rparr>)"

definition send_slice :: "bool \<Rightarrow> bytes \<Rightarrow> nat \<Rightarrow> socket_addr \<Rightarrow> (bytes \<times> socket_addr) list \<times> bool" where
  "send_slice tx_ok slab n dst =
     (case get_to n slab of
        Some bytes \<Rightarrow> if tx_ok then ([(bytes, dst)], True) else ([], False)
      | None \<Rightarrow> ([], True))"

subsection \<open>Draining the queue\<close>

text \<open>Each turn of the loop shortens the queue or switches draining off.\<close>

definition drain_work :: "'r tunn \<Rightarrow> nat" where
  "drain_work u = (if u_drainable u then Suc (length (u_queue u)) else 0)"

lemma drain_step_work:
  "tunn_decapsulate arch fill ck ck2 addr [] dst u = (WriteToNetwork w, dst', u') \<Longrightarrow> drain_work u' < drain_work u"
  by (auto simp: tunn_decapsulate_def drain_queue_step_def drain_work_def Let_def
      split: if_splits list.splits prod.splits sum.splits encapsulated.splits)

text \<open>The loop of \<open>drain_queue\<close>: \<open>clk k\<close> is the reading of the clocks in its \<open>k\<close>-th turn.\<close>

function drain_queue ::
  "target_arch \<Rightarrow> 'r fill \<Rightarrow> (nat \<Rightarrow> bool) \<Rightarrow> (nat \<Rightarrow> clocks) \<Rightarrow> nat \<Rightarrow> socket_addr \<Rightarrow> pooled_buf \<Rightarrow> 'r tunn
     \<Rightarrow> (bytes \<times> socket_addr) list \<times> bool \<times> pooled_buf \<times> 'r tunn" where
  "drain_queue arch fill tx clk k dst net_out u =
     (case tunn_decapsulate arch fill (clk k) (clk k) (Some dst) [] (spare_mut net_out) u of
        (WriteToNetwork w, s, u') \<Rightarrow>
          let net_out = spare_write net_out s;
              (sent, ok) = send_slice (tx k) (spare_mut net_out) (length w) dst
          in if ok then
               let (rest, ok, net_out, u'') = drain_queue arch fill tx clk (Suc k) dst net_out u'
               in (sent @ rest, ok, net_out, u'')
             else (sent, False, net_out, u')
      | (_, s, u') \<Rightarrow> ([], True, spare_write net_out s, u'))"
  by pat_completeness auto
termination
  by (relation "measure (\<lambda>(_, _, _, _, _, _, _, u). drain_work u)") (auto dest: drain_step_work [OF sym])

declare drain_queue.simps [simp del]

subsection \<open>The branches of the loop\<close>

text \<open>A datagram \<open>data\<close> from \<open>src\<close>: \<open>recv_from\<close> writes what fits into the slab and returns the length
  written. \<open>ck\<close> and \<open>ck2\<close> are the readings inside \<open>decapsulate\<close>.\<close>

definition on_recv ::
  "target_arch \<Rightarrow> 'r fill \<Rightarrow> (nat \<Rightarrow> bool) \<Rightarrow> bool \<Rightarrow> clocks \<Rightarrow> clocks \<Rightarrow> (nat \<Rightarrow> clocks) \<Rightarrow> bytes \<Rightarrow> socket_addr \<Rightarrow> 'r driver
     \<Rightarrow> control \<times> (bytes \<times> socket_addr) list \<times> pooled_buf list \<times> 'r driver" where
  "on_recv arch fill tx consumer_open ck ck2 clk data src d =
     (let n = min (length data) (length (spare_mut (d_rx d)));
          rx = set_len (spare_write (d_rx d) (put 0 (take n data) (spare_mut (d_rx d)))) n
      in case tunn_decapsulate arch fill ck ck2 (Some src) (pb_deref rx) (spare_mut (d_tun_out d)) (d_tunn d) of
           (r, s, u) \<Rightarrow>
             let tun_out = spare_write (d_tun_out d) s;
                 d = d\<lparr> d_tunn := u, d_tun_out := tun_out, d_rx := rx \<rparr>
             in (case r of
                   WriteToTunnel p \<Rightarrow>
                     let delivered = set_len tun_out (length p);
                         (fresh, pool) = pool_get (u_pool u);
                         d = d\<lparr> d_peer := Some src, d_tun_out := fresh, d_tunn := u\<lparr> u_pool := pool \<rparr> \<rparr>
                     in if consumer_open then (Continue, [], [delivered], d\<lparr> d_rx := set_len rx 0 \<rparr>)
                        else (Return_Ok, [], [], d\<lparr> d_tunn := u\<lparr> u_pool := fst (pb_drop pool delivered) \<rparr> \<rparr>)
                 | WriteToNetwork w \<Rightarrow>
                     let d = d\<lparr> d_peer := Some src \<rparr>;
                         (sent, ok) = send_slice (tx 0) (spare_mut tun_out) (length w) src
                     in if \<not> ok then (Return_Err, sent, [], d)
                        else let (rest, ok, net_out, u) = drain_queue arch fill (tx \<circ> Suc) clk 0 src (d_net_out d) u;
                                 d = d\<lparr> d_tunn := u, d_net_out := net_out \<rparr>
                             in if ok then (Continue, sent @ rest, [], d\<lparr> d_rx := set_len rx 0 \<rparr>)
                                else (Return_Err, sent @ rest, [], d)
                 | Done \<Rightarrow> (Continue, [], [], d\<lparr> d_rx := set_len rx 0 \<rparr>)
                 | Err _ \<Rightarrow> (Continue, [], [], d\<lparr> d_rx := set_len rx 0 \<rparr>)))"

text \<open>A packet from the TUN side; \<open>None\<close> when the sender is gone. The packet goes out of scope at the
  end of the branch and returns its slab.\<close>

definition on_to_net ::
  "target_arch \<Rightarrow> 'r fill \<Rightarrow> bool \<Rightarrow> clocks \<Rightarrow> pooled_buf option \<Rightarrow> 'r driver
     \<Rightarrow> control \<times> (bytes \<times> socket_addr) list \<times> 'r driver" where
  "on_to_net arch fill tx_ok ck pkt d =
     (case pkt of
        None \<Rightarrow> (Return_Ok, [], d)
      | Some pkt \<Rightarrow>
        (case tunn_encapsulate arch fill ck (pb_deref pkt) (spare_mut (d_net_out d)) (d_tunn d) of
           (r, s, u) \<Rightarrow>
             let net_out = spare_write (d_net_out d) s;
                 d' = d\<lparr> d_tunn := u\<lparr> u_pool := fst (pb_drop (u_pool u) pkt) \<rparr>, d_net_out := net_out \<rparr>
             in (case d_peer d of
                   None \<Rightarrow> (Continue, [], d')
                 | Some dst \<Rightarrow>
                   (case r of
                      WriteToNetwork w \<Rightarrow>
                        let (sent, ok) = send_slice tx_ok (spare_mut net_out) (length w) dst
                        in (if ok then Continue else Return_Err, sent, d')
                    | _ \<Rightarrow> (Continue, [], d')))))"

text \<open>The inner loop of the timer branch. \<open>clk k\<close> gives the readings of the \<open>k\<close>-th call of
  \<open>update_timers\<close>, by the limiter and by the tunnel. Nothing in the code bounds the number of turns, so the
  model takes fuel and returns \<open>None\<close> when it runs out.\<close>

fun timer_loop ::
  "nat \<Rightarrow> target_arch \<Rightarrow> 'r fill \<Rightarrow> (nat \<Rightarrow> bool) \<Rightarrow> (nat \<Rightarrow> instant \<times> clocks) \<Rightarrow> nat \<Rightarrow> socket_addr \<Rightarrow> pooled_buf \<Rightarrow> 'r tunn
     \<Rightarrow> ((bytes \<times> socket_addr) list \<times> bool \<times> pooled_buf \<times> 'r tunn) option" where
  "timer_loop 0 arch fill tx clk k dst net_out u = None"
| "timer_loop (Suc fuel) arch fill tx clk k dst net_out u =
     (case update_timers arch fill (fst (clk k)) (snd (clk k)) (spare_mut net_out) u of
        (WriteToNetwork w, s, u) \<Rightarrow>
          let net_out = spare_write net_out s;
              (sent, ok) = send_slice (tx k) (spare_mut net_out) (length w) dst
          in if ok then map_option (\<lambda>(rest, ok, net_out, u). (sent @ rest, ok, net_out, u))
                          (timer_loop fuel arch fill tx clk (Suc k) dst net_out u)
             else Some (sent, False, net_out, u)
      | (_, s, u) \<Rightarrow> Some ([], True, spare_write net_out s, u))"

definition on_timer ::
  "nat \<Rightarrow> target_arch \<Rightarrow> 'r fill \<Rightarrow> (nat \<Rightarrow> bool) \<Rightarrow> (nat \<Rightarrow> instant \<times> clocks) \<Rightarrow> 'r driver
     \<Rightarrow> (control \<times> (bytes \<times> socket_addr) list \<times> 'r driver) option" where
  "on_timer fuel arch fill tx clk d =
     (case d_peer d of
        None \<Rightarrow> Some (Continue, [], d)
      | Some dst \<Rightarrow>
        map_option (\<lambda>(sent, ok, net_out, u).
            (if ok then Continue else Return_Err, sent, d\<lparr> d_tunn := u, d_net_out := net_out \<rparr>))
          (timer_loop fuel arch fill tx clk 0 dst (d_net_out d) (d_tunn d)))"

text \<open>The instant the loop sleeps until: \<open>next_wake\<close>, or a day from \<open>now\<close>.\<close>

definition far_future :: "instant \<Rightarrow> instant \<Rightarrow> instant" where
  "far_future limit now = (if now + 86400000000000 \<le> limit then now + 86400000000000 else now)"

definition wake_at :: "instant \<Rightarrow> instant \<Rightarrow> 'r driver \<Rightarrow> instant" where
  "wake_at limit now d = (case tunn_next_wake limit (d_tunn d) of Some t \<Rightarrow> t | None \<Rightarrow> far_future limit now)"

subsection \<open>Ownership of the slabs\<close>

definition slab_ok :: "nat \<Rightarrow> pooled_buf \<Rightarrow> bool" where
  "slab_ok l b \<longleftrightarrow> pb_storage b \<noteq> None \<and> capacity b = l"

definition driver_ok :: "'r driver \<Rightarrow> bool" where
  "driver_ok d \<longleftrightarrow> tunn_ok (d_tunn d) \<and> sp_slab_len (u_pool (d_tunn d)) < 2 ^ 63
     \<and> list_all (slab_ok (sp_slab_len (u_pool (d_tunn d)))) [d_net_out d, d_tun_out d, d_rx d]"

lemma slab_spare: "slab_ok l b \<Longrightarrow> length (spare_mut b) = l"
  by (simp add: slab_ok_def capacity_spare)

lemma slab_capacity: "slab_ok l b \<Longrightarrow> capacity b = l"
  by (simp add: slab_ok_def)

lemma slab_write: "slab_ok l b \<Longrightarrow> length s = l \<Longrightarrow> slab_ok l (spare_write b s)"
  by (auto simp: slab_ok_def spare_write_def capacity_def)

lemma spare_write_spare: "slab_ok l b \<Longrightarrow> spare_mut (spare_write b s) = s"
  by (auto simp: slab_ok_def spare_write_def spare_mut_def)

lemma slab_set_len [simp]: "slab_ok l (set_len b n) = slab_ok l b"
  by (simp add: slab_ok_def set_len_def capacity_def Let_def)

lemma length_put_prefix: "n \<le> length xs \<Longrightarrow> length (put 0 (take n data) xs) = length xs" if "n \<le> length data"
  using that by (simp add: put_def)

text \<open>One turn of the drain loop.\<close>

lemma drain_queue_more:
  assumes "tunn_decapsulate arch fill (clk k) (clk k) (Some dst) [] (spare_mut net_out) u = (WriteToNetwork w, s, u1)"
    and "send_slice (tx k) (spare_mut (spare_write net_out s)) (length w) dst = (sn, True)"
    and "drain_queue arch fill tx clk (Suc k) dst (spare_write net_out s) u1 = (rest, ok, net_out', u')"
  shows "drain_queue arch fill tx clk k dst net_out u = (sn @ rest, ok, net_out', u')"
  by (subst drain_queue.simps) (simp add: assms Let_def)

lemma drain_queue_last:
  assumes "tunn_decapsulate arch fill (clk k) (clk k) (Some dst) [] (spare_mut net_out) u = (r, s, u1)"
    and "\<nexists>w sn. r = WriteToNetwork w \<and> send_slice (tx k) (spare_mut (spare_write net_out s)) (length w) dst = (sn, True)"
  shows "\<exists>sent ok. drain_queue arch fill tx clk k dst net_out u = (sent, ok, spare_write net_out s, u1)"
  using assms by (subst drain_queue.simps) (auto simp: Let_def split: tunn_result.split prod.split)

lemma drain_queue_ok:
  assumes "tunn_ok u" and "slab_ok l net_out" and "l < 2 ^ 63" and "\<forall>k. clock_ok (tunn_now (u_epoch u) (clk k))"
    and "drain_queue arch fill tx clk k dst net_out u = (sent, ok, net_out', u')"
  shows "tunn_ok u' \<and> same_frame u u' \<and> slab_ok l net_out'"
  using assms
proof (induction arch fill tx clk k dst net_out u arbitrary: sent ok net_out' u' rule: drain_queue.induct)
  case (1 arch fill tx clk k dst net_out u)
  obtain r s u1 where e: "tunn_decapsulate arch fill (clk k) (clk k) (Some dst) [] (spare_mut net_out) u = (r, s, u1)"
    by (metis prod_cases3)
  note l = slab_spare [OF "1.prems"(2)]
  have t: "tunn_ok u1" "same_frame u u1" "length s = l"
    using tunn_decapsulate_ok [OF "1.prems"(1), of "clk k" "clk k" "spare_mut net_out" arch fill "Some dst" "[]"] "1.prems"(3,4) e l
    by (simp_all add: tunn_step_ok_def)
  have n: "slab_ok l (spare_write net_out s)" by (rule slab_write [OF "1.prems"(2) t(3)])
  have ep: "u_epoch u1 = u_epoch u" using t(2) by (simp add: same_frame_def)
  show ?case
  proof (cases "\<exists>w sn. r = WriteToNetwork w \<and> send_slice (tx k) (spare_mut (spare_write net_out s)) (length w) dst = (sn, True)")
    case True
    then obtain w sn where w: "r = WriteToNetwork w" "send_slice (tx k) (spare_mut (spare_write net_out s)) (length w) dst = (sn, True)" by blast
    obtain sent1 ok1 no1 u2 where d: "drain_queue arch fill tx clk (Suc k) dst (spare_write net_out s) u1 = (sent1, ok1, no1, u2)"
      by (metis prod_cases4)
    have "tunn_ok u2 \<and> same_frame u1 u2 \<and> slab_ok l no1"
      by (rule "1.IH" [OF e [symmetric] w(1) refl refl w(2) [symmetric] refl TrueI t(1) n "1.prems"(3) _ d])
        (use "1.prems"(4) ep in simp)
    moreover have "net_out' = no1" "u' = u2" using "1.prems"(5) drain_queue_more [OF e [unfolded w(1)] w(2) d] by simp_all
    ultimately show ?thesis using same_frame_trans [OF t(2)] by simp
  next
    case False
    then have "net_out' = spare_write net_out s" "u' = u1"
      using "1.prems"(5) drain_queue_last [of arch fill clk k dst net_out u r s u1 tx, OF e False] by auto
    then show ?thesis using t n by simp
  qed
qed

lemma timer_loop_ok:
  assumes "tunn_ok u" and "slab_ok l net_out" and "l < 2 ^ 63" and "\<forall>k. clock_ok (tunn_now (u_epoch u) (snd (clk k)))"
    and "timer_loop fuel arch fill tx clk k dst net_out u = Some (sent, ok, net_out', u')"
  shows "tunn_ok u' \<and> same_frame u u' \<and> slab_ok l net_out'"
  using assms
proof (induction fuel arbitrary: k net_out u sent)
  case (Suc fuel)
  obtain r s u1 where e: "update_timers arch fill (fst (clk k)) (snd (clk k)) (spare_mut net_out) u = (r, s, u1)"
    by (metis prod_cases3)
  note l = slab_spare [OF Suc.prems(2)]
  have t: "tunn_ok u1" "same_frame u u1" "length s = l"
    using update_timers_ok [OF Suc.prems(1), of "snd (clk k)" "spare_mut net_out" arch fill "fst (clk k)"] Suc.prems(3,4) e l
    by (simp_all add: tunn_step_ok_def)
  have n: "slab_ok l (spare_write net_out s)" by (rule slab_write [OF Suc.prems(2) t(3)])
  have ep: "u_epoch u1 = u_epoch u" using t(2) by (simp add: same_frame_def)
  have rec: "tunn_ok u' \<and> same_frame u u' \<and> slab_ok l net_out'"
    if "timer_loop fuel arch fill tx clk (Suc k) dst (spare_write net_out s) u1 = Some (sent1, ok, net_out', u')" for sent1
    using Suc.IH [OF t(1) n Suc.prems(3) _ that] Suc.prems(4) ep same_frame_trans [OF t(2)] by auto
  show ?case
    using Suc.prems(5) t n rec by (auto simp: e Let_def split: tunn_result.splits prod.splits if_splits)
qed simp

lemma held_pool:
  "held_elsewhere (u\<lparr> u_pool := p \<rparr>) = held_elsewhere u + (sp_outstanding p - sp_outstanding (u_pool u))"
  by (simp add: held_elsewhere_def)

lemma tunn_ok_pool:
  "tunn_ok u \<Longrightarrow> slab_pool_ok p \<Longrightarrow> sp_slab_len p = sp_slab_len (u_pool u) \<Longrightarrow> tunn_ok (u\<lparr> u_pool := p \<rparr>)"
  by (simp add: tunn_ok_def)

lemma tunn_ok_pool_ok: "tunn_ok u \<Longrightarrow> slab_pool_ok (u_pool u)"
  by (simp add: tunn_ok_def)

lemma pool_get_slab:
  "slab_pool_ok p \<Longrightarrow> pool_get p = (b, p') \<Longrightarrow> slab_ok (sp_slab_len p) b"
  using pool_get_ok [of p b p'] by (simp add: slab_ok_def)

lemma driver_start_ok:
  assumes "tunn_ok u" and "sp_slab_len (u_pool u) < 2 ^ 63"
  shows "driver_ok (driver_start u peer)" and "held_elsewhere (d_tunn (driver_start u peer)) = held_elsewhere u + 3"
    and "sp_slab_len (u_pool (d_tunn (driver_start u peer))) = sp_slab_len (u_pool u)"
proof -
  obtain b1 p1 where g1: "pool_get (u_pool u) = (b1, p1)" by force
  obtain b2 p2 where g2: "pool_get p1 = (b2, p2)" by force
  obtain b3 p3 where g3: "pool_get p2 = (b3, p3)" by force
  note k1 = pool_get_ok [OF tunn_ok_pool_ok [OF assms(1)] g1]
  note k2 = pool_get_ok [OF k1(1) g2]
  note k3 = pool_get_ok [OF k2(1) g3]
  show "driver_ok (driver_start u peer)" "held_elsewhere (d_tunn (driver_start u peer)) = held_elsewhere u + 3"
    "sp_slab_len (u_pool (d_tunn (driver_start u peer))) = sp_slab_len (u_pool u)"
    using assms tunn_ok_pool [OF assms(1) k3(1)] k1 k2 k3
    by (simp_all add: driver_start_def g1 g2 g3 driver_ok_def slab_ok_def held_pool)
qed

text \<open>What a branch does to the slabs outside the queue: \<open>n\<close> more are held by other parts of the program.\<close>

definition branch_ok :: "'r driver \<Rightarrow> u64 \<Rightarrow> 'r driver \<Rightarrow> bool" where
  "branch_ok d n d' \<longleftrightarrow> driver_ok d' \<and> held_elsewhere (d_tunn d') = held_elsewhere (d_tunn d) + n
     \<and> sp_slab_len (u_pool (d_tunn d')) = sp_slab_len (u_pool (d_tunn d)) \<and> u_epoch (d_tunn d') = u_epoch (d_tunn d)"

lemma on_timer_ok:
  assumes "driver_ok d" and "\<forall>k. clock_ok (tunn_now (u_epoch (d_tunn d)) (snd (clk k)))"
    and "on_timer fuel arch fill tx clk d = Some (c, sent, d')"
  shows "branch_ok d 0 d'"
proof (cases "d_peer d")
  case None
  then show ?thesis using assms(1,3) by (simp add: on_timer_def branch_ok_def)
next
  case (Some dst)
  then obtain sent' ok net_out u where t: "timer_loop fuel arch fill tx clk 0 dst (d_net_out d) (d_tunn d) = Some (sent', ok, net_out, u)"
    "d' = d\<lparr> d_tunn := u, d_net_out := net_out \<rparr>"
    using assms(3) by (auto simp: on_timer_def)
  from timer_loop_ok [OF _ _ _ assms(2) t(1), of "sp_slab_len (u_pool (d_tunn d))"] assms(1)
  have "tunn_ok u \<and> same_frame (d_tunn d) u \<and> slab_ok (sp_slab_len (u_pool (d_tunn d))) net_out"
    by (simp add: driver_ok_def)
  then show ?thesis using assms(1) by (simp add: branch_ok_def driver_ok_def same_frame_def t(2))
qed

lemma on_to_net_ok:
  assumes "driver_ok d" and "clock_ok (tunn_now (u_epoch (d_tunn d)) ck)" and "slab_ok (sp_slab_len (u_pool (d_tunn d))) pkt"
    and "on_to_net arch fill tx_ok ck (Some pkt) d = (c, sent, d')"
  shows "branch_ok d (- 1) d'"
proof -
  obtain r s u where e: "tunn_encapsulate arch fill ck (pb_deref pkt) (spare_mut (d_net_out d)) (d_tunn d) = (r, s, u)"
    by (metis prod_cases3)
  let ?l = "sp_slab_len (u_pool (d_tunn d))"
  have l: "length (spare_mut (d_net_out d)) = ?l" using assms(1) by (simp add: driver_ok_def slab_spare)
  have t: "tunn_ok u" "same_frame (d_tunn d) u" "length s = ?l"
    using tunn_encapsulate_ok [of "d_tunn d" ck "spare_mut (d_net_out d)" arch fill "pb_deref pkt"] assms(1,2) e l
    by (simp_all add: tunn_step_ok_def driver_ok_def)
  note p = pb_drop_ok [OF tunn_ok_pool_ok [OF t(1)], of pkt]
  have d': "d' = d\<lparr> d_tunn := u\<lparr> u_pool := fst (pb_drop (u_pool u) pkt) \<rparr>, d_net_out := spare_write (d_net_out d) s \<rparr>"
    using assms(4) by (auto simp: on_to_net_def e Let_def split: option.splits tunn_result.splits prod.splits)
  have "slab_ok ?l (spare_write (d_net_out d) s)" using assms(1) t(3) by (simp add: driver_ok_def slab_write)
  then show ?thesis
    using assms(1,3) t(2) tunn_ok_pool [OF t(1) p(1,2)] p
    by (simp add: branch_ok_def driver_ok_def d' held_pool slab_ok_def same_frame_def)
qed

text \<open>A slab that changes hands: a fresh one replaces it, and the receiver holds it or, if there is none, it is dropped.\<close>

lemma handover_ok:
  assumes "tunn_ok u" and "pool_get (u_pool u) = (fresh, pool)" and "slab_ok (sp_slab_len (u_pool u)) del"
  shows "slab_ok (sp_slab_len (u_pool u)) fresh"
    and "tunn_ok (u\<lparr> u_pool := pool \<rparr>)" and "held_elsewhere (u\<lparr> u_pool := pool \<rparr>) = held_elsewhere u + 1"
    and "sp_slab_len pool = sp_slab_len (u_pool u)"
    and "tunn_ok (u\<lparr> u_pool := fst (pb_drop pool del) \<rparr>)"
    and "held_elsewhere (u\<lparr> u_pool := fst (pb_drop pool del) \<rparr>) = held_elsewhere u"
    and "sp_slab_len (fst (pb_drop pool del)) = sp_slab_len (u_pool u)"
proof -
  note k = pool_get_ok [OF tunn_ok_pool_ok [OF assms(1)] assms(2)]
  note p = pb_drop_ok [OF k(1), of del]
  show "slab_ok (sp_slab_len (u_pool u)) fresh" by (rule pool_get_slab [OF tunn_ok_pool_ok [OF assms(1)] assms(2)])
  show "tunn_ok (u\<lparr> u_pool := pool \<rparr>)" "tunn_ok (u\<lparr> u_pool := fst (pb_drop pool del) \<rparr>)"
    using tunn_ok_pool [OF assms(1)] k(1,5) p(1,2) by simp_all
  show "held_elsewhere (u\<lparr> u_pool := pool \<rparr>) = held_elsewhere u + 1" "sp_slab_len pool = sp_slab_len (u_pool u)"
    "held_elsewhere (u\<lparr> u_pool := fst (pb_drop pool del) \<rparr>) = held_elsewhere u"
    "sp_slab_len (fst (pb_drop pool del)) = sp_slab_len (u_pool u)"
    using k(5,6) p(2,4) assms(3) by (simp_all add: held_pool slab_ok_def)
qed

text \<open>The slabs the branch hands over are held by their receiver from then on.\<close>

lemma on_recv_ok:
  assumes "driver_ok d" and "clock_ok (tunn_now (u_epoch (d_tunn d)) ck)" and "clock_ok (tunn_now (u_epoch (d_tunn d)) ck2)"
    and "\<forall>k. clock_ok (tunn_now (u_epoch (d_tunn d)) (clk k))"
    and "on_recv arch fill tx consumer_open ck ck2 clk data src d = (c, sent, delivered, d')"
  shows "branch_ok d (of_nat (length delivered)) d' \<and> list_all (slab_ok (sp_slab_len (u_pool (d_tunn d)))) delivered"
proof -
  let ?l = "sp_slab_len (u_pool (d_tunn d))"
  define n where "n = min (length data) (length (spare_mut (d_rx d)))"
  define rx where "rx = set_len (spare_write (d_rx d) (put 0 (take n data) (spare_mut (d_rx d)))) n"
  obtain r s u where e: "tunn_decapsulate arch fill ck ck2 (Some src) (pb_deref rx) (spare_mut (d_tun_out d)) (d_tunn d) = (r, s, u)"
    by (metis prod_cases3)
  have l: "length (spare_mut (d_tun_out d)) = ?l" "length (spare_mut (d_rx d)) = ?l"
    using assms(1) by (simp_all add: driver_ok_def slab_spare)
  have t: "tunn_ok u" "same_frame (d_tunn d) u" "length s = ?l"
    using tunn_decapsulate_ok [of "d_tunn d" ck ck2 "spare_mut (d_tun_out d)" arch fill "Some src" "pb_deref rx"] assms(1-3) e l
    by (simp_all add: tunn_step_ok_def driver_ok_def)
  have rx: "slab_ok ?l rx"
    using assms(1) l(2) by (simp add: rx_def driver_ok_def slab_write length_put_prefix n_def)
  have to: "slab_ok ?l (spare_write (d_tun_out d) s)" using assms(1) t(3) by (simp add: driver_ok_def slab_write)
  have f: "held_elsewhere u = held_elsewhere (d_tunn d)" "sp_slab_len (u_pool u) = ?l" "u_epoch u = u_epoch (d_tunn d)"
    using t(2) by (simp_all add: same_frame_def)
  have keep: "branch_ok d 0 d'"
    if "tunn_ok u'" "same_frame u u'" "slab_ok ?l (d_net_out d')" "slab_ok ?l (d_rx d')" "d_tunn d' = u'"
      "d_tun_out d' = spare_write (d_tun_out d) s" for u'
    using that assms(1) to f by (simp add: branch_ok_def driver_ok_def same_frame_def)
  show ?thesis
  proof (cases r)
    case (WriteToTunnel p)
    obtain fresh pool where g: "pool_get (u_pool u) = (fresh, pool)" by force
    let ?del = "set_len (spare_write (d_tun_out d) s) (length p)"
    have del: "slab_ok ?l ?del" using to by simp
    note h = handover_ok [OF t(1) g, of ?del, unfolded f(2), OF del]
    show ?thesis
      using assms(1,5) WriteToTunnel f rx del h
      by (cases consumer_open)
        (auto simp: on_recv_def Let_def e g n_def [symmetric] rx_def [symmetric] branch_ok_def driver_ok_def)
  next
    case (WriteToNetwork w)
    obtain sn ok where sn: "send_slice (tx 0) (spare_mut (spare_write (d_tun_out d) s)) (length w) src = (sn, ok)" by force
    obtain rest ok1 no u1 where dq: "drain_queue arch fill (tx \<circ> Suc) clk 0 src (d_net_out d) u = (rest, ok1, no, u1)"
      by (metis prod_cases4)
    have "tunn_ok u1 \<and> same_frame u u1 \<and> slab_ok ?l no"
      by (rule drain_queue_ok [OF t(1) _ _ _ dq]) (use assms(1,4) f in \<open>simp_all add: driver_ok_def\<close>)
    then show ?thesis
      using assms(1,5) WriteToNetwork rx keep [of u1] keep [OF t(1) same_frame_refl]
      by (auto simp: on_recv_def Let_def e sn dq n_def [symmetric] rx_def [symmetric] driver_ok_def split: if_splits)
  qed (use assms(1,5) rx keep [OF t(1) same_frame_refl] in
      \<open>auto simp: on_recv_def Let_def e n_def [symmetric] rx_def [symmetric] driver_ok_def\<close>)
qed

subsection \<open>Runs of the loop\<close>

text \<open>When \<open>run\<close> returns, its three slabs go out of scope in reverse order and then the tunnel with its queue.\<close>

definition driver_return :: "'r driver \<Rightarrow> 'r tunn" where
  "driver_return d =
     clear_queue ((d_tunn d)\<lparr> u_pool := fold (\<lambda>b p. fst (pb_drop p b)) [d_rx d, d_tun_out d, d_net_out d] (u_pool (d_tunn d)) \<rparr>)"

text \<open>A run of the loop in the middle of the program that uses it. \<open>out\<close> are the slabs the rest of the program
  holds, in the channels or elsewhere; it may take further ones, write to those it has and drop them at any time. A
  branch is taken only after the one before it let the loop go on.\<close>

inductive driver_run ::
  "target_arch \<Rightarrow> 'r fill \<Rightarrow> 'r tunn \<Rightarrow> socket_addr option \<Rightarrow> control \<Rightarrow> pooled_buf list \<Rightarrow> 'r driver \<Rightarrow> bool"
  for arch fill u0 peer where
  start: "driver_run arch fill u0 peer Continue [] (driver_start u0 peer)"
| recv: "driver_run arch fill u0 peer Continue out d \<Longrightarrow>
    \<forall>ck \<in> range clk \<union> {ck1, ck2}. clock_ok (tunn_now (u_epoch (d_tunn d)) ck) \<Longrightarrow>
    on_recv arch fill tx consumer_open ck1 ck2 clk data src d = (c, sent, delivered, d') \<Longrightarrow>
    driver_run arch fill u0 peer c (out @ delivered) d'"
| recv_error: "driver_run arch fill u0 peer Continue out d \<Longrightarrow> driver_run arch fill u0 peer Return_Err out d"
| to_net: "driver_run arch fill u0 peer Continue (xs @ pkt # ys) d \<Longrightarrow> clock_ok (tunn_now (u_epoch (d_tunn d)) ck) \<Longrightarrow>
    on_to_net arch fill tx_ok ck (Some pkt) d = (c, sent, d') \<Longrightarrow>
    driver_run arch fill u0 peer c (xs @ ys) d'"
| to_net_closed: "driver_run arch fill u0 peer Continue out d \<Longrightarrow> on_to_net arch fill tx_ok ck None d = (c, sent, d') \<Longrightarrow>
    driver_run arch fill u0 peer c out d'"
| timer: "driver_run arch fill u0 peer Continue out d \<Longrightarrow> \<forall>k. clock_ok (tunn_now (u_epoch (d_tunn d)) (snd (tclk k))) \<Longrightarrow>
    on_timer fuel arch fill tx tclk d = Some (c, sent, d') \<Longrightarrow>
    driver_run arch fill u0 peer c out d'"
| get: "driver_run arch fill u0 peer c out d \<Longrightarrow> pool_get (u_pool (d_tunn d)) = (b, pool) \<Longrightarrow>
    driver_run arch fill u0 peer c (b # out) (d\<lparr> d_tunn := (d_tunn d)\<lparr> u_pool := pool \<rparr> \<rparr>)"
| fill: "driver_run arch fill u0 peer c (xs @ b # ys) d \<Longrightarrow> length s = capacity b \<Longrightarrow>
    driver_run arch fill u0 peer c (xs @ set_len (spare_write b s) n # ys) d"
| drop: "driver_run arch fill u0 peer c (xs @ b # ys) d \<Longrightarrow>
    driver_run arch fill u0 peer c (xs @ ys) (d\<lparr> d_tunn := (d_tunn d)\<lparr> u_pool := fst (pb_drop (u_pool (d_tunn d)) b) \<rparr> \<rparr>)"

definition run_ok :: "'r tunn \<Rightarrow> pooled_buf list \<Rightarrow> 'r driver \<Rightarrow> bool" where
  "run_ok u0 out d \<longleftrightarrow> driver_ok d \<and> list_all (slab_ok (sp_slab_len (u_pool (d_tunn d)))) out
     \<and> held_elsewhere (d_tunn d) = held_elsewhere u0 + 3 + of_nat (length out)"

lemma run_ok_branch:
  "branch_ok d (of_nat (length out') - of_nat (length out)) d' \<Longrightarrow> run_ok u0 out d \<Longrightarrow>
     list_all (slab_ok (sp_slab_len (u_pool (d_tunn d)))) out' \<Longrightarrow> run_ok u0 out' d'"
  by (simp add: run_ok_def branch_ok_def)

lemma branch_ok_pool:
  assumes "driver_ok d" and "slab_pool_ok p" and "sp_slab_len p = sp_slab_len (u_pool (d_tunn d))"
    and "sp_outstanding p = sp_outstanding (u_pool (d_tunn d)) + n"
  shows "branch_ok d n (d\<lparr> d_tunn := (d_tunn d)\<lparr> u_pool := p \<rparr> \<rparr>)"
  using assms tunn_ok_pool [of "d_tunn d" p] by (simp add: branch_ok_def driver_ok_def held_pool)

lemma driver_run_ok:
  assumes "driver_run arch fill u0 peer c out d" and "tunn_ok u0" and "sp_slab_len (u_pool u0) < 2 ^ 63"
  shows "run_ok u0 out d"
  using assms
proof induction
  case start
  then show ?case using driver_start_ok [of u0 peer] by (simp add: run_ok_def)
next
  case (recv out d clk ck1 ck2 tx consumer_open data src c sent delivered d')
  then have r: "run_ok u0 out d" by simp
  then have "driver_ok d" by (simp add: run_ok_def)
  from on_recv_ok [OF this _ _ _ recv.hyps(3)] recv.hyps(2)
  have "branch_ok d (of_nat (length delivered)) d' \<and> list_all (slab_ok (sp_slab_len (u_pool (d_tunn d)))) delivered" by simp
  then show ?case using r by (intro run_ok_branch [OF _ r]) (simp_all add: run_ok_def)
next
  case (to_net xs pkt ys d ck tx_ok c sent d')
  then have r: "run_ok u0 (xs @ pkt # ys) d" by simp
  then have "branch_ok d (- 1) d'" using on_to_net_ok [OF _ to_net.hyps(2) _ to_net.hyps(3)] by (simp add: run_ok_def)
  then show ?case using r by (intro run_ok_branch [OF _ r]) (simp_all add: run_ok_def)
next
  case (timer out d tclk fuel tx c sent d')
  then have r: "run_ok u0 out d" by simp
  then have "branch_ok d 0 d'" using on_timer_ok [OF _ timer.hyps(2,3)] by (simp add: run_ok_def)
  then show ?case using r by (intro run_ok_branch [OF _ r]) (simp_all add: run_ok_def)
next
  case (get c out d b pool)
  then have r: "run_ok u0 out d" by simp
  then have p: "slab_pool_ok (u_pool (d_tunn d))" by (simp add: run_ok_def driver_ok_def tunn_ok_def)
  show ?case
    using r pool_get_ok [OF p get.hyps(2)] pool_get_slab [OF p get.hyps(2)]
    by (intro run_ok_branch [OF _ r] branch_ok_pool) (simp_all add: run_ok_def)
next
  case (drop c xs b ys d)
  then have r: "run_ok u0 (xs @ b # ys) d" by simp
  then have p: "slab_pool_ok (u_pool (d_tunn d))" by (simp add: run_ok_def driver_ok_def tunn_ok_def)
  show ?case
    using r pb_drop_ok [OF p, of b]
    by (intro run_ok_branch [OF _ r] branch_ok_pool) (simp_all add: run_ok_def slab_ok_def)
qed (auto simp: run_ok_def on_to_net_def slab_capacity intro: slab_write)

lemma driver_return_ok:
  assumes "run_ok u0 out d"
  shows "slab_pool_ok (u_pool (driver_return d))"
    and "sp_outstanding (u_pool (driver_return d)) = held_elsewhere u0 + of_nat (length out)"
proof -
  have d: "driver_ok d" "tunn_ok (d_tunn d)" using assms by (simp_all add: run_ok_def driver_ok_def)
  note a = pb_drop_ok [OF tunn_ok_pool_ok [OF d(2)], of "d_rx d"]
  note b = pb_drop_ok [OF a(1), of "d_tun_out d"]
  note c = pb_drop_ok [OF b(1), of "d_net_out d"]
  define u where "u = (d_tunn d)\<lparr> u_pool := fold (\<lambda>b p. fst (pb_drop p b)) [d_rx d, d_tun_out d, d_net_out d] (u_pool (d_tunn d)) \<rparr>"
  have u: "tunn_ok u" using tunn_ok_pool [OF d(2) c(1)] a b c by (simp add: u_def)
  have "held_elsewhere u = held_elsewhere (d_tunn d) - 3"
    using d(1) a(4) b(4) c(4) by (simp add: u_def held_pool driver_ok_def slab_ok_def)
  then have "held_elsewhere (clear_queue u) = held_elsewhere u0 + of_nat (length out)"
    using clear_queue_ok(2) [OF u] assms by (simp add: same_frame_def run_ok_def)
  moreover have "driver_return d = clear_queue u" by (simp add: driver_return_def u_def)
  ultimately show "slab_pool_ok (u_pool (driver_return d))"
    "sp_outstanding (u_pool (driver_return d)) = held_elsewhere u0 + of_nat (length out)"
    using tunn_ok_pool_ok [OF clear_queue_ok(1) [OF u]] by (simp_all add: held_elsewhere_def clear_queue_def)
qed

subsection \<open>Draining in order\<close>

text \<open>The \<open>i\<close>-th packet sent in session \<open>s\<close> from now on.\<close>

definition nth_wire :: "session \<Rightarrow> u16 option \<Rightarrow> nat \<Rightarrow> bytes \<Rightarrow> bytes" where
  "nth_wire s mtu i p = transport_wire (s\<lparr> s_send_counter := s_send_counter s + of_nat i \<rparr>) (padded p mtu)"

lemma nth_wire_advance: "nth_wire (advance s) mtu i p = nth_wire s mtu (Suc i) p"
  by (simp add: nth_wire_def advance_def transport_wire_def ac_simps)

lemma nth_wire_0: "nth_wire s mtu 0 p = transport_wire s (padded p mtu)"
  by (simp add: nth_wire_def)

text \<open>A session good for \<open>n\<close> more packets until \<open>tmax\<close> at least.\<close>

definition sends_until :: "ticks \<Rightarrow> nat \<Rightarrow> session \<Rightarrow> bool" where
  "sends_until tmax n s \<longleftrightarrow> s_confirmed s \<and> session_age s tmax < REJECT_AFTER_TIME \<and> unat (s_send_counter s) + n \<le> unat REJECT_AFTER_MESSAGES"

lemma sends_until_Suc:
  assumes "sends_until tmax (Suc n) s" and "t \<le> tmax"
  shows "usable_for_send s t" and "s_send_counter s < REJECT_AFTER_MESSAGES" and "sends_until tmax n (advance s)"
proof -
  show c: "s_send_counter s < REJECT_AFTER_MESSAGES" using assms(1) by (simp add: sends_until_def word_less_nat_alt)
  show "usable_for_send s t"
    using assms c le_less_trans [OF since_mono [OF assms(2), of "s_created s"]]
    by (simp add: sends_until_def usable_for_send_def session_age_def)
  have "unat (s_send_counter s + 1) = unat (s_send_counter s) + 1"
    using c REJECT_nat by (simp add: word_less_nat_alt unat_word_ariths)
  then show "sends_until tmax n (advance s)" using assms(1) by (simp add: sends_until_def advance_def session_age_def)
qed

lemma data_sent_mtu [simp]: "t_mtu (data_sent tn t p s) = t_mtu tn"
  by (simp add: data_sent_def note_send_rekey_def Let_def)

lemma drain_step_sends:
  assumes "u_drainable u" and "u_queue u = b # rest" and "t_current (u_inner u) = Some s" and "sends_until tmax (Suc n) s"
    and "t_last_now (u_inner u) \<le> tmax" and "now_ticks (tunn_now (u_epoch u) ck) \<le> tmax" and "length dst < 2 ^ 63"
    and "padded_len (length (pb_deref b)) (t_mtu (u_inner u)) + 32 \<le> length dst"
  obtains u' where
    "drain_queue_step arch fill ck dst u =
      (WriteToNetwork (nth_wire s (t_mtu (u_inner u)) 0 (pb_deref b)),
       nth_wire s (t_mtu (u_inner u)) 0 (pb_deref b) @ drop (length (nth_wire s (t_mtu (u_inner u)) 0 (pb_deref b))) dst, u')"
    "u_drainable u'" "u_queue u' = rest" "u_epoch u' = u_epoch u" "t_mtu (u_inner u') = t_mtu (u_inner u)"
    "t_current (u_inner u') = Some (advance s)" "t_last_now (u_inner u') \<le> tmax"
proof -
  let ?t = "max (now_ticks (tunn_now (u_epoch u) ck)) (t_last_now (u_inner u))"
  have t: "?t \<le> tmax" using assms(5,6) by simp
  note s = sends_until_Suc [OF assms(4) t]
  have p: "length (padded (pb_deref b) (t_mtu (u_inner u))) = padded_len (length (pb_deref b)) (t_mtu (u_inner u))"
    using transport_total(2) [OF assms(7)] assms(8) by (simp add: length_padded)
  have "encapsulate (simd_best arch) fill (u_inner u) (tunn_now (u_epoch u) ck) (pb_deref b) dst (u_rng u) =
      (Inr (Transport (nth_wire s (t_mtu (u_inner u)) 0 (pb_deref b))),
       data_sent ((u_inner u)\<lparr> t_last_now := ?t \<rparr>) ?t (pb_deref b) s,
       nth_wire s (t_mtu (u_inner u)) 0 (pb_deref b) @ drop (length (nth_wire s (t_mtu (u_inner u)) 0 (pb_deref b))) dst, u_rng u)"
    using assms(3,8) s p
    by (simp add: encapsulate_def clamp_now_eq is_some_and_def encapsulate_transport_eq [OF best_ok assms(7)] Let_def nth_wire_0)
  with assms(1-3) t show ?thesis
    by (intro that [of "u\<lparr> u_inner := data_sent ((u_inner u)\<lparr> t_last_now := ?t \<rparr>) ?t (pb_deref b) s, u_queue := rest,
          u_pool := fst (pb_drop (u_pool u) b) \<rparr>"])
      (simp_all add: drain_queue_step_def Let_def)
qed

lemma send_slice_prefix: "send_slice True (w @ r) (length w) dst = ([(w, dst)], True)"
  by (simp add: send_slice_def get_to_def)

lemma drain_queue_sends:
  assumes "u_drainable u" and "t_current (u_inner u) = Some s" and "sends_until tmax (length (u_queue u)) s"
    and "t_last_now (u_inner u) \<le> tmax" and "\<forall>k. now_ticks (tunn_now (u_epoch u) (clk k)) \<le> tmax"
    and "slab_ok l net_out" and "l < 2 ^ 63" and "t_mtu (u_inner u) = mtu"
    and "\<forall>b \<in> set (u_queue u). padded_len (length (pb_deref b)) mtu + 32 \<le> l"
  shows "\<exists>net_out' u'. drain_queue arch fill (\<lambda>_. True) clk k dst net_out u =
     (map (\<lambda>(i, b). (nth_wire s mtu i (pb_deref b), dst)) (enumerate 0 (u_queue u)), True, net_out', u')
     \<and> u_queue u' = [] \<and> \<not> u_drainable u'"
  using assms
proof (induction "u_queue u" arbitrary: u s net_out k)
  case Nil
  then show ?case by (subst drain_queue.simps) (simp add: tunn_decapsulate_def drain_queue_step_def)
next
  case (Cons b rest)
  have l: "length (spare_mut net_out) = l" using Cons.prems(6) by (rule slab_spare)
  let ?w = "nth_wire s mtu 0 (pb_deref b)"
  note q = Cons.hyps(2) [symmetric]
  obtain u' where u': "drain_queue_step arch fill (clk k) (spare_mut net_out) u =
      (WriteToNetwork ?w, ?w @ drop (length ?w) (spare_mut net_out), u')"
    "u_drainable u'" "u_queue u' = rest" "u_epoch u' = u_epoch u" "t_mtu (u_inner u') = mtu"
    "t_current (u_inner u') = Some (advance s)" "t_last_now (u_inner u') \<le> tmax"
    by (rule drain_step_sends [OF Cons.prems(1) q Cons.prems(2), of tmax "length rest" "clk k" "spare_mut net_out" arch fill])
      (use Cons.prems q l in simp_all)
  let ?no = "spare_write net_out (?w @ drop (length ?w) (spare_mut net_out))"
  have no: "spare_mut ?no = ?w @ drop (length ?w) (spare_mut net_out)" by (rule spare_write_spare [OF Cons.prems(6)])
  have w: "length ?w \<le> l"
    using Cons.prems(7,9) q transport_total(2) [of "spare_mut net_out" "length (pb_deref b)" mtu] l
    by (simp add: nth_wire_0 length_padded)
  have s': "sends_until tmax (length (u_queue u')) (advance s)"
    using sends_until_Suc(3) [of tmax "length rest" s tmax] Cons.prems(3) q u'(3) by simp
  obtain net_out' u'' where r: "drain_queue arch fill (\<lambda>_. True) clk (Suc k) dst ?no u' =
     (map (\<lambda>(i, b). (nth_wire (advance s) mtu i (pb_deref b), dst)) (enumerate 0 rest), True, net_out', u'')"
    "u_queue u'' = []" "\<not> u_drainable u''"
    using Cons.hyps(1) [OF u'(3) [symmetric] u'(2,6) s' u'(7), of ?no "Suc k"] Cons.prems q w l u'(3-5) slab_write [OF Cons.prems(6)]
    by auto
  have "drain_queue arch fill (\<lambda>_. True) clk k dst net_out u =
      ([(?w, dst)] @ map (\<lambda>(i, b). (nth_wire (advance s) mtu i (pb_deref b), dst)) (enumerate 0 rest), True, net_out', u'')"
    by (rule drain_queue_more [OF _ _ r(1)]) (simp add: tunn_decapsulate_def u'(1), simp only: no, rule send_slice_prefix)
  then show ?case
    using r(2,3) by (simp add: q enumerate_Suc_eq nth_wire_advance comp_def case_prod_beta)
qed

subsection \<open>Timers\<close>

lemma update_timers_sent:
  assumes "update_timers arch fill t ck dst u = (WriteToNetwork w, dst', u')"
  obtains why where "poll (simd_best arch) fill (u_inner u) (tunn_now (u_epoch u) ck) dst (u_rng u) = (Inr (Send w why), u_inner u', dst', u_rng u')"
    "u_epoch u' = u_epoch u"
  using assms by (auto simp: update_timers_def Let_def split: prod.splits sum.splits poll_output.splits)

lemma send_slice_one: "length (fst (send_slice tx_ok slab n dst)) \<le> 1"
  by (simp add: send_slice_def split: option.split)

lemma timer_loop_ends:
  assumes "tunn_ok u" and "slab_ok l net_out" and "l < 2 ^ 63" and "clock_ok (tunn_now (u_epoch u) ck)"
    and "poll_rank (u_inner u) (tunn_now (u_epoch u) ck) < fuel"
  shows "\<exists>sent ok net_out' u'. timer_loop fuel arch fill tx (\<lambda>_. (t, ck)) k dst net_out u = Some (sent, ok, net_out', u')
    \<and> length sent \<le> poll_rank (u_inner u) (tunn_now (u_epoch u) ck)"
  using assms
proof (induction fuel arbitrary: k net_out u)
  case (Suc fuel)
  obtain r s u1 where e: "update_timers arch fill t ck (spare_mut net_out) u = (r, s, u1)" by (metis prod_cases3)
  note l = slab_spare [OF Suc.prems(2)]
  have t: "tunn_ok u1" "length s = l"
    using update_timers_ok [OF Suc.prems(1,4), of "spare_mut net_out" arch fill t] Suc.prems(3) e l by (simp_all add: tunn_step_ok_def)
  have n: "slab_ok l (spare_write net_out s)" by (rule slab_write [OF Suc.prems(2) t(2)])
  show ?case
  proof (cases "\<exists>w. r = WriteToNetwork w")
    case True
    then obtain w where w: "r = WriteToNetwork w" by blast
    obtain why where p: "poll (simd_best arch) fill (u_inner u) (tunn_now (u_epoch u) ck) (spare_mut net_out) (u_rng u)
        = (Inr (Send w why), u_inner u1, s, u_rng u1)" and ep: "u_epoch u1 = u_epoch u"
      using update_timers_sent [OF e [unfolded w]] by blast
    have less: "poll_rank (u_inner u1) (tunn_now (u_epoch u) ck) < poll_rank (u_inner u) (tunn_now (u_epoch u) ck)"
      using poll_progress [OF tunn_ok_inv [OF Suc.prems(1)] Suc.prems(4) best_ok _ p] Suc.prems(3) l by simp
    then obtain sent ok net_out' u' where
      "timer_loop fuel arch fill tx (\<lambda>_. (t, ck)) (Suc k) dst (spare_write net_out s) u1 = Some (sent, ok, net_out', u')"
      "length sent \<le> poll_rank (u_inner u1) (tunn_now (u_epoch u) ck)"
      using Suc.IH [OF t(1) n Suc.prems(3), of "Suc k"] Suc.prems(4,5) ep by auto
    moreover obtain sn ok' where "send_slice (tx k) (spare_mut (spare_write net_out s)) (length w) dst = (sn, ok')" "length sn \<le> 1"
      using send_slice_one by (metis fst_conv surj_pair)
    ultimately show ?thesis using e w less by (auto simp: Let_def)
  qed (use e in \<open>auto split: tunn_result.split\<close>)
qed simp

subsection \<open>Cookie replies\<close>

lemma recv_slab:
  assumes "slab_ok l b" and "length data \<le> l" and "n = min (length data) (length (spare_mut b))"
  shows "pb_deref (set_len (spare_write b (put 0 (take n data) (spare_mut b))) n) = data"
proof -
  obtain st where st: "pb_storage b = Some st" "length st = l" using assms(1) by (auto simp: slab_ok_def capacity_def)
  then show ?thesis
    using assms(2,3) by (simp add: spare_mut_def spare_write_def set_len_def capacity_def pb_deref_def put_def get_to_def min_def)
qed

lemma reply_cookie_sent:
  assumes "\<forall>rng n. fst (fill rng n) \<noteq> None" and "64 \<le> length out"
  obtains jar wire st out' rng' where
    "reply_cookie fill tn n remote idx mac1 out rng = (Inr (Reply wire), tn\<lparr> t_cookie_jar := jar, t_stats := st \<rparr>, out', rng')"
    "wrote (Some wire) out out'"
proof (cases rule: reply_cookie_cases [of fill tn n remote idx mac1 out rng])
  case (err e rng')
  have "\<exists>v r'. entropy_result (fill r k) = (Inr v, r')" for r k
    using assms(1) [rule_format, of r k] by (auto simp: entropy_result_def)
  then have "\<exists>jar' r'. rotate_if_needed fill jar t rng = (Inr (), jar', r')" for jar t
    unfolding rotate_if_needed_def gen32_def by (smt (verit) case_prod_conv sum.simps(6))
  then obtain jar' r' where "rotate_if_needed fill (t_cookie_jar tn) (now_ticks n) rng = (Inr (), jar', r')" by blast
  then show ?thesis
    using err assms(2)
    by (auto simp: reply_cookie_def build_cookie_reply_eq jar_mint_def and_then_def ok_or_def Let_def split: option.splits)
next
  case (ok jar wire out' rng')
  show ?thesis
    by (rule that [where jar = jar and wire = wire and st = "(t_stats tn)\<lparr> cookies_sent := inc (cookies_sent (t_stats tn)) \<rparr>", OF _ ok(4)])
      (simp add: ok(1))
qed

lemma send_slice_sent: "tx_ok \<Longrightarrow> snd (send_slice tx_ok slab n dst)"
  by (simp add: send_slice_def split: option.split)

lemma undrainable_drain:
  assumes "\<not> u_drainable u"
  shows "\<exists>net_out'. drain_queue arch fill tx clk k dst net_out u = ([], True, net_out', u)"
  using assms by (subst drain_queue.simps) (simp add: tunn_decapsulate_def drain_queue_step_def)

lemma cookie_reply_tunn:
  assumes "parse data = Inr (HandshakeInitiation m)" and "rl_limit (u_limiter u) \<le> rl_count (u_limiter u)"
    and "verify_mac1 (t_mac_keys (u_inner u)) (hi_alpha m) (hi_mac1 m)"
    and "\<not> verify_mac2 (t_cookie_jar (u_inner u)) (encode_addr src) (hi_beta m) (hi_mac2 m)"
    and "\<forall>rng n. fst (fill rng n) \<noteq> None" and "64 \<le> length dst" and "data \<noteq> []"
  obtains wire dst' u' jar st t where
    "tunn_decapsulate arch fill ck ck2 (Some src) data dst u = (WriteToNetwork wire, dst', u')"
    "u_inner u' = (u_inner u)\<lparr> t_last_now := t, t_cookie_jar := jar, t_stats := st \<rparr>" "u_drainable u' = u_drainable u"
proof -
  let ?now = "tunn_now (u_epoch u) ck"
  let ?tn = "(u_inner u)\<lparr> t_last_now := max (now_ticks ?now) (t_last_now (u_inner u)) \<rparr>"
  let ?n = "?now\<lparr> now_ticks := max (now_ticks ?now) (t_last_now (u_inner u)) \<rparr>"
  obtain jar wire st dst' rng' where r:
    "reply_cookie fill ?tn ?n (encode_addr src) (hi_sender_index m) (hi_mac1 m) dst (u_rng u)
       = (Inr (Reply wire), ?tn\<lparr> t_cookie_jar := jar, t_stats := st \<rparr>, dst', rng')"
    by (rule reply_cookie_sent [OF assms(5,6), of ?tn ?n "encode_addr src" "hi_sender_index m" "hi_mac1 m" "u_rng u"]) blast
  have d: "decapsulate (simd_best arch) fill (u_inner u) ?now (case Some src of Some a \<Rightarrow> encode_addr a | None \<Rightarrow> [])
      (True \<and> Some src \<noteq> None) data dst (u_rng u) = (Inr (Reply wire), ?tn\<lparr> t_cookie_jar := jar, t_stats := st \<rparr>, dst', rng')"
    using assms(1,3,4) r by (simp add: decapsulate_def clamp_now_eq handle_initiation_def Let_def)
  have l: "(if is_handshake_kind data then note_handshake (u_limiter u) else (False, u_limiter u))
      = (True, (u_limiter u)\<lparr> rl_count := rl_count (u_limiter u) + 1 \<rparr>)"
    using assms(1,2) by (simp add: is_handshake_kind_def peek_def note_handshake_def and_then_def)
  show thesis
    by (rule that [of "prefix_or_empty (length wire) dst'" dst' "u\<lparr> u_limiter := (u_limiter u)\<lparr> rl_count := rl_count (u_limiter u) + 1 \<rparr>,
          u_inner := ?tn\<lparr> t_cookie_jar := jar, t_stats := st \<rparr>, u_rng := rng' \<rparr>"])
      (simp_all add: tunn_decapsulate_eq [OF assms(7) l d refl])
qed

subsection \<open>Properties\<close>

text \<open>C17: the driver accounts for every slab. In every run of the loop, with arbitrary datagrams, send
  failures and clock readings and with the rest of the program taking, filling, sending and dropping
  slabs in between, the pool's count of slabs in use is the number of queued packets, plus the three slabs of
  the loop, plus the slabs the rest of the program holds. When the loop has returned, for whatever
  reason, only the latter are left.\<close>

theorem driver_accounts_for_slabs:
  assumes "driver_run arch fill u0 peer c out d" and "tunn_ok u0" and "sp_slab_len (u_pool u0) < 2 ^ 63"
    and "u_queue u0 = []" and "sp_outstanding (u_pool u0) = 0"
  shows "sp_outstanding (u_pool (d_tunn d)) = of_nat (length (u_queue (d_tunn d)) + 3 + length out)
    \<and> length (u_queue (d_tunn d)) \<le> MAX_QUEUE_DEPTH
    \<and> sp_outstanding (u_pool (driver_return d)) = of_nat (length out)"
proof -
  have h: "held_elsewhere u0 = 0" using assms(4,5) by (simp add: held_elsewhere_def)
  have r: "run_ok u0 out d" by (rule driver_run_ok [OF assms(1-3)])
  have "held_elsewhere (d_tunn d) = 3 + of_nat (length out)" "tunn_ok (d_tunn d)"
    using r h by (simp_all add: run_ok_def driver_ok_def)
  then show ?thesis
    using driver_return_ok(2) [OF r] h by (simp add: held_elsewhere_def tunn_ok_def diff_eq_eq algebra_simps)
qed

theorem driver_accounts_for_slabs_witness:
  "\<exists>out d. driver_run X86_64 const_fill example_tunn None Return_Ok out d \<and> length out = 1
    \<and> sp_outstanding (u_pool (driver_return d)) = 1"
proof -
  obtain b p where g: "pool_get (u_pool (d_tunn (driver_start example_tunn None))) = (b, p)" by force
  note r = driver_run.get [OF driver_run.start g, where arch = X86_64 and fill = const_fill]
  have c: "on_to_net X86_64 const_fill True (example_clocks 0) None d = (Return_Ok, [], d)" for d by (simp add: on_to_net_def)
  note r2 = driver_run.to_net_closed [OF r c]
  have e: "u_queue example_tunn = []" "sp_outstanding (u_pool example_tunn) = 0" "sp_slab_len (u_pool example_tunn) < 2 ^ 63"
    by (simp_all add: example_tunn_def for_wireguard_def slab_pool_new_def MAX_DATAGRAM_def)
  show ?thesis using r2 driver_accounts_for_slabs [OF r2 example_tunn_ok e(3,1,2)] by fastforce
qed

text \<open>C18: queued packets leave in order. With draining switched on and a session that stays usable for as many
  packets as are queued, and with every packet fitting the slab, the drain loop ends, having sent
  exactly the queued packets, first queued first sent, under consecutive counters starting at the session's, to the
  given endpoint; the queue is empty afterwards.\<close>

theorem drain_queue_fifo:
  assumes "u_drainable u" and "t_current (u_inner u) = Some s" and "s_confirmed s"
    and "session_age s tmax < REJECT_AFTER_TIME" and "unat (s_send_counter s) + length (u_queue u) \<le> unat REJECT_AFTER_MESSAGES"
    and "t_last_now (u_inner u) \<le> tmax" and "\<forall>k. now_ticks (tunn_now (u_epoch u) (clk k)) \<le> tmax"
    and "slab_ok l net_out" and "l < 2 ^ 63"
    and "\<forall>b \<in> set (u_queue u). padded_len (length (pb_deref b)) (t_mtu (u_inner u)) + 32 \<le> l"
  shows "\<exists>net_out' u'. drain_queue arch fill (\<lambda>_. True) clk 0 dst net_out u =
      (map (\<lambda>(i, b). (transport_wire (s\<lparr> s_send_counter := s_send_counter s + of_nat i \<rparr>) (padded (pb_deref b) (t_mtu (u_inner u))), dst))
         (enumerate 0 (u_queue u)), True, net_out', u')
    \<and> u_queue u' = [] \<and> \<not> u_drainable u'"
  using drain_queue_sends [of u s tmax clk l net_out "t_mtu (u_inner u)" arch fill 0 dst] assms
  by (simp add: sends_until_def nth_wire_def)

definition example_addr :: socket_addr where
  "example_addr = V4 [10, 0, 0, 1] 51820"

lemma usable_tunn_fields:
  "tunn_ok usable_tunn" "u_queue usable_tunn = []" "sp_slab_len (u_pool usable_tunn) = 2048" "u_epoch usable_tunn = 0"
  "u_inner usable_tunn = sleeper" "sp_outstanding (u_pool usable_tunn) = 0"
  using tunn_ok_inner [OF example_tunn_ok sleeper_inv]
  by (simp_all add: usable_tunn_def example_tunn_def for_wireguard_def slab_pool_new_def MAX_DATAGRAM_def)

lemma sleeper_fields: "t_current sleeper = Some (session_new sleeper_keys 0)" "t_last_now sleeper = 0" "t_mtu sleeper = None"
  by (simp_all add: sleeper_def example_tn0_def tunnel_fresh_def example_config_def config_new_def Let_def)

lemma example_slab: "slab_ok 2048 (fst (pool_get for_wireguard))"
  using pool_get_slab [of for_wireguard "fst (pool_get for_wireguard)"] slab_pool_new_ok
  by (simp add: for_wireguard_def slab_pool_new_def MAX_DATAGRAM_def prod_eq_iff)

theorem drain_queue_fifo_witness:
  "\<exists>b b' net_out' u'. map pb_deref [b, b'] = [[1, 2, 3], [4, 5]]
    \<and> u_queue (queue_packet (queue_packet usable_tunn [1, 2, 3]) [4, 5]) = [b, b']
    \<and> drain_queue X86_64 const_fill (\<lambda>_. True) (\<lambda>_. example_clocks 0) 0 example_addr (fst (pool_get for_wireguard))
        ((queue_packet (queue_packet usable_tunn [1, 2, 3]) [4, 5])\<lparr> u_drainable := True \<rparr>)
      = ([(transport_wire (session_new sleeper_keys 0) (padded [1, 2, 3] None), example_addr),
          (transport_wire ((session_new sleeper_keys 0)\<lparr> s_send_counter := 1 \<rparr>) (padded [4, 5] None), example_addr)], True, net_out', u')"
proof -
  obtain b p where c: "copy_from (u_pool usable_tunn) [1, 2, 3] = (b, p)" by force
  obtain b' p' where c': "copy_from p [4, 5] = (b', p')" by force
  note k = copy_from_ok [OF tunn_ok_pool_ok [OF usable_tunn_fields(1)] c] and k' = copy_from_ok [OF _ c']
  have q: "queue_packet (queue_packet usable_tunn [1, 2, 3]) [4, 5] = usable_tunn\<lparr> u_queue := [b, b'], u_pool := p' \<rparr>"
    using c c' by (simp add: queue_packet_def MAX_QUEUE_DEPTH_def usable_tunn_fields)
  let ?u = "(queue_packet (queue_packet usable_tunn [1, 2, 3]) [4, 5])\<lparr> u_drainable := True \<rparr>"
  have d: "pb_deref b = [1, 2, 3]" "pb_deref b' = [4, 5]" using k k' usable_tunn_fields(3) by simp_all
  have u: "u_drainable ?u" "u_inner ?u = sleeper" "u_epoch ?u = 0" "u_queue ?u = [b, b']" by (simp_all add: q usable_tunn_fields)
  have s: "s_confirmed (session_new sleeper_keys 0)" "s_send_counter (session_new sleeper_keys 0) = 0" "session_age (session_new sleeper_keys 0) 0 = 0"
    by (simp_all add: session_new_def sleeper_keys_def session_age_def since_def saturating_sub_def)
  have "\<exists>net_out' u'. drain_queue X86_64 const_fill (\<lambda>_. True) (\<lambda>_. example_clocks 0) 0 example_addr (fst (pool_get for_wireguard)) ?u =
      (map (\<lambda>(i, b). (transport_wire ((session_new sleeper_keys 0)\<lparr> s_send_counter := s_send_counter (session_new sleeper_keys 0) + of_nat i \<rparr>)
          (padded (pb_deref b) (t_mtu (u_inner ?u))), example_addr)) (enumerate 0 (u_queue ?u)), True, net_out', u')
    \<and> u_queue u' = [] \<and> \<not> u_drainable u'"
    by (rule drain_queue_fifo [where tmax = 0 and l = 2048])
      (use u s d example_slab in \<open>simp_all add: sleeper_fields const_defs padded_len_def checked_add_usize_def
         usize_max_def PADDING_MULTIPLE_def example_clocks_def tunn_now_def elapsed_ns_def now_new_def\<close>)
  then show ?thesis using q d s u sleeper_fields(3) by (auto simp: transport_wire_def)
qed

text \<open>C20: the inner loop of the timer branch ends. From every state of the driver that satisfies the invariant, if the clock
  stands still while the loop runs, \<open>update_timers\<close> is called at most six times and at most five
  datagrams are sent, whatever the sends do.\<close>

theorem on_timer_terminates:
  assumes "driver_ok d" and "clock_ok (tunn_now (u_epoch (d_tunn d)) ck)"
  shows "\<exists>c sent d'. on_timer 6 arch fill tx (\<lambda>_. (t, ck)) d = Some (c, sent, d') \<and> length sent \<le> 5"
proof (cases "d_peer d")
  case (Some dst)
  have b: "poll_rank (u_inner (d_tunn d)) (tunn_now (u_epoch (d_tunn d)) ck) \<le> 5" by (rule poll_rank_bound)
  obtain sent ok no u where "timer_loop 6 arch fill tx (\<lambda>_. (t, ck)) 0 dst (d_net_out d) (d_tunn d) = Some (sent, ok, no, u)"
    "length sent \<le> poll_rank (u_inner (d_tunn d)) (tunn_now (u_epoch (d_tunn d)) ck)"
    using timer_loop_ends [OF _ _ _ assms(2), of "sp_slab_len (u_pool (d_tunn d))" "d_net_out d" 6 arch fill tx t 0 dst] assms(1) b
    by (auto simp: driver_ok_def)
  with Some b show ?thesis by (simp add: on_timer_def)
qed (simp add: on_timer_def)

lemma example_driver_ok: "tunn_ok u \<Longrightarrow> sp_slab_len (u_pool u) = 2048 \<Longrightarrow> driver_ok (driver_start u peer)"
  by (rule driver_start_ok(1)) simp_all

theorem on_timer_terminates_witness:
  "\<exists>c sent d'. on_timer 6 Aarch64 const_fill (\<lambda>_. True) (\<lambda>_. (0, example_clocks 0)) (driver_start usable_tunn (Some example_addr))
     = Some (c, sent, d') \<and> length sent \<le> 5"
proof -
  have "u_epoch (d_tunn (driver_start usable_tunn (Some example_addr))) = 0"
    by (simp add: driver_start_def usable_tunn_fields split: prod.split)
  then show ?thesis
    using on_timer_terminates [OF example_driver_ok [OF usable_tunn_fields(1,3)], of "Some example_addr" "example_clocks 0"]
      example_clocks_ok [of 0] by simp
qed

text \<open>C35: the driver moves the peer's endpoint on unauthenticated input. Under load, a handshake initiation
  whose \<open>mac1\<close> is right and whose \<open>mac2\<close> is not is answered with a cookie reply; nothing in it has been
  authenticated, since \<open>mac1\<close> is keyed with the receiver's public key only, and no session and no
  handshake state of the tunnel changes. Yet the driver takes the datagram's source as the peer's
  endpoint, to which from then on it sends everything.\<close>

theorem cookie_reply_roams:
  assumes "driver_ok d" and "\<not> u_drainable (d_tunn d)" and "u = d_tunn d"
    and "rl_limit (u_limiter u) \<le> rl_count (u_limiter u)" and "148 \<le> sp_slab_len (u_pool u)"
    and "parse data = Inr (HandshakeInitiation m)" and "verify_mac1 (t_mac_keys (u_inner u)) (hi_alpha m) (hi_mac1 m)"
    and "\<not> verify_mac2 (t_cookie_jar (u_inner u)) (encode_addr src) (hi_beta m) (hi_mac2 m)"
    and "\<forall>rng n. fst (fill rng n) \<noteq> None" and "tx 0"
  shows "\<exists>sent d' t jar st. on_recv arch fill tx consumer_open ck ck2 clk data src d = (Continue, sent, [], d')
    \<and> d_peer d' = Some src
    \<and> u_inner (d_tunn d') = (u_inner u)\<lparr> t_last_now := t, t_cookie_jar := jar, t_stats := st \<rparr>"
proof -
  have s: "slab_ok (sp_slab_len (u_pool u)) (d_rx d)" "slab_ok (sp_slab_len (u_pool u)) (d_tun_out d)"
    using assms(1,3) by (simp_all add: driver_ok_def)
  define n where "n = min (length data) (length (spare_mut (d_rx d)))"
  define rx where "rx = set_len (spare_write (d_rx d) (put 0 (take n data) (spare_mut (d_rx d)))) n"
  have l: "length data = 148" using assms(6) by (auto simp: parse_iff)
  have rx: "pb_deref rx = data" unfolding rx_def by (rule recv_slab [OF s(1) _ n_def]) (use l assms(5) in simp)
  have ne: "data \<noteq> []" using l by auto
  have sp: "64 \<le> length (spare_mut (d_tun_out d))" using assms(5) slab_spare [OF s(2)] by simp
  obtain wire s' u' jar st t where c:
    "tunn_decapsulate arch fill ck ck2 (Some src) data (spare_mut (d_tun_out d)) u = (WriteToNetwork wire, s', u')"
    "u_inner u' = (u_inner u)\<lparr> t_last_now := t, t_cookie_jar := jar, t_stats := st \<rparr>" "u_drainable u' = u_drainable u"
    by (rule cookie_reply_tunn [OF assms(6,4,7,8,9) sp ne])
  have nd: "\<not> u_drainable u'" using c(3) assms(2,3) by simp
  obtain sn where sn: "send_slice (tx 0) (spare_mut (spare_write (d_tun_out d) s')) (length wire) src = (sn, True)"
    using send_slice_sent [OF assms(10)] by (metis surj_pair snd_conv)
  obtain no where dq: "drain_queue arch fill (tx \<circ> Suc) clk 0 src (d_net_out d) u' = ([], True, no, u')"
    using undrainable_drain [OF nd] by blast
  show ?thesis
    using c(2) by (simp add: on_recv_def Let_def n_def [symmetric] rx_def [symmetric] rx c(1) [unfolded assms(3)] sn dq) blast
qed

text \<open>Anyone who knows the receiver's public key can make such an initiation.\<close>

definition forged_initiation :: "tunnel \<Rightarrow> handshake_initiation" where
  "forged_initiation tn = stamp_initiation ((t_mac_keys tn)\<lparr> mac1_send := mac1_recv (t_mac_keys tn) \<rparr>) None 0 blank_initiation"

lemma forged_initiation_ok:
  "packet_wf (HandshakeInitiation (forged_initiation tn))"
  "verify_mac1 (t_mac_keys tn) (hi_alpha (forged_initiation tn)) (hi_mac1 (forged_initiation tn))"
  unfolding forged_initiation_def
  using apply_macs_initiation(2) [of blank_initiation] blank_initiation_parses stamped_mac1_verifies(1) by (simp_all add: parse_iff del: packet_wf.simps packet_bytes.simps)

definition loaded_tunn :: "unit tunn" where
  "loaded_tunn = usable_tunn\<lparr> u_limiter := (rate_limiter_new DEFAULT_LIMIT 0)\<lparr> rl_count := 10 \<rparr> \<rparr>"

theorem cookie_reply_roams_witness:
  "\<exists>sent d' t jar st. on_recv X86_64 const_fill (\<lambda>_. True) True (example_clocks 0) (example_clocks 0) (\<lambda>_. example_clocks 0)
      (packet_bytes (HandshakeInitiation (forged_initiation sleeper))) (V4 [6, 6, 6, 6] 666) (driver_start loaded_tunn (Some example_addr))
      = (Continue, sent, [], d')
    \<and> d_peer d' = Some (V4 [6, 6, 6, 6] 666) \<and> u_inner (d_tunn d') = sleeper\<lparr> t_last_now := t, t_cookie_jar := jar, t_stats := st \<rparr>"
proof -
  have u: "tunn_ok loaded_tunn" "sp_slab_len (u_pool loaded_tunn) = 2048" using usable_tunn_fields(1,3) by (simp_all add: loaded_tunn_def)
  let ?d = "driver_start loaded_tunn (Some example_addr)"
  have d: "u_inner (d_tunn ?d) = sleeper" "u_limiter (d_tunn ?d) = u_limiter loaded_tunn" "\<not> u_drainable (d_tunn ?d)"
    "sp_slab_len (u_pool (d_tunn ?d)) = 2048"
    using usable_tunn_fields(3,5) driver_start_ok(3) [OF u(1)] u(2)
    by (simp_all, simp_all add: driver_start_def loaded_tunn_def usable_tunn_def example_tunn_def split: prod.split)
  have j: "\<not> jar_primed (t_cookie_jar sleeper)"
    by (simp add: sleeper_def example_tn0_def tunnel_fresh_def cookie_jar_new_def Let_def)
  show ?thesis
    using cookie_reply_roams [of ?d "d_tunn ?d" _ "forged_initiation sleeper" "V4 [6, 6, 6, 6] 666" const_fill "\<lambda>_. True" X86_64 True
        "example_clocks 0" "example_clocks 0" "\<lambda>_. example_clocks 0",
        OF example_driver_ok [OF u] d(3) refl _ _ parse_packet_bytes [OF forged_initiation_ok(1)]]
      d j forged_initiation_ok(2) [of sleeper]
    by (simp add: loaded_tunn_def rate_limiter_new_def DEFAULT_LIMIT_def const_fill_def [of "()"] verify_mac2_def del: packet_bytes.simps)
qed

text \<open>C36: without an endpoint the loop stops sleeping. While no endpoint is known, the timer branch does
  nothing, so that a deadline that has passed stays in the past: once a handshake is in flight (a packet
  from the TUN side starts one) and its retransmission is due, every later turn of the loop finds its wake-up time
  in the past, and takes the timer branch without changing anything, until a datagram or a
  packet comes in.\<close>

theorem driver_spins_without_endpoint:
  assumes "driver_ok d" and "d_peer d = None" and "t_inflight (u_inner (d_tunn d)) \<noteq> None"
  shows "\<exists>r. retransmit_at (t_timers (u_inner (d_tunn d))) = Some r
    \<and> (\<forall>now limit. u_epoch (d_tunn d) + unat r \<le> now \<longrightarrow>
          wake_at limit now d \<le> now \<and> on_timer fuel arch fill tx clk d = Some (Continue, [], d))"
proof -
  have "timers_inv (u_inner (d_tunn d))" using assms(1) by (simp add: driver_ok_def tunn_ok_def tunnel_inv_def)
  then obtain r where r: "retransmit_at (t_timers (u_inner (d_tunn d))) = Some r"
    using assms(3) by (auto simp: timers_inv_def Let_def)
  then have "\<not> later r (next_wake (u_inner (d_tunn d)))" using assms(3) by (simp add: later_next_wake wake_retransmit_def)
  then obtain w where "next_wake (u_inner (d_tunn d)) = Some w" "w \<le> r" by (auto simp: later_def)
  then have "wake_at limit now d \<le> now" if "u_epoch (d_tunn d) + unat r \<le> now" for now limit
    using that by (simp add: wake_at_def tunn_next_wake_def word_le_nat_alt)
  then show ?thesis using r assms(2) by (simp add: on_timer_def)
qed

definition waiting_tunnel :: tunnel where
  "waiting_tunnel = example_tn0\<lparr> t_inflight := Some \<lparr> if_local_index = 1, if_eph_secret = replicate 32 1, if_chain = replicate 32 2,
       if_hash = replicate 32 3 \<rparr>,
     t_timers := timers_default\<lparr> last_initiation_tx := Some 0, retransmit_at := Some 5000000000 \<rparr> \<rparr>"

lemma waiting_tunnel_inv: "tunnel_inv waiting_tunnel"
  using tunnel_fresh_inv [OF example_config_ok, of "replicate 32 3"]
  by (simp add: waiting_tunnel_def example_tn0_def tunnel_inv_def sessions_inv_def timers_inv_def index_list_def
      timers_default_def tunnel_fresh_def const_defs List.map_filter_def Let_def)

theorem driver_spins_without_endpoint_witness:
  "wake_at 10000000000 6000000000 (driver_start (example_tunn\<lparr> u_inner := waiting_tunnel \<rparr>) None) \<le> 6000000000
   \<and> on_timer 1 X86_64 const_fill (\<lambda>_. True) (\<lambda>_. (6000000000, example_clocks 6000000000))
        (driver_start (example_tunn\<lparr> u_inner := waiting_tunnel \<rparr>) None)
      = Some (Continue, [], driver_start (example_tunn\<lparr> u_inner := waiting_tunnel \<rparr>) None)"
proof -
  let ?u = "example_tunn\<lparr> u_inner := waiting_tunnel \<rparr>"
  have "tunn_ok ?u" "sp_slab_len (u_pool ?u) = 2048"
    using tunn_ok_inner [OF example_tunn_ok waiting_tunnel_inv]
    by (simp_all add: example_tunn_def for_wireguard_def slab_pool_new_def MAX_DATAGRAM_def)
  note ok = example_driver_ok [OF this, of None]
  have "u_inner (d_tunn (driver_start ?u None)) = waiting_tunnel" "u_epoch (d_tunn (driver_start ?u None)) = 0" "d_peer (driver_start ?u None) = None"
    by (simp_all add: driver_start_def example_tunn_def split: prod.split)
  with driver_spins_without_endpoint [OF ok, of 1 X86_64 const_fill "\<lambda>_. True" "\<lambda>_. (6000000000, example_clocks 6000000000)"]
  show ?thesis by (auto simp: waiting_tunnel_def)
qed

end
