(* ===== verification/Dead_Peer.thy ===== *)
theory Dead_Peer
  imports Tunnel_Wake Tunnel_Buffer
begin

text \<open>
  The dead-peer timer of \<open>timers.rs\<close> and the completion of a handshake in \<open>tunnel.rs\<close> together: which
  events disarm the timer.
\<close>

lemma completed_timers:
  "last_data_tx (t_timers (completed tn t keys)) = last_data_tx (t_timers tn)"
  "last_any_rx (t_timers (completed tn t keys)) = last_any_rx (t_timers tn)"
  "last_initiation_tx (t_timers (completed tn t keys)) = last_initiation_tx (t_timers tn)"
  "\<not> gave_up (t_timers (completed tn t keys))" "\<not> rekey_due (t_timers (completed tn t keys))"
  by (simp_all add: completed_def note_handshake_complete_def)

text \<open>The tunnel after a completed handshake and its confirming keepalive, both at time \<open>t\<close>.\<close>

definition confirmed :: "tunnel \<Rightarrow> ticks \<Rightarrow> session_keys \<Rightarrow> tunnel" where
  "confirmed tn t keys = keepalive_sent (completed tn t keys) t (session_new keys t)"

lemma rekey_after_one: "\<not> REKEY_AFTER_MESSAGES \<le> 1"
  by (simp add: REKEY_AFTER_MESSAGES_def word_le_nat_alt)

lemma confirmed_timers:
  "t_timers (confirmed tn t keys) = note_keepalive_tx t ((note_handshake_complete (t_timers tn))\<lparr> confirm_keepalive_due := True \<rparr>)"
  by (simp add: confirmed_def keepalive_sent_def completed_def note_send_rekey_def session_new_def advance_def session_age_def
      rekey_after_one REKEY_AFTER_TIME_def SECOND_def)

lemma confirmed_state:
  "t_inflight (confirmed tn t keys) = None" "t_last_now (confirmed tn t keys) = t_last_now tn"
  "sendable (confirmed tn t keys) = sendable tn" "t_current (confirmed tn t keys) = Some (advance (session_new keys t))"
  by (simp_all add: confirmed_def keepalive_sent_def completed_def note_send_rekey_def sendable_def outbound_timestamp_def)

text \<open>Whether the dead-peer timer is due depends on the traffic before the handshake only.\<close>

lemma confirmed_dead_peer:
  "dead_peer_due (t_timers (confirmed tn t keys)) t' \<longleftrightarrow>
     (\<exists>tx. last_data_tx (t_timers tn) = Some tx \<and> is_none_or (last_any_rx (t_timers tn)) (\<lambda>rx. rx < tx)
        \<and> since t' tx \<ge> DEAD_PEER_TIMEOUT)"
  "initiation_allowed (t_timers (confirmed tn t keys)) t' = initiation_allowed (t_timers tn) t'"
  "\<not> rekey_due (t_timers (confirmed tn t keys))"
  by (auto simp: confirmed_timers note_keepalive_tx_def note_handshake_complete_def dead_peer_due_def initiation_allowed_def
      split: option.split)

lemma newest_ge:
  assumes "t_current tn = Some s" and "newest_session_created tn = Some c"
  shows "s_created s \<le> c"
  using assms by (auto simp: newest_session_created_def max_def split: option.splits if_splits)

lemma poll_initiate_outcome:
  assumes "sendable tn" and "148 \<le> length out"
  shows "fst (poll_initiate fill reason tn n out rng) \<in> {Inl EntropyFailure, Inl InvalidPublicKey}
    \<or> (\<exists>w. fst (poll_initiate fill reason tn n out rng) = Inr (Send w reason))"
proof -
  have l: "length (t_local_public tn) = 32" "length (tai_bytes (outbound_timestamp tn n)) = 12"
    using assms(1) by (simp_all add: sendable_def)
  show ?thesis
    by (cases rule: send_initiation_cases [OF l, of fill out rng True, consumes 0, case_names err ok])
      (use assms(2) in \<open>auto simp: poll_initiate_def get_to_def\<close>)
qed

subsection \<open>Property\<close>


text \<open>Data sent at second 1 and never answered, a handshake completed at second 20, and \<open>poll\<close> at second 26.\<close>

definition silent_peer :: tunnel where
  "silent_peer = example_tn0\<lparr> t_timers := timers_default\<lparr> last_data_tx := Some 1000000000 \<rparr>, t_last_now := 20000000000 \<rparr>"

lemma silent_peer_inv: "tunnel_inv silent_peer"
  using tunnel_fresh_inv [OF example_config_ok, of "replicate 32 3"]
  by (simp add: silent_peer_def example_tn0_def tunnel_inv_def sessions_inv_def timers_inv_def index_list_def
      timers_default_def tunnel_fresh_def Let_def)


end
