(* ===== verification/Spec2Isabelle.thy ===== *)
theory Spec2Isabelle
  imports Async_Driver Dead_Peer
begin

text \<open>
  A verification development for \<open>wireguard-sans-io\<close>, an implementation of the WireGuard protocol that
  does no I/O of its own, with its SIMD backends and the driver around it.

  \<^bold>\<open>The program\<close>

  The core (\<open>src/src\<close>) is a state machine for one pair of peers, \<open>Tunnel\<close>. The caller gives it datagrams,
  plaintext packets, clock readings, entropy and output buffers, and it gives back datagrams to
  send and plaintext received. Below it are the handshake (\<open>noise.rs\<close>), the wire formats
  (\<open>message.rs\<close>), the cookies that guard the handshake under load (\<open>cookie.rs\<close>), the transport sessions
  (\<open>session.rs\<close>) with their replay window (\<open>replay.rs\<close>), the timers (\<open>timers.rs\<close>, \<open>time.rs\<close>) and the
  cryptography (\<open>crypto/\<close>), all without dependencies. \<open>src/simd/src\<close> has vectorised ChaCha20
  backends that the core can be instantiated with. \<open>src/embed/src\<close> supplies what the core leaves to its
  caller: \<open>Tunn\<close> (clock, entropy, rate limiter, packet queue), a pool of buffers, and \<open>AsyncTunn\<close>, an
  event loop over a UDP socket and two channels.

  \<^bold>\<open>Conventions\<close>

  Machine integers are words of their width; \<open>usize\<close> values are natural numbers with the bound of a
  64-bit target written out where the code checks it. Fallible operations return \<open>error + 'a\<close>. A mutable
  output slice is passed in and returned, so that "the buffer is untouched" is a statement of the
  model. State is passed explicitly, in records with the fields of the structs. Every reading of a
  clock is an argument, the entropy source is a parameter \<open>fill\<close> with its own state, and the ChaCha20
  backend is a parameter with the contract \<open>chacha_impl\<close>.

  \<^bold>\<open>The theories\<close>, in the order of their dependencies

  \<^item> \<open>Prelude\<close>: machine types, slices, endianness, checked and saturating arithmetic; the collections
    \<open>const_defs\<close> and \<open>len_simps\<close>. \<open>Wg_Error\<close>, \<open>Wg_Consts\<close>: \<open>error.rs\<close>, \<open>consts.rs\<close>.
  \<^item> \<open>Wg_Time\<close> (\<open>time.rs\<close>): ticks and TAI64N stamps; \<open>tick\<close> is the successor, stamps are ordered as the
    readings they come from.
  \<^item> \<open>Replay_Window\<close> (\<open>replay.rs\<close>): the bitmap refines the set of received counters; the locale \<open>replay_filter\<close>
    is what the sessions rely on.
  \<^item> \<open>Ct\<close>, \<open>ChaCha20\<close>, \<open>Poly1305\<close>, \<open>Aead\<close>, \<open>Blake2s\<close>, \<open>Kdf\<close>, \<open>X25519\<close> (\<open>crypto/\<close>): the code's limb and word
    arithmetic. The AEADs round-trip, and check the tag before they write; the streaming hash computes the
    whole-message definition; HMAC and HKDF are the standard constructions. The locale \<open>chacha_impl\<close>
    is the contract of a backend.
  \<^item> \<open>Simd\<close> (\<open>src/simd/src\<close>): the NEON and AVX2 backends over definitions of the vector instructions they use,
    equal to the scalar keystream on all inputs; each is an interpretation of \<open>chacha_impl\<close>.
  \<^item> \<open>Entropy\<close>, \<open>Keys\<close> (\<open>entropy.rs\<close>, \<open>testing.rs\<close>, \<open>keys.rs\<close>).
  \<^item> \<open>Message\<close> (\<open>message.rs\<close>): parsing inverts building, and accepts nothing else.
  \<^item> \<open>Cookie\<close> (\<open>cookie.rs\<close>): macs, the cookie jar and the exchange of cookies end to end; nonces of cookie replies
    do not repeat.
  \<^item> \<open>Noise\<close> (\<open>noise.rs\<close>): the two ends of an honest handshake derive the same keys.
  \<^item> \<open>Session\<close>, \<open>Timers\<close>, \<open>Tunnel\<close> (\<open>session.rs\<close>, \<open>timers.rs\<close>, \<open>tunnel.rs\<close>): the state machine.
    \<open>Tunnel_Ops\<close> has equations and case rules for its operations, \<open>Tunnel_Inv\<close> the invariant and its
    preservation, \<open>Tunnel_Trace\<close> runs with an arbitrary caller and what holds along them (pacing,
    fresh nonces, replayed initiations, harmless errors), \<open>Tunnel_Wake\<close> \<open>poll\<close> against
    \<open>next_wake\<close>, \<open>Tunnel_Link\<close> two tunnels talking to each other, \<open>Tunnel_Buffer\<close> the contract of the output
    buffer, \<open>Dead_Peer\<close> the dead-peer timer across a handshake.
  \<^item> \<open>Slab_Pool\<close> (\<open>buffer.rs\<close>): the pools and the RAII buffer; the locale \<open>buffer_pool\<close> is the trait
    \<open>BufferPool\<close>, interpreted on both pools.
  \<^item> \<open>Rate_Limiter\<close> (\<open>rate_limiter.rs\<close>): the methods as single steps, and \<open>maybe_reset\<close> as the sequence of
    its atomic accesses under arbitrary interleaving.
  \<^item> \<open>Tunn\<close> (\<open>src/embed/src/lib.rs\<close>): the operations over the core, with the queue; the invariant includes
    that of the core, and no slab leaks.
  \<^item> \<open>Async_Driver\<close> (\<open>tokio.rs\<close>): one definition for each branch of the \<open>select!\<close>, and runs of the loop
    interleaved with the rest of the program; slabs are accounted for until the loop has
    returned, the queue is drained in order, the timer branch ends.

  \<^bold>\<open>Bounds and fuel\<close>

  \<^item> Clock readings are below \<open>2^63\<close> nanoseconds since the epoch of the tunnel (\<open>clock_ok\<close>), 292 years of
    uptime: up to there no deadline saturates. Output buffers are shorter than \<open>2^63\<close> bytes, which Rust
    guarantees for every slice.
  \<^item> The loops \<open>poll_loop\<close> and \<open>timer_loop\<close> take fuel, since nothing in the code bounds them. Six
    turns are enough while the clock stands still: a rank of at most five falls with every turn that
    has work. \<open>drain_queue\<close> has a termination proof: each turn shortens the queue or switches draining
    off.
  \<^item> What is used of Curve25519 is that Diffie-Hellman commutes on the scalars at hand (\<open>dh_ok\<close>); no
    hypothesis about secrecy or collision resistance is made, and none of the properties states one.

  \<^bold>\<open>Not modelled\<close>

  \<^item> Timing, memory layout and the compiler: constant-time execution of \<open>ct.rs\<close>, and the \<open>unsafe\<close> loads and
    stores of the SIMD crate beyond the values they move.
  \<^item> The socket, the channels, the timer wheel and the scheduler of the asynchronous runtime, and the generator of
    the operating system: what they return is an argument of the model.
  \<^item> \<open>Debug\<close> implementations (those of the keys apart), plain getters, \<open>Tunn::core_mut\<close>.
  \<^item> Tests, benchmarks, fuzz targets, examples and scripts, which call the program or measure it.
\<close>

end
